(* ===== verification/Prelude.thy ===== *)
theory Prelude
  imports Complex_Main "HOL-Library.Word" "HOL-Library.Multiset" "HOL-Library.Monad_Syntax" "HOL-Library.Signed_Division"
begin

text \<open>
  Shared vocabulary of the development: the Go types that several components use, the way
  errors and run-time panics are represented, and generic lemmas on lists and words.

  Conventions used everywhere:
  \<^item> a Go result \<open>(v, error)\<close> is a value of \<open>'a result\<close>: \<open>Inl msg\<close> is the
    returned error, \<open>Inr v\<close> the value;
  \<^item> a computation that may hit a Go run-time panic (index out of range, nil dereference,
    an explicit \<open>panic\<close>) has an option type, and \<open>None\<close> is the panic: the goroutine
    and with it the process dies, so no later state exists;
  \<^item> \<open>time.Time\<close> and \<open>time.Duration\<close> are integers counting nanoseconds;
  \<^item> \<open>int\<close> of Go is HOL's \<open>int\<close>; where a product of durations can leave the 64 bits, \<open>int64\<close> wraps it;
    the fixed-width types \<open>uint8\<close>, \<open>uint16\<close>,
    \<open>uint32\<close> are words and wrap around.
\<close>

type_synonym byte = "8 word"
type_synonym bytes = "byte list"
type_synonym u8 = "8 word"
type_synonym u16 = "16 word"
type_synonym u32 = "32 word"
type_synonym time = int
type_synonym duration = int
type_synonym 'a result = "string + 'a"

named_theorems inv_intros \<open>preservation of component invariants by their operations\<close>
named_theorems frame_simps \<open>what an operation leaves unchanged\<close>

section \<open>64-bit integers\<close>

text \<open>The value of an \<open>int64\<close> after an operation whose exact result is \<open>x\<close>.\<close>

definition int64 :: "int \<Rightarrow> int" where
  "int64 x = (x + 2 ^ 63) mod 2 ^ 64 - 2 ^ 63"

lemma int64_id: "- (2 ^ 63) \<le> x \<Longrightarrow> x < 2 ^ 63 \<Longrightarrow> int64 x = x"
  by (simp add: int64_def)

lemma int64_range: "- (2 ^ 63) \<le> int64 x" "int64 x < 2 ^ 63"
  using pos_mod_sign [of "2 ^ 64" "x + 2 ^ 63"] pos_mod_bound [of "2 ^ 64" "x + 2 ^ 63"] by (simp_all add: int64_def)

section \<open>Lists\<close>

text \<open>Swapping two positions, the Go idiom \<open>xs[i], xs[j] = xs[j], xs[i]\<close>.\<close>

definition swap_at :: "nat \<Rightarrow> nat \<Rightarrow> 'a list \<Rightarrow> 'a list" where
  "swap_at i j xs = xs[i := xs ! j, j := xs ! i]"

lemma length_swap_at [simp]: "length (swap_at i j xs) = length xs"
  by (simp add: swap_at_def)

lemma mset_swap_at [simp]:
  "i < length xs \<Longrightarrow> j < length xs \<Longrightarrow> mset (swap_at i j xs) = mset xs"
  by (simp add: swap_at_def mset_swap)

lemma set_swap_at [simp]:
  "i < length xs \<Longrightarrow> j < length xs \<Longrightarrow> set (swap_at i j xs) = set xs"
  by (metis mset_swap_at set_mset_mset)

lemma distinct_swap_at [simp]:
  "i < length xs \<Longrightarrow> j < length xs \<Longrightarrow> distinct (swap_at i j xs) = distinct xs"
  by (metis mset_swap_at mset_eq_imp_distinct_iff)

lemma nth_swap_at:
  "i < length xs \<Longrightarrow> j < length xs \<Longrightarrow> k < length xs \<Longrightarrow>
   swap_at i j xs ! k = (if k = i then xs ! j else if k = j then xs ! i else xs ! k)"
  by (auto simp: swap_at_def nth_list_update)

text \<open>Reading an index out of range is a panic.\<close>

definition idx :: "'a list \<Rightarrow> nat \<Rightarrow> 'a option" where
  "idx xs i = (if i < length xs then Some (xs ! i) else None)"

lemma idx_Some [simp]: "i < length xs \<Longrightarrow> idx xs i = Some (xs ! i)"
  by (simp add: idx_def)

lemma idx_None [simp]: "length xs \<le> i \<Longrightarrow> idx xs i = None"
  by (simp add: idx_def)

lemma idx_eq_Some_iff: "idx xs i = Some x \<longleftrightarrow> i < length xs \<and> xs ! i = x"
  by (auto simp: idx_def)

lemma distinct_filter_neq_remove1:
  "distinct xs \<Longrightarrow> filter (\<lambda>x. x \<noteq> a) xs = remove1 a xs"
  by (induction xs) (auto intro: filter_True)

lemma take_drop_Suc_remove1:
  assumes "distinct xs" and "i < length xs"
  shows "take i xs @ drop (Suc i) xs = remove1 (xs ! i) xs"
proof -
  have xs: "xs = take i xs @ xs ! i # drop (Suc i) xs"
    using assms(2) by (simp add: id_take_nth_drop)
  have "xs ! i \<notin> set (take i xs)"
    using assms by (auto simp: in_set_conv_nth nth_eq_iff_index_eq)
  then show ?thesis
    using xs by (metis remove1_append remove1.simps(2))
qed

lemma takeWhile_neq_split: "p \<in> set xs \<Longrightarrow> \<exists>zs. xs = takeWhile (\<lambda>x. x \<noteq> p) xs @ p # zs"
  by (induction xs) auto

section \<open>Words\<close>

lemma word_one_le: "(w :: 'a::len word) \<noteq> 0 \<Longrightarrow> 1 \<le> w"
  by (simp add: word_le_nat_alt unat_gt_0 Suc_leI)

section \<open>Truncating division\<close>

text \<open>Go's \<open>/\<close> and \<open>%\<close> truncate; on non-negative operands they are \<open>div\<close> and \<open>mod\<close>.\<close>

lemma smod_nonneg [simp]: "0 \<le> a \<Longrightarrow> 0 \<le> b \<Longrightarrow> (a :: int) smod b = a mod b"
  by (cases "a = 0") (simp_all add: smod_int_alt_def)

lemma sdiv_nonneg [simp]: "0 \<le> a \<Longrightarrow> 0 \<le> b \<Longrightarrow> (a :: int) sdiv b = a div b"
  by (cases "a = 0"; cases "b = 0") (simp_all add: signed_divide_int_def)

section \<open>Sources of broadcasts\<close>

text \<open>
  What the packet code relies on of a queue of broadcasts: asked for messages with an overhead
  per message and a limit, it answers, stays well-formed, and does not exceed the limit.
\<close>

locale broadcast_source =
  fixes ok :: "'q \<Rightarrow> bool"
    and fetch :: "'q \<Rightarrow> int \<Rightarrow> int \<Rightarrow> (bytes list \<times> 'q) option"
  assumes fetch_fits: "ok q \<Longrightarrow> 0 \<le> overhead \<Longrightarrow> \<exists>ms q'. fetch q overhead limit = Some (ms, q') \<and> ok q' \<and>
      (ms = [] \<or> sum_list (map (\<lambda>m. int (length m) + overhead) ms) \<le> limit)"
begin

lemma fetch_ok: "ok q \<Longrightarrow> 0 \<le> overhead \<Longrightarrow> fetch q overhead limit = Some (ms, q') \<Longrightarrow> ok q'"
  using fetch_fits [of q overhead limit] by auto

lemma fetch_bound:
  "ok q \<Longrightarrow> 0 \<le> overhead \<Longrightarrow> fetch q overhead limit = Some (ms, q') \<Longrightarrow>
   ms = [] \<or> sum_list (map (\<lambda>m. int (length m) + overhead) ms) \<le> limit"
  using fetch_fits [of q overhead limit] by auto

lemma fetch_total: "ok q \<Longrightarrow> 0 \<le> overhead \<Longrightarrow> fetch q overhead limit \<noteq> None"
  using fetch_fits [of q overhead limit] by auto

end

end
