(* ===== verification/Keyring.thy ===== *)
theory Keyring
  imports Prelude
begin

text \<open>
  The encryption key ring of \<open>memberlist/keyring.go\<close>: a list of keys whose head is the
  primary key. \<open>RemoveKey\<close> is modelled with the in-place shift that Go's
  \<open>append(k.keys[:i], k.keys[i+1:]...)\<close> performs on the array the loop is ranging over.
\<close>

section \<open>State and operations\<close>

record Keyring =
  keys :: "bytes list"

definition keyring_init :: Keyring where
  "keyring_init = \<lparr>keys = []\<rparr>"

definition ValidateKey :: "bytes \<Rightarrow> unit result" where
  "ValidateKey key =
     (let l = length key in
      if l \<noteq> 16 \<and> l \<noteq> 24 \<and> l \<noteq> 32 then Inl ''key size must be 16, 24 or 32 bytes'' else Inr ())"

definition installKeys :: "Keyring \<Rightarrow> bytes list \<Rightarrow> bytes \<Rightarrow> Keyring" where
  "installKeys k ks primaryKey = k\<lparr>keys := primaryKey # filter (\<lambda>key. key \<noteq> primaryKey) ks\<rparr>"

definition GetKeys :: "Keyring \<Rightarrow> bytes list" where
  "GetKeys k = keys k"

definition GetPrimaryKey :: "Keyring \<Rightarrow> bytes option" where
  "GetPrimaryKey k = (case keys k of [] \<Rightarrow> None | p # _ \<Rightarrow> Some p)"

definition AddKey :: "Keyring \<Rightarrow> bytes \<Rightarrow> Keyring result" where
  "AddKey k key =
     (case ValidateKey key of
        Inl e \<Rightarrow> Inl e
      | Inr _ \<Rightarrow>
          if key \<in> set (keys k) then Inr k
          else
            (let ks = keys k @ [key];
                 primaryKey = (case GetPrimaryKey k of None \<Rightarrow> key | Some p \<Rightarrow> p)
             in Inr (installKeys k ks primaryKey)))"

definition UseKey :: "Keyring \<Rightarrow> bytes \<Rightarrow> Keyring result" where
  "UseKey k key =
     (if key \<in> set (keys k) then Inr (installKeys k (keys k) key)
      else Inl ''Requested key is not in the keyring'')"

text \<open>
  The loop of \<open>RemoveKey\<close> ranges over the array \<open>arr\<close> that \<open>k.keys\<close> had on entry.
  A match at index \<open>i\<close> shifts the tail of the array behind \<open>k.keys\<close> one place to the
  left, in place; the first time that array is \<open>arr\<close> itself (\<open>shared\<close>), afterwards
  \<open>installKeys\<close> has given \<open>k.keys\<close> an array of its own. The loop does not stop at a
  match, and slicing beyond the length of \<open>k.keys\<close> panics.
\<close>

function RemoveKey_loop :: "bytes \<Rightarrow> nat \<Rightarrow> bytes list \<Rightarrow> bool \<Rightarrow> Keyring \<Rightarrow> Keyring option" where
  "RemoveKey_loop key i arr shared k =
     (if i \<ge> length arr then Some k
      else if arr ! i = key then
        (if length (keys k) < Suc i then None
         else
           (let ks = take i (keys k) @ drop (Suc i) (keys k);
                inplace = ks @ drop (length ks) (keys k);
                k' = installKeys k ks (inplace ! 0)
            in RemoveKey_loop key (Suc i) (if shared then inplace else arr) False k'))
      else RemoveKey_loop key (Suc i) arr shared k)"
  by pat_completeness auto
termination
  by (relation "measure (\<lambda>(key, i, arr, shared, k).
        (if shared \<and> length arr < length (keys k) then length (keys k) else length arr) - i)") auto

declare RemoveKey_loop.simps [simp del]

definition RemoveKey :: "Keyring \<Rightarrow> bytes \<Rightarrow> Keyring result option" where
  "RemoveKey k key =
     (case keys k of
        [] \<Rightarrow> None
      | p # _ \<Rightarrow>
          if key = p then Some (Inl ''Removing the primary key is not allowed'')
          else map_option Inr (RemoveKey_loop key 0 (keys k) True k))"

fun AddKeys :: "Keyring \<Rightarrow> bytes list \<Rightarrow> Keyring result" where
  "AddKeys k [] = Inr k"
| "AddKeys k (key # ks) =
     (case AddKey k key of Inl e \<Rightarrow> Inl e | Inr k' \<Rightarrow> AddKeys k' ks)"

definition NewKeyring :: "bytes list \<Rightarrow> bytes \<Rightarrow> Keyring result" where
  "NewKeyring ks primaryKey =
     (if length ks > 0 \<or> length primaryKey > 0 then
        (if length primaryKey = 0 then Inl ''Empty primary key not allowed''
         else
           (case AddKey keyring_init primaryKey of
              Inl e \<Rightarrow> Inl e
            | Inr k \<Rightarrow> AddKeys k ks))
      else Inr keyring_init)"

section \<open>Invariant\<close>

definition valid_key :: "bytes \<Rightarrow> bool" where
  "valid_key key \<longleftrightarrow> length key \<in> {16, 24, 32}"

definition keyring_ok :: "Keyring \<Rightarrow> bool" where
  "keyring_ok k \<longleftrightarrow> distinct (keys k) \<and> (\<forall>key \<in> set (keys k). valid_key key)"

lemma ValidateKey_iff: "ValidateKey key = Inr () \<longleftrightarrow> valid_key key"
  by (auto simp: ValidateKey_def valid_key_def Let_def)

lemma ValidateKey_cases:
  "ValidateKey key = (if valid_key key then Inr () else Inl ''key size must be 16, 24 or 32 bytes'')"
  by (auto simp: ValidateKey_def valid_key_def Let_def)

lemma keyring_init_ok [inv_intros]: "keyring_ok keyring_init"
  by (simp add: keyring_ok_def keyring_init_def)

lemma keys_installKeys [simp]:
  "keys (installKeys k ks p) = p # filter (\<lambda>key. key \<noteq> p) ks"
  by (simp add: installKeys_def)

lemma installKeys_ok [inv_intros]:
  "distinct ks \<Longrightarrow> \<forall>key \<in> set ks. valid_key key \<Longrightarrow> valid_key p \<Longrightarrow> keyring_ok (installKeys k ks p)"
  by (auto simp: keyring_ok_def)

lemma AddKey_new:
  assumes "valid_key key" and "key \<notin> set (keys k)" and "keyring_ok k"
  shows "AddKey k key = Inr (k\<lparr>keys := keys k @ [key]\<rparr>)"
proof (cases "keys k")
  case Nil
  then show ?thesis
    using assms by (simp add: AddKey_def ValidateKey_cases GetPrimaryKey_def installKeys_def)
next
  case (Cons p ps)
  then have "filter (\<lambda>x. x \<noteq> p) ps = ps"
    using assms(3) by (auto simp: keyring_ok_def intro: filter_True)
  with Cons assms(1,2) show ?thesis
    by (auto simp: AddKey_def ValidateKey_cases GetPrimaryKey_def installKeys_def)
qed

lemma AddKey_old:
  "valid_key key \<Longrightarrow> key \<in> set (keys k) \<Longrightarrow> AddKey k key = Inr k"
  by (simp add: AddKey_def ValidateKey_cases)

lemma AddKey_invalid:
  "\<not> valid_key key \<Longrightarrow> AddKey k key = Inl ''key size must be 16, 24 or 32 bytes''"
  by (simp add: AddKey_def ValidateKey_cases)

lemma AddKey_ok [inv_intros]: "keyring_ok k \<Longrightarrow> AddKey k key = Inr k' \<Longrightarrow> keyring_ok k'"
  by (cases "valid_key key"; cases "key \<in> set (keys k)")
     (auto simp: AddKey_new AddKey_old AddKey_invalid keyring_ok_def)

lemma UseKey_ok [inv_intros]: "keyring_ok k \<Longrightarrow> UseKey k key = Inr k' \<Longrightarrow> keyring_ok k'"
  by (auto simp: UseKey_def keyring_ok_def split: if_splits)

lemma AddKeys_ok [inv_intros]: "keyring_ok k \<Longrightarrow> AddKeys k ks = Inr k' \<Longrightarrow> keyring_ok k'"
  by (induction ks arbitrary: k) (auto split: sum.splits intro: AddKey_ok)

subsection \<open>The removal loop\<close>

lemma RemoveKey_loop_skip:
  assumes "\<forall>j. i \<le> j \<and> j < length arr \<longrightarrow> arr ! j \<noteq> key"
  shows "RemoveKey_loop key i arr shared k = Some k"
  using assms
proof (induction "length arr - i" arbitrary: i)
  case 0
  then show ?case by (simp add: RemoveKey_loop.simps)
next
  case (Suc n)
  then have "RemoveKey_loop key (Suc i) arr shared k = Some k" by simp
  then show ?case using Suc.prems by (subst RemoveKey_loop.simps) simp
qed

lemma RemoveKey_loop_advance:
  assumes "\<forall>j. i \<le> j \<and> j < i + m \<longrightarrow> arr ! j \<noteq> key" and "i + m \<le> length arr"
  shows "RemoveKey_loop key i arr shared k = RemoveKey_loop key (i + m) arr shared k"
  using assms
proof (induction m arbitrary: i)
  case (Suc m)
  then have "RemoveKey_loop key (Suc i) arr shared k = RemoveKey_loop key (i + Suc m) arr shared k"
    by auto
  then show ?case using Suc.prems by (subst RemoveKey_loop.simps) auto
qed simp

lemma RemoveKey_loop_hit:
  assumes ks: "keys k = p # ys @ key # zs" and d: "distinct (keys k)"
  shows "RemoveKey_loop key (Suc (length ys)) (keys k) True k = Some (k\<lparr>keys := p # ys @ zs\<rparr>)"
proof -
  let ?n = "Suc (length ys)" and ?arr = "p # ys @ zs @ drop (length zs) (key # zs)"
  have p: "filter (\<lambda>x. x \<noteq> p) (ys @ zs) = ys @ zs"
    using d by (intro filter_True) (auto simp: ks)
  have step: "RemoveKey_loop key ?n (keys k) True k =
      RemoveKey_loop key (Suc ?n) ?arr False (k\<lparr>keys := p # ys @ zs\<rparr>)"
    using p by (subst RemoveKey_loop.simps) (simp add: ks Let_def installKeys_def)
  have "\<forall>j. Suc ?n \<le> j \<and> j < length ?arr \<longrightarrow> ?arr ! j \<noteq> key"
  proof (cases zs rule: rev_cases)
    case (snoc as a)
    have "set (drop (Suc ?n) ?arr) \<subseteq> set zs"
      by (auto simp: snoc dest: in_set_dropD)
    then have "key \<notin> set (drop (Suc ?n) ?arr)" using d by (auto simp: ks)
    moreover have "?arr ! j \<in> set (drop (Suc ?n) ?arr)" if "Suc ?n \<le> j" "j < length ?arr" for j
      using nth_mem [of "j - Suc ?n" "drop (Suc ?n) ?arr"] that
      by (simp only: length_drop nth_drop le_add_diff_inverse diff_less_mono)
    ultimately show ?thesis by metis
  qed auto
  then show ?thesis by (simp only: step RemoveKey_loop_skip)
qed

lemma RemoveKey_member:
  assumes ok: "keyring_ok k" and ks: "keys k = p # ps" and ne: "key \<noteq> p"
  shows "RemoveKey k key = Some (Inr (k\<lparr>keys := remove1 key (keys k)\<rparr>))"
proof (cases "key \<in> set ps")
  case True
  then obtain ys zs where ps: "ps = ys @ key # zs" and ys: "key \<notin> set ys"
    by (meson split_list_first)
  have "\<forall>j. 0 \<le> j \<and> j < 0 + Suc (length ys) \<longrightarrow> keys k ! j \<noteq> key"
    using ne ys by (auto simp: ks ps nth_Cons nth_append split: nat.splits)
  then have "RemoveKey_loop key 0 (keys k) True k = RemoveKey_loop key (Suc (length ys)) (keys k) True k"
    using RemoveKey_loop_advance [of 0 "Suc (length ys)" "keys k" key True k] by (simp add: ks ps)
  also have "\<dots> = Some (k\<lparr>keys := p # ys @ zs\<rparr>)"
    using ok by (intro RemoveKey_loop_hit) (auto simp: ks ps keyring_ok_def)
  finally show ?thesis using ne ys by (simp add: RemoveKey_def ks ps remove1_append)
next
  case False
  then have "RemoveKey_loop key 0 (keys k) True k = Some k"
    using ne by (intro RemoveKey_loop_skip) (auto simp: ks nth_Cons split: nat.splits)
  then show ?thesis using ne False by (simp add: RemoveKey_def ks remove1_idem)
qed

lemma RemoveKey_primary:
  "keys k = p # ps \<Longrightarrow> RemoveKey k p = Some (Inl ''Removing the primary key is not allowed'')"
  by (simp add: RemoveKey_def)

lemma RemoveKey_ok [inv_intros]:
  "keyring_ok k \<Longrightarrow> RemoveKey k key = Some (Inr k') \<Longrightarrow> keyring_ok k'"
proof (cases "keys k")
  case (Cons p ps)
  assume ok: "keyring_ok k" and r: "RemoveKey k key = Some (Inr k')"
  then have "key \<noteq> p" using Cons by (auto simp: RemoveKey_def)
  with ok Cons r show ?thesis
    using notin_set_remove1 by (fastforce simp: RemoveKey_member keyring_ok_def split: if_splits)
qed (simp add: RemoveKey_def)

section \<open>The abstract ring\<close>

text \<open>
  What the rest of the program may assume of a ring: a set of keys with a designated primary
  key. An operation of the ring either reports an error and changes nothing, or moves to the
  ring the specification names. \<open>stepA\<close> is the specification, \<open>ring_step\<close> the code.
\<close>

datatype ring_op = Add bytes | Use bytes | Remove bytes

type_synonym ring = "bytes option \<times> bytes set"

fun stepA :: "ring \<Rightarrow> ring_op \<Rightarrow> bool \<times> ring" where
  "stepA (p, K) (Add key) =
     (if \<not> valid_key key then (False, p, K)
      else (True, (case p of None \<Rightarrow> Some key | Some q \<Rightarrow> Some q), insert key K))"
| "stepA (p, K) (Use key) = (if key \<in> K then (True, Some key, K) else (False, p, K))"
| "stepA (p, K) (Remove key) = (if p = Some key then (False, p, K) else (True, p, K - {key}))"

fun ring_step :: "Keyring \<Rightarrow> ring_op \<Rightarrow> (bool \<times> Keyring) option" where
  "ring_step k (Add key) = Some (case AddKey k key of Inl _ \<Rightarrow> (False, k) | Inr k' \<Rightarrow> (True, k'))"
| "ring_step k (Use key) = Some (case UseKey k key of Inl _ \<Rightarrow> (False, k) | Inr k' \<Rightarrow> (True, k'))"
| "ring_step k (Remove key) =
     map_option (\<lambda>r. case r of Inl _ \<Rightarrow> (False, k) | Inr k' \<Rightarrow> (True, k')) (RemoveKey k key)"

definition ring_abs :: "Keyring \<Rightarrow> ring" where
  "ring_abs k = (GetPrimaryKey k, set (keys k))"

definition ring_simulates :: "Keyring \<Rightarrow> ring_op \<Rightarrow> bool" where
  "ring_simulates k oper \<longleftrightarrow>
     (case ring_step k oper of
        None \<Rightarrow> False
      | Some (b, k') \<Rightarrow> keyring_ok k' \<and> stepA (ring_abs k) oper = (b, ring_abs k'))"

lemma ring_simulates_add: "keyring_ok k \<Longrightarrow> ring_simulates k (Add key)"
  using AddKey_ok [of k key]
  by (cases "valid_key key"; cases "key \<in> set (keys k)"; cases "keys k")
     (auto simp: ring_simulates_def AddKey_new AddKey_old AddKey_invalid ring_abs_def
        GetPrimaryKey_def)

lemma ring_simulates_use: "keyring_ok k \<Longrightarrow> ring_simulates k (Use key)"
  using UseKey_ok [of k key]
  by (cases "key \<in> set (keys k)")
     (auto simp: ring_simulates_def UseKey_def ring_abs_def GetPrimaryKey_def)

lemma ring_simulates_remove:
  assumes ok: "keyring_ok k" and ks: "keys k \<noteq> []"
  shows "ring_simulates k (Remove key)"
proof -
  obtain p ps where k: "keys k = p # ps" using ks by (cases "keys k") auto
  show ?thesis
  proof (cases "key = p")
    case True
    then show ?thesis
      using ok k by (simp add: ring_simulates_def RemoveKey_primary ring_abs_def GetPrimaryKey_def)
  next
    case False
    have d: "distinct (p # ps)" using ok k by (simp add: keyring_ok_def)
    show ?thesis
      using RemoveKey_member [OF ok k False] RemoveKey_ok [OF ok, of key] False d
      by (auto simp: ring_simulates_def ring_abs_def GetPrimaryKey_def k)
  qed
qed

lemma AddKeys_result:
  assumes "keyring_ok k" and "keys k \<noteq> []"
  shows "case AddKeys k ks of
           Inl e \<Rightarrow> e = ''key size must be 16, 24 or 32 bytes'' \<and> (\<exists>key \<in> set ks. \<not> valid_key key)
         | Inr k' \<Rightarrow> (\<forall>key \<in> set ks. valid_key key) \<and> hd (keys k') = hd (keys k) \<and>
                    set (keys k') = set (keys k) \<union> set ks"
  using assms
proof (induction ks arbitrary: k)
  case (Cons key ks)
  show ?case
  proof (cases "valid_key key")
    case True
    then obtain k' where k': "AddKey k key = Inr k'" "set (keys k') = insert key (set (keys k))"
        "hd (keys k') = hd (keys k)" "keys k' \<noteq> []"
      using Cons.prems AddKey_new [of key k] AddKey_old [of key k]
      by (cases "key \<in> set (keys k)") (auto simp: insert_absorb)
    have "keyring_ok k'" using Cons.prems k' by (auto intro: AddKey_ok)
    from Cons.IH [OF this k'(4)] show ?thesis
      using k' True by (auto split: sum.splits)
  qed (simp add: AddKey_invalid)
qed simp

section \<open>Properties\<close>

text \<open>
  C22. The key ring implements its specification: on a well-formed ring (distinct keys of a
  legal size), adding, selecting and removing keys each return without a panic, report an
  error exactly when the specification does, leave a well-formed ring, and change the primary
  key and the key set exactly as specified. Removal needs a non-empty ring.
\<close>

theorem keyring_refines_spec:
  assumes "keyring_ok k" and "keys k \<noteq> [] \<or> (\<forall>key. oper \<noteq> Remove key)"
  shows "case ring_step k oper of
           None \<Rightarrow> False
         | Some (b, k') \<Rightarrow> keyring_ok k' \<and> stepA (ring_abs k) oper = (b, ring_abs k')"
  using assms ring_simulates_add ring_simulates_use ring_simulates_remove
  unfolding ring_simulates_def by (cases oper) blast+

theorem keyring_refines_spec_witness:
  "case ring_step \<lparr>keys = [replicate 16 1, replicate 24 2, replicate 32 3]\<rparr>
          (Remove (replicate 24 2)) of
     None \<Rightarrow> False
   | Some (b, k') \<Rightarrow> keyring_ok k' \<and>
       (True, Some (replicate 16 1), {replicate 16 1, replicate 32 3}) = (b, ring_abs k')"
proof -
  let ?k = "\<lparr>keys = [replicate 16 1, replicate 24 2, replicate 32 (3 :: byte)]\<rparr>"
  have neq: "replicate 16 (1 :: byte) \<noteq> replicate 24 2" "replicate 24 (2 :: byte) \<noteq> replicate 32 3"
            "replicate 16 (1 :: byte) \<noteq> replicate 32 3"
    by (auto dest: arg_cong [where f = length])
  have "keyring_ok ?k" using neq by (simp add: keyring_ok_def valid_key_def)
  note sim = keyring_refines_spec [OF this, of "Remove (replicate 24 2)"]
  have spec: "stepA (ring_abs ?k) (Remove (replicate 24 2)) =
      (True, Some (replicate 16 1), {replicate 16 1, replicate 32 3})"
    using neq by (auto simp: ring_abs_def GetPrimaryKey_def)
  show ?thesis using sim unfolding spec by simp
qed

text \<open>
  Constructing a ring: without keys the ring is empty (encryption off); with keys but no
  primary key it is an error; otherwise it succeeds exactly when every key has a legal size,
  and then the ring is well-formed, its primary key is the one given and its keys are the
  primary key together with the list.
\<close>

theorem NewKeyring_spec:
  "case NewKeyring ks p of
     Inl e \<Rightarrow> e = (if p = [] then ''Empty primary key not allowed''
                   else ''key size must be 16, 24 or 32 bytes'') \<and>
              (p = [] \<and> ks \<noteq> [] \<or> p \<noteq> [] \<and> \<not> list_all valid_key (p # ks))
   | Inr k \<Rightarrow> keyring_ok k \<and>
       (p = [] \<and> ks = [] \<and> keys k = [] \<or>
        p \<noteq> [] \<and> list_all valid_key (p # ks) \<and> GetPrimaryKey k = Some p \<and>
        set (keys k) = insert p (set ks))"
proof (cases "p = [] \<or> \<not> valid_key p")
  case True
  then show ?thesis
    by (auto simp: NewKeyring_def AddKey_invalid keyring_init_def keyring_ok_def)
next
  case False
  let ?k = "\<lparr>keys = [p]\<rparr>"
  have add: "AddKey keyring_init p = Inr ?k"
    using False AddKey_new [of p keyring_init]
    by (simp add: keyring_init_def keyring_ok_def)
  then have ok: "keyring_ok ?k" by (rule AddKey_ok [OF keyring_init_ok])
  have new: "NewKeyring ks p = AddKeys ?k ks" using False add by (simp add: NewKeyring_def)
  show ?thesis
  proof (cases "AddKeys ?k ks")
    case (Inl e)
    then show ?thesis using False AddKeys_result [OF ok, of ks] by (auto simp: new list_all_iff)
  next
    case (Inr k)
    then have "keyring_ok k" by (rule AddKeys_ok [OF ok])
    moreover have "set (keys k) = insert p (set ks)" "hd (keys k) = p" "\<forall>key \<in> set ks. valid_key key"
      using Inr AddKeys_result [OF ok, of ks] by auto
    moreover from this(1,2) have "GetPrimaryKey k = Some p"
      by (cases "keys k") (auto simp: GetPrimaryKey_def)
    ultimately show ?thesis using Inr False by (simp add: new list_all_iff)
  qed
qed

end
