(* ===== verification/Security.thy ===== *)
theory Security
  imports Keyring
begin

text \<open>
  Packet and stream encryption of \<open>memberlist/security.go\<close>. AES-GCM itself
  (\<open>crypto/aes\<close>, \<open>crypto/cipher\<close>) is a parameter \<open>aead\<close>, a pair of functions; the
  laws an authenticated cipher gives are the hypothesis \<open>aead_laws\<close>. The random nonce that
  \<open>io.CopyN(dst, rand.Reader, nonceSize)\<close> reads is an argument.
\<close>

section \<open>Constants and padding\<close>

abbreviation versionSize :: nat where "versionSize \<equiv> 1"
abbreviation nonceSize :: nat where "nonceSize \<equiv> 12"
abbreviation tagSize :: nat where "tagSize \<equiv> 16"
abbreviation blockSize :: nat where "blockSize \<equiv> 16"

text \<open>\<open>%\<close> of Go truncates towards zero, which is \<open>smod\<close>.\<close>

definition pkcs7encode :: "bytes \<Rightarrow> nat \<Rightarrow> nat \<Rightarrow> bytes" where
  "pkcs7encode buf ignore bs =
     (let n = int (length buf) - int ignore;
          more = int bs - n smod int bs
      in buf @ replicate (nat more) (of_int more))"

definition pkcs7decode :: "bytes \<Rightarrow> bytes option" where
  "pkcs7decode buf =
     (if length buf = 0 then None
      else
        (let n = int (length buf) - int (unat (last buf))
         in if n < 0 then None else Some (take (nat n) buf)))"

definition encryptOverhead :: "u8 \<Rightarrow> int option" where
  "encryptOverhead vsn = (if vsn = 0 then Some 45 else if vsn = 1 then Some 29 else None)"

definition encryptedLength :: "u8 \<Rightarrow> int \<Rightarrow> int" where
  "encryptedLength vsn inp =
     (if vsn \<ge> 1 then int versionSize + int nonceSize + inp + int tagSize
      else
        (let padding = int blockSize - inp smod int blockSize
         in int versionSize + int nonceSize + inp + padding + int tagSize))"

section \<open>Sealing and opening\<close>

record aead =
  seal :: "bytes \<Rightarrow> bytes \<Rightarrow> bytes \<Rightarrow> bytes \<Rightarrow> bytes"
  unseal :: "bytes \<Rightarrow> bytes \<Rightarrow> bytes \<Rightarrow> bytes \<Rightarrow> bytes option"

definition encryptPayload ::
    "aead \<Rightarrow> bytes result \<Rightarrow> u8 \<Rightarrow> bytes \<Rightarrow> bytes \<Rightarrow> bytes \<Rightarrow> bytes \<Rightarrow> bytes result" where
  "encryptPayload ae rnd vsn key msg data dst =
     (if \<not> valid_key key then Inl ''crypto/aes: invalid key size''
      else
        (let offset = length dst; dst1 = dst @ [vsn] in
         case rnd of
           Inl e \<Rightarrow> Inl e
         | Inr random \<Rightarrow>
             (let dst2 = dst1 @ random;
                  afterNonce = length dst2;
                  dst3 = (if vsn = 0
                          then pkcs7encode (dst2 @ msg) (offset + versionSize + nonceSize) blockSize
                          else dst2);
                  slice = drop offset dst3;
                  nonce = take nonceSize (drop versionSize slice);
                  src = (if vsn = 0 then drop (versionSize + nonceSize) slice else msg);
                  out = seal ae key nonce src data
              in Inr (take afterNonce dst3 @ out))))"

definition decryptMessage :: "aead \<Rightarrow> bytes \<Rightarrow> bytes \<Rightarrow> bytes \<Rightarrow> bytes result option" where
  "decryptMessage ae key msg data =
     (if \<not> valid_key key then Some (Inl ''crypto/aes: invalid key size'')
      else if length msg < versionSize + nonceSize then None
      else
        (let nonce = take nonceSize (drop versionSize msg);
             ciphertext = drop (versionSize + nonceSize) msg
         in case unseal ae key nonce ciphertext data of
              None \<Rightarrow> Some (Inl ''cipher: message authentication failed'')
            | Some plain \<Rightarrow> Some (Inr plain)))"

fun decryptPayload_loop ::
    "aead \<Rightarrow> bytes list \<Rightarrow> u8 \<Rightarrow> bytes \<Rightarrow> bytes \<Rightarrow> bytes result option" where
  "decryptPayload_loop ae [] vsn msg data =
     Some (Inl ''No installed keys could decrypt the message'')"
| "decryptPayload_loop ae (key # ks) vsn msg data =
     (case decryptMessage ae key msg data of
        None \<Rightarrow> None
      | Some (Inr plain) \<Rightarrow>
          (if vsn = 0 then map_option Inr (pkcs7decode plain) else Some (Inr plain))
      | Some (Inl _) \<Rightarrow> decryptPayload_loop ae ks vsn msg data)"

definition decryptPayload :: "aead \<Rightarrow> bytes list \<Rightarrow> bytes \<Rightarrow> bytes \<Rightarrow> bytes result option" where
  "decryptPayload ae ks msg data =
     (if length msg = 0 then Some (Inl ''Cannot decrypt empty payload'')
      else
        (let vsn = msg ! 0 in
         if vsn > 1 then Some (Inl ''Unsupported encryption version'')
         else if int (length msg) < encryptedLength vsn 0
           then Some (Inl ''Payload is too small to decrypt'')
         else decryptPayload_loop ae ks vsn msg data))"

section \<open>Lemmas\<close>

text \<open>
  The documented behaviour of AES-GCM with a legal key and a 12-byte nonce: opening what was
  sealed under the same key, nonce and additional data gives the plaintext back, and sealing
  adds exactly a 16-byte tag.
\<close>

definition aead_laws :: "aead \<Rightarrow> bool" where
  "aead_laws ae \<longleftrightarrow>
     (\<forall>key nonce p data. valid_key key \<and> length nonce = nonceSize \<longrightarrow>
        unseal ae key nonce (seal ae key nonce p data) data = Some p \<and>
        length (seal ae key nonce p data) = length p + tagSize)"

lemma aead_lawsD:
  assumes "aead_laws ae" and "valid_key key" and "length nonce = nonceSize"
  shows "unseal ae key nonce (seal ae key nonce p data) data = Some p"
    and "length (seal ae key nonce p data) = length p + tagSize"
  using assms by (auto simp: aead_laws_def)

definition pad_len :: "nat \<Rightarrow> nat" where
  "pad_len n = 16 - n mod 16"

lemma pad_len_bounds: "1 \<le> pad_len n" "pad_len n \<le> 16"
  by (simp_all add: pad_len_def Suc_leI)

lemma int_pad_len: "int (pad_len n) = 16 - int n mod 16"
  by (simp add: pad_len_def of_nat_diff of_nat_mod)

lemma pkcs7encode_eq:
  assumes "length buf = ignore + n"
  shows "pkcs7encode buf ignore blockSize = buf @ replicate (pad_len n) (of_nat (pad_len n))"
proof -
  have more: "int blockSize - (int (length buf) - int ignore) smod int blockSize = int (pad_len n)"
    using assms by (simp add: int_pad_len)
  show ?thesis unfolding pkcs7encode_def Let_def more by simp
qed

lemma pkcs7decode_pad:
  assumes "1 \<le> m" and "m \<le> 16"
  shows "pkcs7decode (p @ replicate m (of_nat m)) = Some p"
proof -
  have "unat (of_nat m :: byte) = m" using assms by (simp add: unat_of_nat)
  then show ?thesis using assms by (simp add: pkcs7decode_def)
qed

definition padded :: "u8 \<Rightarrow> bytes \<Rightarrow> bytes" where
  "padded vsn msg =
     (if vsn = 0 then msg @ replicate (pad_len (length msg)) (of_nat (pad_len (length msg))) else msg)"

lemma encryptPayload_eq:
  assumes "valid_key key" and "length nonce = nonceSize"
  shows "encryptPayload ae (Inr nonce) vsn key msg data dst =
           Inr (dst @ vsn # nonce @ seal ae key nonce (padded vsn msg) data)"
  using assms by (simp add: encryptPayload_def Let_def pkcs7encode_eq [where n = "length msg"] padded_def)

lemma length_encrypted:
  assumes "aead_laws ae" and "valid_key key" and "length nonce = nonceSize"
  shows "int (length (vsn # nonce @ seal ae key nonce (padded vsn msg) data)) =
         encryptedLength vsn (int (length msg))"
proof (cases "vsn = 0")
  case True
  have "int (length (padded vsn msg)) = int (length msg) + (16 - int (length msg) mod 16)"
    using True by (simp add: padded_def int_pad_len)
  with True show ?thesis
    using assms by (simp add: aead_lawsD(2) encryptedLength_def Let_def)
next
  case False
  then have "vsn \<ge> 1" by (rule word_one_le)
  with False show ?thesis
    using assms by (simp add: aead_lawsD(2) encryptedLength_def padded_def)
qed

lemma encryptedLength_0: "vsn \<le> 1 \<Longrightarrow> encryptedLength vsn 0 \<le> encryptedLength vsn (int n)"
  using zmod_le_nonneg_dividend [of "int n" 16] by (auto simp: encryptedLength_def Let_def)

lemma decryptPayload_loop_skip:
  assumes "\<forall>k \<in> set ks. \<exists>e. decryptMessage ae k msg data = Some (Inl e)"
  shows "decryptPayload_loop ae (ks @ ks') vsn msg data = decryptPayload_loop ae ks' vsn msg data"
  using assms by (induction ks) (auto split: option.splits sum.splits)

lemma decryptMessage_sealed:
  assumes "aead_laws ae" and "valid_key key" and "length nonce = nonceSize"
  shows "decryptMessage ae key (vsn # nonce @ seal ae key nonce p data) data = Some (Inr p)"
  using assms by (simp add: decryptMessage_def aead_lawsD(1))

lemma decryptPayload_sealed:
  assumes ae: "aead_laws ae" and key: "valid_key key" and n: "length nonce = nonceSize"
    and vsn: "vsn \<le> 1" and ks: "ks = ks1 @ key # ks2"
    and rej: "\<forall>k \<in> set ks1. unseal ae k nonce (seal ae key nonce (padded vsn msg) data) data = None"
  shows "decryptPayload ae ks (vsn # nonce @ seal ae key nonce (padded vsn msg) data) data =
           Some (Inr msg)"
proof -
  let ?c = "vsn # nonce @ seal ae key nonce (padded vsn msg) data"
  have len: "\<not> int (length ?c) < encryptedLength vsn 0"
    using length_encrypted [OF ae key n, of vsn msg data] encryptedLength_0 [OF vsn, of "length msg"]
    by linarith
  have "\<forall>k \<in> set ks1. \<exists>e. decryptMessage ae k ?c data = Some (Inl e)"
    using rej n by (auto simp: decryptMessage_def)
  then have "decryptPayload_loop ae ks vsn ?c data = decryptPayload_loop ae (key # ks2) vsn ?c data"
    by (simp add: ks decryptPayload_loop_skip)
  also have "\<dots> = Some (Inr msg)"
    using pkcs7decode_pad [OF pad_len_bounds(1,2) [of "length msg"], of msg]
    by (simp add: decryptMessage_sealed [OF ae key n] padded_def)
  finally show ?thesis
    using vsn len unfolding decryptPayload_def by (simp add: Let_def not_less)
qed

text \<open>
  The interface between the ring and the cipher: a provider of keys names one primary key,
  which is among the keys it offers, and every key it offers has a legal size. That is all
  the cipher's users need to know of a ring.
\<close>

locale key_source =
  fixes ok :: "'r \<Rightarrow> bool"
    and primary :: "'r \<Rightarrow> bytes option"
    and all_keys :: "'r \<Rightarrow> bytes list"
  assumes primary_in: "ok r \<Longrightarrow> primary r = Some p \<Longrightarrow> p \<in> set (all_keys r)"
    and keys_valid: "ok r \<Longrightarrow> k \<in> set (all_keys r) \<Longrightarrow> valid_key k"
begin

text \<open>Whoever holds the sender's primary key can read what the sender seals.\<close>

lemma sealed_readable:
  assumes "aead_laws ae" and "ok r" and "ok r'" and "primary r = Some p" and "p \<in> set (all_keys r')"
    and "length nonce = nonceSize" and "vsn \<le> 1"
    and "\<forall>k \<in> set (takeWhile (\<lambda>k. k \<noteq> p) (all_keys r')).
           unseal ae k nonce (seal ae p nonce (padded vsn msg) data) data = None"
  shows "encryptPayload ae (Inr nonce) vsn p msg data dst =
           Inr (dst @ vsn # nonce @ seal ae p nonce (padded vsn msg) data) \<and>
         decryptPayload ae (all_keys r') (vsn # nonce @ seal ae p nonce (padded vsn msg) data) data =
           Some (Inr msg)"
proof -
  have "valid_key p" using assms keys_valid primary_in by blast
  moreover obtain ks2 where "all_keys r' = takeWhile (\<lambda>k. k \<noteq> p) (all_keys r') @ p # ks2"
    using takeWhile_neq_split [OF assms(5)] by blast
  ultimately show ?thesis
    using assms by (simp add: encryptPayload_eq decryptPayload_sealed)
qed

end

interpretation ring: key_source keyring_ok GetPrimaryKey GetKeys
  by unfold_locales
     (auto simp: GetPrimaryKey_def GetKeys_def keyring_ok_def split: list.splits)

section \<open>Properties\<close>

text \<open>
  C23. Encryption round trip across a key ring: what a node seals with its primary key (with
  or without padding) is accepted and restored by every node whose well-formed ring holds
  that key, at whatever position, as long as the keys tried before it reject the message;
  and the sealed message has exactly the length \<open>encryptedLength\<close> announces.
\<close>

theorem encrypt_decrypt_roundtrip:
  assumes "aead_laws ae" and "keyring_ok r" and "keyring_ok r'"
    and "GetPrimaryKey r = Some p" and "p \<in> set (GetKeys r')"
    and "length nonce = nonceSize" and "vsn \<le> 1"
    and "\<forall>k \<in> set (takeWhile (\<lambda>k. k \<noteq> p) (GetKeys r')).
           unseal ae k nonce (seal ae p nonce (padded vsn msg) data) data = None"
  shows "\<exists>c. encryptPayload ae (Inr nonce) vsn p msg data dst = Inr (dst @ c) \<and>
             int (length c) = encryptedLength vsn (int (length msg)) \<and>
             decryptPayload ae (GetKeys r') c data = Some (Inr msg)"
proof -
  have "valid_key p" using assms ring.primary_in ring.keys_valid by blast
  with assms show ?thesis
    using ring.sealed_readable [OF assms(1-8), of dst] length_encrypted [of ae p nonce vsn msg data]
    by blast
qed

text \<open>A concrete authenticated cipher, for the witness: the tag is the key's first 16 bytes.\<close>

definition tag_cipher :: aead where
  "tag_cipher = \<lparr>seal = (\<lambda>key nonce p data. p @ take 16 key),
                 unseal = (\<lambda>key nonce c data.
                    if length c \<ge> 16 \<and> drop (length c - 16) c = take 16 key
                    then Some (take (length c - 16) c) else None)\<rparr>"

lemma tag_cipher_laws: "aead_laws tag_cipher"
  by (auto simp: aead_laws_def tag_cipher_def valid_key_def)

theorem encrypt_decrypt_roundtrip_witness:
  "\<exists>c. encryptPayload tag_cipher (Inr (replicate 12 9)) 0 (replicate 16 1) [7, 7, 7] [] [] = Inr ([] @ c) \<and>
       int (length c) = encryptedLength 0 (int (length [7, 7, 7 :: byte])) \<and>
       decryptPayload tag_cipher (GetKeys \<lparr>keys = [replicate 24 2, replicate 16 1]\<rparr>) c [] =
         Some (Inr [7, 7, 7])"
proof (rule encrypt_decrypt_roundtrip [of tag_cipher "\<lparr>keys = [replicate 16 1]\<rparr>"
         "\<lparr>keys = [replicate 24 2, replicate 16 1]\<rparr>"])
  have neq: "replicate 24 (2 :: byte) \<noteq> replicate 16 1"
    by (auto dest: arg_cong [where f = length])
  then show "keyring_ok \<lparr>keys = [replicate 24 2, replicate 16 1]\<rparr>"
    by (simp add: keyring_ok_def valid_key_def)
  show "\<forall>k \<in> set (takeWhile (\<lambda>k. k \<noteq> replicate 16 1) (GetKeys \<lparr>keys = [replicate 24 2, replicate 16 1]\<rparr>)).
      unseal tag_cipher k (replicate 12 9)
        (seal tag_cipher (replicate 16 1) (replicate 12 9) (padded 0 [7, 7, 7]) []) [] = None"
    by (auto simp: GetKeys_def tag_cipher_def padded_def pad_len_def dest: arg_cong [where f = hd])
qed (simp_all add: tag_cipher_laws keyring_ok_def valid_key_def GetPrimaryKey_def GetKeys_def)

text \<open>
  Encryption never costs more bytes than the overhead the packet code reserves for it:
  for both supported versions the sealed message fits into the message length plus
  \<open>encryptOverhead\<close>, and that overhead is defined only for these versions.
\<close>

theorem encryptedLength_within_overhead:
  "encryptOverhead vsn =
     (if vsn \<le> 1 then Some (if vsn = 0 then 45 else 29) else None) \<and>
   (case encryptOverhead vsn of
      None \<Rightarrow> True
    | Some ov \<Rightarrow> int n < encryptedLength vsn (int n) \<and> encryptedLength vsn (int n) \<le> int n + ov)"
proof (cases "vsn \<le> 1")
  case True
  then have "vsn = 0 \<or> vsn = 1" by (metis leD word_one_le order_antisym)
  then show ?thesis by (auto simp: encryptOverhead_def encryptedLength_def Let_def)
next
  case False
  then show ?thesis by (auto simp: encryptOverhead_def)
qed

end
