(* ===== verification/Wire.thy ===== *)
theory Wire
  imports Prelude "HOL-Library.Sublist"
begin

text \<open>
  Byte-level framing of \<open>memberlist/util.go\<close> and \<open>memberlist/net.go\<close>: the message type
  bytes, big-endian integers (\<open>encoding/binary\<close>), and the compound message that packs
  several messages into one packet.
\<close>

section \<open>Message types\<close>

type_synonym messageType = u8

abbreviation (input) pingMsg :: messageType where "pingMsg \<equiv> 0"
abbreviation (input) indirectPingMsg :: messageType where "indirectPingMsg \<equiv> 1"
abbreviation (input) ackRespMsg :: messageType where "ackRespMsg \<equiv> 2"
abbreviation (input) suspectMsg :: messageType where "suspectMsg \<equiv> 3"
abbreviation (input) aliveMsg :: messageType where "aliveMsg \<equiv> 4"
abbreviation (input) deadMsg :: messageType where "deadMsg \<equiv> 5"
abbreviation (input) pushPullMsg :: messageType where "pushPullMsg \<equiv> 6"
abbreviation (input) compoundMsg :: messageType where "compoundMsg \<equiv> 7"
abbreviation (input) userMsg :: messageType where "userMsg \<equiv> 8"
abbreviation (input) compressMsg :: messageType where "compressMsg \<equiv> 9"
abbreviation (input) encryptMsg :: messageType where "encryptMsg \<equiv> 10"
abbreviation (input) nackRespMsg :: messageType where "nackRespMsg \<equiv> 11"
abbreviation (input) hasCrcMsg :: messageType where "hasCrcMsg \<equiv> 12"
abbreviation (input) errMsg :: messageType where "errMsg \<equiv> 13"
abbreviation (input) weightMsg :: messageType where "weightMsg \<equiv> 14"

section \<open>Big-endian integers\<close>

definition put_be16 :: "u16 \<Rightarrow> bytes" where
  "put_be16 w = [of_nat (unat w div 256), of_nat (unat w mod 256)]"

definition get_be16 :: "byte \<Rightarrow> byte \<Rightarrow> u16" where
  "get_be16 a b = of_nat (unat a * 256 + unat b)"

definition put_be32 :: "u32 \<Rightarrow> bytes" where
  "put_be32 w = [of_nat (unat w div 2 ^ 24), of_nat (unat w div 2 ^ 16 mod 256),
                 of_nat (unat w div 256 mod 256), of_nat (unat w mod 256)]"

definition get_be32 :: "bytes \<Rightarrow> u32" where
  "get_be32 bs = of_nat (foldl (\<lambda>n b. n * 256 + unat b) 0 bs)"

lemma length_put_be16 [simp]: "length (put_be16 w) = 2"
  by (simp add: put_be16_def)

lemma length_put_be32 [simp]: "length (put_be32 w) = 4"
  by (simp add: put_be32_def)

lemma unat_byte_of_nat [simp]: "n < 256 \<Longrightarrow> unat (of_nat n :: byte) = n"
  by (simp add: unat_of_nat)

lemma get_put_be16: "get_be16 (of_nat (unat w div 256)) (of_nat (unat w mod 256)) = w"
proof -
  have "unat w < 2 ^ 16" using unsigned_less [of w, where ?'a = nat] by simp
  then have "unat w div 256 < 256" by (simp add: less_mult_imp_div_less)
  then show ?thesis by (simp add: get_be16_def)
qed

lemma get_put_be32: "get_be32 (put_be32 w) = w"
proof -
  have "unat w < 2 ^ 32" using unsigned_less [of w, where ?'a = nat] by simp
  then have lt: "unat w div 2 ^ 24 < 256" by (simp add: less_mult_imp_div_less)
  have "((unat w div 2 ^ 24 * 256 + unat w div 2 ^ 16 mod 256) * 256 + unat w div 256 mod 256) * 256 +
        unat w mod 256 = unat w"
    using div_mult2_eq [of "unat w" "2 ^ 16" 256] div_mult2_eq [of "unat w" 256 256]
    by (simp add: div_mult_mod_eq)
  then show ?thesis using lt by (simp add: get_be32_def put_be32_def)
qed

section \<open>Compound messages\<close>

definition makeCompoundMessage :: "bytes list \<Rightarrow> bytes" where
  "makeCompoundMessage msgs =
     [compoundMsg] @ [of_nat (length msgs)] @
     concat (map (\<lambda>m. put_be16 (of_nat (length m))) msgs) @ concat msgs"

fun decode_lengths :: "nat \<Rightarrow> bytes \<Rightarrow> u16 list" where
  "decode_lengths 0 buf = []"
| "decode_lengths (Suc n) buf = get_be16 (buf ! 0) (buf ! 1) # decode_lengths n (drop 2 buf)"

fun split_parts :: "nat \<Rightarrow> nat \<Rightarrow> u16 list \<Rightarrow> bytes \<Rightarrow> bytes list \<Rightarrow> nat \<times> bytes list" where
  "split_parts numParts i [] buf parts = (0, parts)"
| "split_parts numParts i (msgLen # ls) buf parts =
     (if length buf < unat msgLen then (numParts - i, parts)
      else split_parts numParts (Suc i) ls (drop (unat msgLen) buf) (parts @ [take (unat msgLen) buf]))"

definition decodeCompoundMessage :: "bytes \<Rightarrow> (nat \<times> bytes list) result" where
  "decodeCompoundMessage buf =
     (if length buf < 1 then Inl ''missing compound length byte''
      else
        (let numParts = unat (buf ! 0); buf1 = drop 1 buf in
         if length buf1 < numParts * 2 then Inl ''truncated len slice''
         else
           (let lengths = decode_lengths numParts buf1; buf2 = drop (numParts * 2) buf1
            in Inr (split_parts numParts 0 lengths buf2 []))))"

lemma length_decode_lengths [simp]: "length (decode_lengths n buf) = n"
  by (induction n arbitrary: buf) auto

lemma length_concat_be16 [simp]: "length (concat (map (\<lambda>m. put_be16 (f m)) ms)) = 2 * length ms"
  by (induction ms) auto

lemma decode_lengths_encoded:
  "decode_lengths (length ms) (concat (map (\<lambda>m. put_be16 (f m)) ms) @ rest) = map f ms"
  by (induction ms) (simp_all add: put_be16_def get_put_be16)

lemma split_parts_exact:
  assumes "\<forall>m \<in> set ms. length m < 2 ^ 16"
  shows "split_parts n i (map (\<lambda>m. of_nat (length m)) ms) (concat ms @ rest) acc = (0, acc @ ms)"
  using assms
proof (induction ms arbitrary: i acc)
  case (Cons m ms)
  then have "unat (of_nat (length m) :: u16) = length m" by (simp add: unat_of_nat)
  with Cons show ?case by simp
qed simp

lemma split_parts_sound:
  assumes "split_parts n i ls buf acc = (tr, parts)" and "n = i + length ls"
  shows "\<exists>qs. parts = acc @ qs \<and> prefix (concat qs) buf \<and> tr + length qs = length ls \<and>
              map length qs = map unat (take (length qs) ls)"
  using assms
proof (induction ls arbitrary: i buf acc)
  case (Cons l ls)
  show ?case
  proof (cases "length buf < unat l")
    case False
    with Cons.prems have "split_parts n (Suc i) ls (drop (unat l) buf) (acc @ [take (unat l) buf]) = (tr, parts)"
      by simp
    from Cons.IH [OF this] Cons.prems(2) obtain qs where qs:
      "parts = acc @ take (unat l) buf # qs" "prefix (concat qs) (drop (unat l) buf)"
      "tr + length qs = length ls" "map length qs = map unat (take (length qs) ls)"
      by auto
    then have "prefix (take (unat l) buf @ concat qs) (take (unat l) buf @ drop (unat l) buf)"
      by (simp only: same_prefix_prefix)
    with qs False show ?thesis
      by (intro exI [of _ "take (unat l) buf # qs"]) simp
  qed (use Cons.prems in auto)
qed simp

lemma compound_decodes:
  assumes "length msgs \<le> 255" and "\<forall>m \<in> set msgs. length m < 2 ^ 16"
  shows "hd (makeCompoundMessage msgs) = compoundMsg \<and>
         decodeCompoundMessage (tl (makeCompoundMessage msgs)) = Inr (0, msgs)"
proof -
  have n: "unat (of_nat (length msgs) :: byte) = length msgs" using assms(1) by simp
  have "split_parts (length msgs) 0 (map (\<lambda>m. of_nat (length m)) msgs) (concat msgs) [] = (0, msgs)"
    using split_parts_exact [OF assms(2), of _ _ "[]" "[]"] by simp
  then show ?thesis
    using n by (simp add: makeCompoundMessage_def decodeCompoundMessage_def Let_def decode_lengths_encoded)
qed

lemma length_makeCompoundMessage:
  "int (length (makeCompoundMessage msgs)) = 2 + sum_list (map (\<lambda>m. int (length m) + 2) msgs)"
  by (induction msgs) (simp_all add: makeCompoundMessage_def)

section \<open>Properties\<close>

text \<open>
  C24. Compound framing round trip: up to 255 messages of up to 65535 bytes each are recovered,
  in order and without truncation, from the packet that \<open>makeCompoundMessage\<close> builds (the
  receiver strips the type byte before decoding).
\<close>

theorem compound_roundtrip:
  assumes "length msgs \<le> 255" and "\<forall>m \<in> set msgs. length m < 2 ^ 16"
  shows "hd (makeCompoundMessage msgs) = compoundMsg \<and>
         decodeCompoundMessage (tl (makeCompoundMessage msgs)) = Inr (0, msgs)"
  using assms by (rule compound_decodes)

theorem compound_roundtrip_witness:
  "decodeCompoundMessage (tl (makeCompoundMessage [[1, 2], [], [3]])) = Inr (0, [[1, 2], [], [3]])"
  using compound_roundtrip [of "[[1, 2], [], [3]]"] by simp

text \<open>
  The count of a compound message is one byte, and the code does not limit the number of
  messages it packs: a packet built from 256 messages decodes, without any error or truncation
  report, to no message at all.
\<close>

theorem compound_count_wraps:
  "length msgs = 256 \<Longrightarrow> decodeCompoundMessage (tl (makeCompoundMessage msgs)) = Inr (0, [])"
  by (simp add: makeCompoundMessage_def decodeCompoundMessage_def Let_def)

theorem compound_count_wraps_witness:
  "decodeCompoundMessage (tl (makeCompoundMessage (replicate 256 [1]))) = Inr (0, [])"
  by (rule compound_count_wraps) simp

text \<open>
  Decoding any byte string is safe: either an error is reported, or the parts returned are
  consecutive slices of the payload, in order, as long as their length entries say, and the
  truncation count accounts exactly for the parts that are missing.
\<close>

theorem decodeCompoundMessage_sound:
  "case decodeCompoundMessage buf of
     Inl e \<Rightarrow> buf = [] \<or> length buf < 1 + 2 * unat (hd buf)
   | Inr (tr, parts) \<Rightarrow>
       buf \<noteq> [] \<and> tr + length parts = unat (hd buf) \<and>
       prefix (concat parts) (drop (1 + 2 * unat (hd buf)) buf) \<and>
       map length parts = map unat (take (length parts) (decode_lengths (unat (hd buf)) (tl buf)))"
proof (cases buf)
  case (Cons c rest)
  show ?thesis
  proof (cases "length rest < unat c * 2")
    case False
    let ?ls = "decode_lengths (unat c) rest" and ?pl = "drop (unat c * 2) rest"
    obtain tr parts where sp: "split_parts (unat c) 0 ?ls ?pl [] = (tr, parts)"
      by fastforce
    from split_parts_sound [OF this] show ?thesis
      using False sp Cons by (auto simp: decodeCompoundMessage_def Let_def mult.commute)
  qed (use Cons in \<open>simp add: decodeCompoundMessage_def Let_def\<close>)
qed (simp add: decodeCompoundMessage_def)

end
