(* ===== verification/Addresses.thy ===== *)
theory Addresses
  imports Prelude
begin

text \<open>
  Addresses: the host and port handling of \<open>memberlist/util.go\<close>, \<open>ResolveAddr\<close> of
  \<open>memberlist.go\<close> and the allow list of \<open>config.go\<close>. What these use of Go's standard
  library (\<open>strings.Index\<close>, \<open>strings.Trim\<close>, \<open>net.JoinHostPort\<close>, \<open>net.SplitHostPort\<close>,
  \<open>strconv.Itoa\<close> and \<open>strconv.ParseUint\<close>) is defined here on byte strings; white space is
  the ASCII white space. \<open>net.ParseIP\<close> and the resolver are parameters.
\<close>

section \<open>String functions of the standard library\<close>

fun Index :: "char \<Rightarrow> string \<Rightarrow> int" where
  "Index c [] = -1"
| "Index c (x # xs) = (if x = c then 0 else if Index c xs < 0 then -1 else Index c xs + 1)"

fun LastIndex :: "char \<Rightarrow> string \<Rightarrow> int" where
  "LastIndex c [] = -1"
| "LastIndex c (x # xs) = (if LastIndex c xs \<ge> 0 then LastIndex c xs + 1 else if x = c then 0 else -1)"

definition trim_cutset :: "char set \<Rightarrow> string \<Rightarrow> string" where
  "trim_cutset cs s = rev (dropWhile (\<lambda>c. c \<in> cs) (rev (dropWhile (\<lambda>c. c \<in> cs) s)))"

definition TrimSpace :: "string \<Rightarrow> string" where
  "TrimSpace s = trim_cutset {CHR 0x09, CHR 0x0A, CHR 0x0B, CHR 0x0C, CHR 0x0D, CHR '' ''} s"

definition IsEmpty :: "string \<Rightarrow> bool" where
  "IsEmpty s \<longleftrightarrow> TrimSpace s = '''' \<or> TrimSpace s = ''<nil>''"

definition digit :: "nat \<Rightarrow> char" where
  "digit d = char_of (48 + d)"

fun itoa_nat :: "nat \<Rightarrow> string" where
  "itoa_nat n = (if n < 10 then [digit n] else itoa_nat (n div 10) @ [digit (n mod 10)])"

definition Itoa :: "int \<Rightarrow> string" where
  "Itoa i = (if i < 0 then CHR ''-'' # itoa_nat (nat (- i)) else itoa_nat (nat i))"

definition is_digit :: "char \<Rightarrow> bool" where
  "is_digit c \<longleftrightarrow> 48 \<le> (of_char c :: nat) \<and> (of_char c :: nat) \<le> 57"

definition digits_value :: "string \<Rightarrow> nat" where
  "digits_value s = foldl (\<lambda>a c. 10 * a + (of_char c - 48)) 0 s"

definition ParseUint16 :: "string \<Rightarrow> u16 result" where
  "ParseUint16 s =
     (if s = [] \<or> \<not> list_all is_digit s then Inl ''invalid syntax''
      else if digits_value s > 65535 then Inl ''value out of range''
      else Inr (of_nat (digits_value s)))"

definition JoinHostPort :: "string \<Rightarrow> string \<Rightarrow> string" where
  "JoinHostPort host port =
     (if Index CHR '':'' host \<ge> 0 then CHR ''['' # host @ '']:'' @ port else host @ '':'' @ port)"

definition SplitHostPort :: "string \<Rightarrow> (string \<times> string) result" where
  "SplitHostPort hostport =
     (let i = LastIndex CHR '':'' hostport in
      if i < 0 then Inl ''missing port in address''
      else if hd hostport = CHR ''['' then
        (let e = Index CHR '']'' hostport in
         if e < 0 then Inl ''missing ']' in address''
         else if e + 1 = int (length hostport) then Inl ''missing port in address''
         else if e + 1 \<noteq> i then
           (if hostport ! nat (e + 1) = CHR '':'' then Inl ''too many colons in address''
            else Inl ''missing port in address'')
         else if Index CHR ''['' (drop 1 hostport) \<ge> 0 then Inl ''unexpected '[' in address''
         else if Index CHR '']'' (drop (nat (e + 1)) hostport) \<ge> 0 then Inl ''unexpected ']' in address''
         else Inr (take (nat (e - 1)) (drop 1 hostport), drop (nat (i + 1)) hostport))
      else
        (let host = take (nat i) hostport in
         if Index CHR '':'' host \<ge> 0 then Inl ''too many colons in address''
         else if Index CHR ''['' hostport \<ge> 0 then Inl ''unexpected '[' in address''
         else if Index CHR '']'' hostport \<ge> 0 then Inl ''unexpected ']' in address''
         else Inr (host, drop (nat (i + 1)) hostport)))"

section \<open>The program's address functions\<close>

definition joinHostPort :: "string \<Rightarrow> u16 \<Rightarrow> string" where
  "joinHostPort host port = JoinHostPort host (Itoa (uint port))"

definition hasPort :: "string \<Rightarrow> bool" where
  "hasPort s =
     (if LastIndex CHR ''['' s = 0 then LastIndex CHR '':'' s > LastIndex CHR '']'' s
      else count_list s CHR '':'' = 1)"

definition ensurePort :: "string \<Rightarrow> int \<Rightarrow> string" where
  "ensurePort s port =
     (if hasPort s then s else JoinHostPort (trim_cutset {CHR ''['', CHR '']''} s) (Itoa port))"

record IpPort =
  ip :: string
  port :: u16
  nodeName :: string

definition ResolveAddr :: "int \<Rightarrow> string \<Rightarrow> IpPort list result" where
  "ResolveAddr BindPort hostStr0 =
     (let slashIdx = Index CHR ''/'' hostStr0 in
      if slashIdx = 0 then Inl ''empty node name provided''
      else
        (let (name, hostStr1) =
               (if slashIdx \<ge> 0 then (take (nat slashIdx) hostStr0, drop (nat (slashIdx + 1)) hostStr0)
                else ([], hostStr0));
             hostStr = ensurePort hostStr1 BindPort
         in case SplitHostPort hostStr of
              Inl err \<Rightarrow> Inl err
            | Inr (host, sport) \<Rightarrow>
                if IsEmpty host then Inl ''host should not be empty''
                else
                  (case ParseUint16 sport of
                     Inl err \<Rightarrow> Inl err
                   | Inr lport \<Rightarrow> Inr [\<lparr>ip = host, port = lport, nodeName = name\<rparr>])))"

text \<open>
  The allow list: networks are a list of membership tests (\<open>net.IPNet.Contains\<close>) over an
  abstract address type. The resolver answers with an error or a list of addresses.
\<close>

record 'ip resolver =
  ParseIP :: "string \<Rightarrow> 'ip option"
  LookupIP :: "string \<Rightarrow> 'ip list result"

definition IPMustBeChecked :: "('ip \<Rightarrow> bool) list \<Rightarrow> bool" where
  "IPMustBeChecked CIDRsAllowed \<longleftrightarrow> length CIDRsAllowed > 0"

definition IPAllowed :: "('ip \<Rightarrow> bool) list \<Rightarrow> 'ip \<Rightarrow> bool" where
  "IPAllowed CIDRsAllowed a =
     (if \<not> IPMustBeChecked CIDRsAllowed then True else list_ex (\<lambda>n. n a) CIDRsAllowed)"

definition AddrAllowed :: "'ip resolver \<Rightarrow> ('ip \<Rightarrow> bool) list \<Rightarrow> string \<Rightarrow> bool" where
  "AddrAllowed r CIDRsAllowed addr =
     (if \<not> IPMustBeChecked CIDRsAllowed then True
      else
        (case ParseIP r addr of
           Some a \<Rightarrow> IPAllowed CIDRsAllowed a
         | None \<Rightarrow>
             (case LookupIP r addr of
                Inl err \<Rightarrow> False
              | Inr [] \<Rightarrow> False
              | Inr (a # ips) \<Rightarrow> IPAllowed CIDRsAllowed a)))"

definition ensureCanConnect :: "'ip resolver \<Rightarrow> ('ip \<Rightarrow> bool) list \<Rightarrow> string \<Rightarrow> bool" where
  "ensureCanConnect r CIDRsAllowed source =
     (if \<not> IPMustBeChecked CIDRsAllowed then True
      else if source = ''pipe'' then True
      else (case SplitHostPort source of Inl err \<Rightarrow> False | Inr (host, p) \<Rightarrow> AddrAllowed r CIDRsAllowed host))"

section \<open>Positions of a character\<close>

lemma Index_neg_iff: "Index c s < 0 \<longleftrightarrow> c \<notin> set s"
  by (induction s) auto

lemma Index_nonneg_iff: "0 \<le> Index c s \<longleftrightarrow> c \<in> set s"
  using Index_neg_iff [of c s] by linarith

lemma Index_append_hit: "c \<notin> set a \<Longrightarrow> Index c (a @ c # b) = int (length a)"
  by (induction a) auto

lemma LastIndex_neg_iff: "LastIndex c s < 0 \<longleftrightarrow> c \<notin> set s"
  by (induction s) auto

lemma LastIndex_append_hit: "c \<notin> set b \<Longrightarrow> LastIndex c (a @ c # b) = int (length a)"
proof (induction a)
  case Nil
  then have "LastIndex c b < 0" by (simp add: LastIndex_neg_iff)
  then show ?case by simp
qed simp

lemma LastIndex_absent: "c \<notin> set s \<Longrightarrow> LastIndex c s = -1"
  by (induction s) auto

lemma count_list_1_absent: "c \<notin> set a \<Longrightarrow> c \<notin> set b \<Longrightarrow> count_list (a @ c # b) c = 1"
  by (simp add: count_notin)

section \<open>Numerals\<close>

lemma of_char_digit: "d < 10 \<Longrightarrow> (of_char (digit d) :: nat) = 48 + d"
  by (simp add: digit_def)

lemma digits_value_append: "digits_value (s @ [c]) = 10 * digits_value s + (of_char c - 48)"
  by (simp add: digits_value_def)

declare itoa_nat.simps [simp del]

lemma itoa_nat_digits: "itoa_nat n \<noteq> [] \<and> list_all is_digit (itoa_nat n) \<and> digits_value (itoa_nat n) = n"
proof (induction n rule: itoa_nat.induct)
  case (1 n)
  show ?case
  proof (cases "n < 10")
    case True
    then show ?thesis
      by (simp add: itoa_nat.simps [of n] is_digit_def of_char_digit digits_value_def)
  next
    case False
    with 1 show ?thesis
      by (simp add: itoa_nat.simps [of n] is_digit_def of_char_digit digits_value_append)
  qed
qed

lemma is_digit_not: "is_digit c \<Longrightarrow> c \<noteq> CHR '':'' \<and> c \<noteq> CHR ''['' \<and> c \<noteq> CHR '']'' \<and> c \<noteq> CHR ''/''"
  by (auto simp: is_digit_def)

lemma Itoa_no_special:
  "0 \<le> i \<Longrightarrow> CHR '':'' \<notin> set (Itoa i) \<and> CHR ''['' \<notin> set (Itoa i) \<and> CHR '']'' \<notin> set (Itoa i) \<and> CHR ''/'' \<notin> set (Itoa i)"
proof -
  assume "0 \<le> i"
  then have "\<forall>c \<in> set (Itoa i). is_digit c"
    using itoa_nat_digits [of "nat i"] by (simp add: Itoa_def list_all_iff)
  then show ?thesis using is_digit_not by blast
qed

lemma ParseUint16_Itoa: "0 \<le> i \<Longrightarrow> i < 65536 \<Longrightarrow> ParseUint16 (Itoa i) = Inr (of_int i)"
  using itoa_nat_digits [of "nat i"] by (simp add: Itoa_def ParseUint16_def)

section \<open>Joining and splitting\<close>

definition plain_host :: "string \<Rightarrow> bool" where
  "plain_host h \<longleftrightarrow> CHR ''['' \<notin> set h \<and> CHR '']'' \<notin> set h \<and> CHR ''/'' \<notin> set h"

lemma Split_Join:
  assumes "plain_host h" and "CHR '':'' \<notin> set p" "CHR ''['' \<notin> set p" "CHR '']'' \<notin> set p"
  shows "SplitHostPort (JoinHostPort h p) = Inr (h, p)"
proof (cases "CHR '':'' \<in> set h")
  case True
  let ?s = "CHR ''['' # h @ CHR '']'' # CHR '':'' # p"
  have j: "JoinHostPort h p = ?s"
    using True by (simp add: JoinHostPort_def Index_nonneg_iff)
  have i: "LastIndex CHR '':'' ?s = int (length h) + 2"
    using LastIndex_append_hit [of "CHR '':''" p "CHR ''['' # h @ [CHR '']'']"] assms(2) by simp
  have e: "Index CHR '']'' ?s = int (length h) + 1"
    using Index_append_hit [of "CHR '']''" "CHR ''['' # h" "CHR '':'' # p"] assms(1) by (simp add: plain_host_def)
  have n: "nat (int (length h) + 2) = Suc (Suc (length h))" "nat (2 + int (length h)) = Suc (Suc (length h))"
    "nat (int (length h) + 3) = Suc (Suc (Suc (length h)))" "nat (3 + int (length h)) = Suc (Suc (Suc (length h)))"
    by simp_all
  have p: "CHR '']'' \<notin> set p" "Index CHR '']'' p < 0" using assms(4) by (simp_all add: Index_neg_iff)
  have b: "\<not> 0 \<le> Index CHR ''['' (h @ CHR '']'' # CHR '':'' # p)" "\<not> 0 \<le> Index CHR '']'' (CHR '':'' # p)"
    unfolding Index_nonneg_iff using assms by (simp_all add: plain_host_def)
  show ?thesis unfolding j SplitHostPort_def Let_def i e using b p by (simp add: n)
next
  case False
  let ?s = "h @ CHR '':'' # p"
  have j: "JoinHostPort h p = ?s" using False by (simp add: JoinHostPort_def Index_nonneg_iff)
  have i: "LastIndex CHR '':'' ?s = int (length h)"
    using LastIndex_append_hit [of "CHR '':''" p h] assms(2) by simp
  have hd: "hd ?s \<noteq> CHR ''[''" using assms(1) by (cases h) (auto simp: plain_host_def)
  have b: "\<not> 0 \<le> Index CHR ''['' ?s" "\<not> 0 \<le> Index CHR '']'' ?s" "\<not> 0 \<le> Index CHR '':'' h"
    unfolding Index_nonneg_iff using assms False by (simp_all add: plain_host_def)
  show ?thesis unfolding j SplitHostPort_def Let_def i using hd b by (simp add: nat_add_distrib)
qed

lemma hasPort_Join:
  assumes "plain_host h" and "CHR '':'' \<notin> set p" "CHR ''['' \<notin> set p" "CHR '']'' \<notin> set p"
  shows "hasPort (JoinHostPort h p)"
proof (cases "CHR '':'' \<in> set h")
  case True
  let ?s = "CHR ''['' # h @ CHR '']'' # CHR '':'' # p"
  have j: "JoinHostPort h p = ?s" using True by (simp add: JoinHostPort_def Index_nonneg_iff)
  have "LastIndex CHR ''['' ?s = 0"
    using LastIndex_append_hit [of "CHR ''[''" "h @ CHR '']'' # CHR '':'' # p" "[]"] assms by (simp add: plain_host_def)
  moreover have "LastIndex CHR '':'' ?s = int (length h) + 2"
    using LastIndex_append_hit [of "CHR '':''" p "CHR ''['' # h @ [CHR '']'']"] assms(2) by simp
  moreover have "LastIndex CHR '']'' ?s = int (length h) + 1"
    using LastIndex_append_hit [of "CHR '']''" "CHR '':'' # p" "CHR ''['' # h"] assms(4) by simp
  ultimately show ?thesis unfolding j hasPort_def by simp
next
  case False
  let ?s = "h @ CHR '':'' # p"
  have j: "JoinHostPort h p = ?s" using False by (simp add: JoinHostPort_def Index_nonneg_iff)
  have "LastIndex CHR ''['' ?s = -1" using assms by (intro LastIndex_absent) (simp add: plain_host_def)
  moreover have "count_list ?s CHR '':'' = 1" by (rule count_list_1_absent [OF False assms(2)])
  ultimately show ?thesis unfolding j hasPort_def by simp
qed

lemma trim_cutset_absent:
  assumes "\<forall>c \<in> cs. c \<notin> set s"
  shows "trim_cutset cs s = s"
proof -
  have "dropWhile (\<lambda>c. c \<in> cs) t = t" if "set t = set s" for t
    using assms that by (cases t) auto
  from this [of s] this [of "rev s"] show ?thesis by (simp add: trim_cutset_def)
qed

lemma ensurePort_Join:
  assumes "plain_host h" and "0 \<le> i"
  shows "ensurePort (JoinHostPort h (Itoa i)) b = JoinHostPort h (Itoa i)"
  using hasPort_Join [OF assms(1)] Itoa_no_special [OF assms(2)] by (simp add: ensurePort_def)

lemma ensurePort_default:
  assumes "plain_host h" and "count_list h CHR '':'' \<noteq> 1"
  shows "ensurePort h b = JoinHostPort h (Itoa b)"
proof -
  have "LastIndex CHR ''['' h = -1" using assms by (intro LastIndex_absent) (simp add: plain_host_def)
  then have "\<not> hasPort h" using assms(2) by (simp add: hasPort_def)
  moreover have "trim_cutset {CHR ''['', CHR '']''} h = h"
    using assms(1) by (intro trim_cutset_absent) (simp add: plain_host_def)
  ultimately show ?thesis by (simp add: ensurePort_def)
qed

lemma no_slash_Join: "plain_host h \<Longrightarrow> 0 \<le> i \<Longrightarrow> Index CHR ''/'' (JoinHostPort h (Itoa i)) < 0"
  using Itoa_no_special [of i] by (auto simp: Index_neg_iff JoinHostPort_def plain_host_def)

text \<open>The part of \<open>ResolveAddr\<close> after the node name.\<close>

lemma ResolveAddr_named:
  assumes "nm \<noteq> []" and "CHR ''/'' \<notin> set nm"
  shows "ResolveAddr b (nm @ CHR ''/'' # s) =
     (case SplitHostPort (ensurePort s b) of
        Inl err \<Rightarrow> Inl err
      | Inr (host, sport) \<Rightarrow>
          if IsEmpty host then Inl ''host should not be empty''
          else (case ParseUint16 sport of Inl err \<Rightarrow> Inl err
                | Inr lport \<Rightarrow> Inr [\<lparr>ip = host, port = lport, nodeName = nm\<rparr>]))"
proof -
  have "Index CHR ''/'' (nm @ CHR ''/'' # s) = int (length nm)" using assms(2) by (rule Index_append_hit)
  then show ?thesis using assms(1) by (simp add: ResolveAddr_def nat_add_distrib)
qed

lemma ResolveAddr_unnamed:
  assumes "Index CHR ''/'' s < 0"
  shows "ResolveAddr b s =
     (case SplitHostPort (ensurePort s b) of
        Inl err \<Rightarrow> Inl err
      | Inr (host, sport) \<Rightarrow>
          if IsEmpty host then Inl ''host should not be empty''
          else (case ParseUint16 sport of Inl err \<Rightarrow> Inl err
                | Inr lport \<Rightarrow> Inr [\<lparr>ip = host, port = lport, nodeName = []\<rparr>]))"
  using assms by (simp add: ResolveAddr_def)

section \<open>Properties\<close>

text \<open>
  C27. Addresses survive the trip through text: for a host name, an IPv4 or an unbracketed IPv6
  address, the form \<open>joinHostPort\<close> prints resolves to the same host and port, with the node
  name in front of a slash, and without one; a host given without a port gets the default port.
\<close>

theorem ResolveAddr_roundtrip:
  assumes "plain_host h" and "\<not> IsEmpty h" and "nm \<noteq> []" and "CHR ''/'' \<notin> set nm"
    and "0 \<le> BindPort" and "BindPort < 65536"
  shows "ResolveAddr BindPort (nm @ CHR ''/'' # joinHostPort h p) = Inr [\<lparr>ip = h, port = p, nodeName = nm\<rparr>] \<and>
     ResolveAddr BindPort (joinHostPort h p) = Inr [\<lparr>ip = h, port = p, nodeName = []\<rparr>] \<and>
     (count_list h CHR '':'' \<noteq> 1 \<longrightarrow>
        ResolveAddr BindPort h = Inr [\<lparr>ip = h, port = of_int BindPort, nodeName = []\<rparr>])"
proof (intro conjI impI)
  have ns: "CHR '':'' \<notin> set (Itoa i)" "CHR ''['' \<notin> set (Itoa i)" "CHR '']'' \<notin> set (Itoa i)" if "0 \<le> i" for i
    using Itoa_no_special [OF that] by blast+
  have up: "0 \<le> uint p" "uint p < 65536" using uint_lt2p [of p] by simp_all
  have split: "SplitHostPort (JoinHostPort h (Itoa i)) = Inr (h, Itoa i)" if "0 \<le> i" for i
    using that by (intro Split_Join [OF assms(1)] ns)
  show "ResolveAddr BindPort (nm @ CHR ''/'' # joinHostPort h p) = Inr [\<lparr>ip = h, port = p, nodeName = nm\<rparr>]"
    by (simp add: ResolveAddr_named [OF assms(3,4)] joinHostPort_def ensurePort_Join [OF assms(1) up(1)]
        split [OF up(1)] assms(2) ParseUint16_Itoa [OF up])
  show "ResolveAddr BindPort (joinHostPort h p) = Inr [\<lparr>ip = h, port = p, nodeName = []\<rparr>]"
    using no_slash_Join [OF assms(1) up(1)]
    by (simp add: joinHostPort_def ResolveAddr_unnamed ensurePort_Join [OF assms(1) up(1)]
        split [OF up(1)] assms(2) ParseUint16_Itoa [OF up])
  assume c: "count_list h CHR '':'' \<noteq> 1"
  have "Index CHR ''/'' h < 0" using assms(1) by (simp add: Index_neg_iff plain_host_def)
  then show "ResolveAddr BindPort h = Inr [\<lparr>ip = h, port = of_int BindPort, nodeName = []\<rparr>]"
    by (simp add: ResolveAddr_unnamed ensurePort_default [OF assms(1) c] split [OF assms(5)] assms(2)
        ParseUint16_Itoa [OF assms(5,6)])
qed

theorem ResolveAddr_roundtrip_witness:
  "ResolveAddr 7946 (''n1'' @ CHR ''/'' # joinHostPort ''::1'' 80) = Inr [\<lparr>ip = ''::1'', port = 80, nodeName = ''n1''\<rparr>]"
proof -
  have "plain_host ''::1''" "\<not> IsEmpty ''::1''"
    by (simp_all add: plain_host_def IsEmpty_def TrimSpace_def trim_cutset_def)
  from ResolveAddr_roundtrip [OF this, of "''n1''" 7946 80] show ?thesis by simp
qed

text \<open>
  The allow list: an address is accepted exactly when no list is configured or some
  network of the list contains the address it stands for, the literal one or the first one the
  resolver gives; a name that does not resolve is refused. An empty, non-nil list accepts every
  address, like no list at all.
\<close>

theorem AddrAllowed_iff:
  "AddrAllowed r nets addr \<longleftrightarrow>
     nets = [] \<or>
     (\<exists>a. (ParseIP r addr = Some a \<or> ParseIP r addr = None \<and> (\<exists>rest. LookupIP r addr = Inr (a # rest))) \<and>
          list_ex (\<lambda>n. n a) nets)"
  by (auto simp: AddrAllowed_def IPAllowed_def IPMustBeChecked_def split: option.splits sum.splits list.splits)

end
