(* ===== verification/Messages.thy ===== *)
theory Messages
  imports Wire Addresses
begin

text \<open>
  Nodes and wire messages: the types of \<open>memberlist/state.go\<close>, \<open>net.go\<close> and
  \<open>transport.go\<close>, and \<open>encode\<close>, \<open>decode\<close> and the payload compression of \<open>util.go\<close>.
  The message bodies are packed by \<open>hashicorp/go-msgpack\<close> and compressed by LZW; both are
  parameters, the record \<open>codec\<close>, with the hypothesis \<open>codec_laws\<close>: unpacking what was
  packed gives the message back, and a packed message is a Go slice, so its length is an \<open>int\<close>.
  Field names carry the initial of their struct, since HOL's record fields are global.
\<close>

section \<open>Nodes\<close>

text \<open>A state number that arrives over the wire need not be one of the four constants.\<close>

datatype NodeStateType = StateAlive | StateSuspect | StateDead | StateLeft | StateOther int

record Node =
  n_Name :: string
  n_Addr :: string
  n_Port :: u16
  n_Meta :: bytes
  n_State :: NodeStateType
  n_PMin :: u8
  n_PMax :: u8
  n_PCur :: u8
  n_DMin :: u8
  n_DMax :: u8
  n_DCur :: u8
  n_Weight :: int

record Address =
  addr_Addr :: string
  addr_Name :: string

record nodeState =
  s_Node :: Node
  s_Incarnation :: u32
  s_State :: NodeStateType
  s_StateChange :: time
  s_Weight :: int
  s_WeightAt :: int

abbreviation s_Name :: "nodeState \<Rightarrow> string" where "s_Name s \<equiv> n_Name (s_Node s)"
abbreviation s_Addr :: "nodeState \<Rightarrow> string" where "s_Addr s \<equiv> n_Addr (s_Node s)"
abbreviation s_Port :: "nodeState \<Rightarrow> u16" where "s_Port s \<equiv> n_Port (s_Node s)"
abbreviation s_Meta :: "nodeState \<Rightarrow> bytes" where "s_Meta s \<equiv> n_Meta (s_Node s)"

definition Node_Address :: "Node \<Rightarrow> string" where
  "Node_Address n = joinHostPort (n_Addr n) (n_Port n)"

definition FullAddress :: "Node \<Rightarrow> Address" where
  "FullAddress n = \<lparr>addr_Addr = joinHostPort (n_Addr n) (n_Port n), addr_Name = n_Name n\<rparr>"

definition DeadOrLeft :: "nodeState \<Rightarrow> bool" where
  "DeadOrLeft s \<longleftrightarrow> s_State s = StateDead \<or> s_State s = StateLeft"

text \<open>The zero value of a \<open>Node\<close> and of the fields a literal leaves out.\<close>

definition mk_Node :: "string \<Rightarrow> string \<Rightarrow> u16 \<Rightarrow> bytes \<Rightarrow> Node" where
  "mk_Node nm ad p meta = \<lparr>n_Name = nm, n_Addr = ad, n_Port = p, n_Meta = meta, n_State = StateAlive,
     n_PMin = 0, n_PMax = 0, n_PCur = 0, n_DMin = 0, n_DMax = 0, n_DCur = 0, n_Weight = 0\<rparr>"

definition NewNodeState :: "Node \<Rightarrow> NodeStateType \<Rightarrow> nodeState" where
  "NewNodeState n st = \<lparr>s_Node = n, s_Incarnation = 0, s_State = st, s_StateChange = 0, s_Weight = 0, s_WeightAt = 0\<rparr>"

section \<open>Messages\<close>

record ping =
  pi_SeqNo :: u32
  pi_Node :: string
  pi_SourceAddr :: string
  pi_SourcePort :: u16
  pi_SourceNode :: string

record indirectPingReq =
  ip_SeqNo :: u32
  ip_Target :: string
  ip_Port :: u16
  ip_Node :: string
  ip_Nack :: bool
  ip_SourceAddr :: string
  ip_SourcePort :: u16
  ip_SourceNode :: string

record ackResp =
  ak_SeqNo :: u32
  ak_Payload :: bytes

record suspect =
  su_Incarnation :: u32
  su_Node :: string
  su_From :: string

record alive =
  a_Incarnation :: u32
  a_Node :: string
  a_Addr :: string
  a_Port :: u16
  a_Meta :: bytes
  a_Vsn :: "u8 list"

record dead =
  d_Incarnation :: u32
  d_Node :: string
  d_From :: string

record weight =
  w_Incarnation :: u32
  w_Node :: string
  w_From :: string
  w_Weight :: int
  w_WeightAt :: int

record pushPullHeader =
  hd_Nodes :: int
  hd_UserStateLen :: int
  hd_Join :: bool

record pushNodeState =
  p_Name :: string
  p_Addr :: string
  p_Port :: u16
  p_Meta :: bytes
  p_Incarnation :: u32
  p_State :: NodeStateType
  p_Vsn :: "u8 list"

record compress =
  co_Algo :: u8
  co_Buf :: bytes

text \<open>What can be packed: one constructor per Go type handed to the encoder.\<close>

datatype wire_msg =
    Ping ping
  | IndirectPing indirectPingReq
  | AckResp ackResp
  | NackResp u32
  | ErrResp string
  | Suspect suspect
  | Alive alive
  | Dead dead
  | Weight weight
  | PushPullHeader pushPullHeader
  | UserMsgHeader int
  | PushNodeState pushNodeState
  | Compress compress

section \<open>Encoding\<close>

text \<open>
  \<open>pack\<close> is the encoder; \<open>unpack n\<close> decodes a value of the Go type with constructor number
  \<open>n\<close> (see \<open>msg_kind\<close>) from the front of a buffer and returns it with the rest.
\<close>

record codec =
  pack :: "wire_msg \<Rightarrow> bytes result"
  unpack :: "nat \<Rightarrow> bytes \<Rightarrow> (wire_msg \<times> bytes) result"
  lzw_write :: "bytes \<Rightarrow> bytes result"
  lzw_read :: "bytes \<Rightarrow> bytes result"

fun msg_kind :: "wire_msg \<Rightarrow> nat" where
  "msg_kind (Ping _) = 0"
| "msg_kind (IndirectPing _) = 1"
| "msg_kind (AckResp _) = 2"
| "msg_kind (NackResp _) = 3"
| "msg_kind (ErrResp _) = 4"
| "msg_kind (Suspect _) = 5"
| "msg_kind (Alive _) = 6"
| "msg_kind (Dead _) = 7"
| "msg_kind (Weight _) = 8"
| "msg_kind (PushPullHeader _) = 9"
| "msg_kind (UserMsgHeader _) = 10"
| "msg_kind (PushNodeState _) = 11"
| "msg_kind (Compress _) = 12"

definition encode :: "codec \<Rightarrow> messageType \<Rightarrow> wire_msg \<Rightarrow> bytes result" where
  "encode c msgType msg = (case pack c msg of Inl err \<Rightarrow> Inl err | Inr b \<Rightarrow> Inr (msgType # b))"

definition decode :: "codec \<Rightarrow> nat \<Rightarrow> bytes \<Rightarrow> wire_msg result" where
  "decode c kind buf = (case unpack c kind buf of Inl err \<Rightarrow> Inl err | Inr (msg, rest) \<Rightarrow> Inr msg)"

abbreviation (input) lzwAlgo :: u8 where "lzwAlgo \<equiv> 0"

definition compressPayload :: "codec \<Rightarrow> bytes \<Rightarrow> bytes result" where
  "compressPayload c inp =
     (case lzw_write c inp of
        Inl err \<Rightarrow> Inl err
      | Inr b \<Rightarrow> encode c compressMsg (Compress \<lparr>co_Algo = lzwAlgo, co_Buf = b\<rparr>))"

definition decompressBuffer :: "codec \<Rightarrow> compress \<Rightarrow> bytes result" where
  "decompressBuffer c z =
     (if co_Algo z \<noteq> lzwAlgo then Inl ''Cannot decompress unknown algorithm'' else lzw_read c (co_Buf z))"

definition decompressPayload :: "codec \<Rightarrow> bytes \<Rightarrow> bytes result" where
  "decompressPayload c msg =
     (case decode c 12 msg of
        Inl err \<Rightarrow> Inl err
      | Inr (Compress z) \<Rightarrow> decompressBuffer c z
      | Inr _ \<Rightarrow> Inl ''decode'')"

definition codec_laws :: "codec \<Rightarrow> bool" where
  "codec_laws c \<longleftrightarrow>
     (\<forall>msg b rest. pack c msg = Inr b \<longrightarrow> unpack c (msg_kind msg) (b @ rest) = Inr (msg, rest)) \<and>
     (\<forall>k b msg rest. unpack c k b = Inr (msg, rest) \<longrightarrow> msg_kind msg = k) \<and>
     (\<forall>msg b. pack c msg = Inr b \<longrightarrow> int (length b) < 9223372036854775807) \<and>
     (\<forall>inp b. lzw_write c inp = Inr b \<longrightarrow> lzw_read c b = Inr inp)"

lemma codec_lawsD:
  assumes "codec_laws c"
  shows "pack c msg = Inr b \<Longrightarrow> unpack c (msg_kind msg) (b @ rest) = Inr (msg, rest)"
    and "unpack c k b = Inr (msg, rest) \<Longrightarrow> msg_kind msg = k"
    and "pack c msg = Inr b \<Longrightarrow> int (length b) < 9223372036854775807"
    and "lzw_write c inp = Inr b \<Longrightarrow> lzw_read c b = Inr inp"
  using assms unfolding codec_laws_def by blast+

lemma encode_Inr: "encode c t msg = Inr b \<longleftrightarrow> (\<exists>p. pack c msg = Inr p \<and> b = t # p)"
  by (auto simp: encode_def split: sum.splits)

lemma encode_length:
  "codec_laws c \<Longrightarrow> encode c t msg = Inr b \<Longrightarrow> int (length b) \<le> 9223372036854775807"
  using codec_lawsD(3) [of c msg] by (auto simp: encode_Inr)

lemma decode_encode:
  "codec_laws c \<Longrightarrow> encode c t msg = Inr b \<Longrightarrow> decode c (msg_kind msg) (tl b) = Inr msg"
  using codec_lawsD(1) [of c msg _ "[]"] by (auto simp: encode_Inr decode_def)

lemma decompress_compress:
  assumes "codec_laws c" and "compressPayload c inp = Inr b"
  shows "hd b = compressMsg \<and> decompressPayload c (tl b) = Inr inp"
proof -
  obtain z where z: "lzw_write c inp = Inr z"
    and e: "encode c compressMsg (Compress \<lparr>co_Algo = lzwAlgo, co_Buf = z\<rparr>) = Inr b"
    using assms(2) by (auto simp: compressPayload_def split: sum.splits)
  have "decode c 12 (tl b) = Inr (Compress \<lparr>co_Algo = lzwAlgo, co_Buf = z\<rparr>)"
    using decode_encode [OF assms(1) e] by simp
  with z e show ?thesis
    by (auto simp: decompressPayload_def decompressBuffer_def codec_lawsD(4) [OF assms(1) z] encode_Inr)
qed

text \<open>
  A codec that satisfies the laws, for evaluation: it knows the messages of a table and packs a
  message as its position in the table, one byte.
\<close>

fun position :: "'a \<Rightarrow> 'a list \<Rightarrow> nat" where
  "position x [] = 0"
| "position x (y # ys) = (if x = y then 0 else Suc (position x ys))"

definition table_codec :: "wire_msg list \<Rightarrow> codec" where
  "table_codec ms = \<lparr>
     pack = (\<lambda>m. if position m ms < min 256 (length ms) then Inr [of_nat (position m ms)] else Inl ''pack''),
     unpack = (\<lambda>k b. case b of [] \<Rightarrow> Inl ''EOF''
        | x # rest \<Rightarrow> if unat x < length ms \<and> msg_kind (ms ! unat x) = k then Inr (ms ! unat x, rest) else Inl ''unpack''),
     lzw_write = Inr, lzw_read = Inr\<rparr>"

lemma position_nth: "position x ys < length ys \<Longrightarrow> ys ! position x ys = x"
  by (induction ys) auto

lemma table_codec_laws: "codec_laws (table_codec ms)"
  unfolding codec_laws_def
proof (intro conjI allI impI)
  fix msg b rest
  assume "pack (table_codec ms) msg = Inr b"
  then have "position msg ms < length ms" "position msg ms < 256" "b = [of_nat (position msg ms)]"
    by (auto simp: table_codec_def split: if_splits)
  then show "unpack (table_codec ms) (msg_kind msg) (b @ rest) = Inr (msg, rest)"
    by (simp add: table_codec_def position_nth unat_of_nat)
qed (auto simp: table_codec_def split: if_splits list.splits)

end
