(* ===== verification/Awareness.thy ===== *)
theory Awareness
  imports Prelude
begin

text \<open>
  The local health score of \<open>memberlist/awareness.go\<close>: a counter that probes push up
  when they fail and down when they succeed, railed at \<open>0\<close> and \<open>max - 1\<close>, and the
  timeout scaling that reads it. Each method runs under the object's lock, so a method is
  one step on the record.
\<close>

section \<open>The awareness object\<close>

record awareness =
  amax :: int
  score :: int

definition newAwareness :: "int \<Rightarrow> awareness" where
  "newAwareness mx = \<lparr>amax = mx, score = 0\<rparr>"

definition ApplyDelta :: "awareness \<Rightarrow> int \<Rightarrow> awareness" where
  "ApplyDelta a delta =
     (let s = score a + delta in
      if s < 0 then a\<lparr>score := 0\<rparr>
      else if s > amax a - 1 then a\<lparr>score := amax a - 1\<rparr>
      else a\<lparr>score := s\<rparr>)"

definition GetHealthScore :: "awareness \<Rightarrow> int" where
  "GetHealthScore a = score a"

definition ScaleTimeout :: "awareness \<Rightarrow> duration \<Rightarrow> duration" where
  "ScaleTimeout a timeout = int64 (timeout * (score a + 1))"

section \<open>Invariant and behaviour\<close>

definition awareness_ok :: "awareness \<Rightarrow> bool" where
  "awareness_ok a \<longleftrightarrow> 0 \<le> score a \<and> score a < amax a"

lemma newAwareness_ok [inv_intros]: "1 \<le> mx \<Longrightarrow> awareness_ok (newAwareness mx)"
  by (simp add: awareness_ok_def newAwareness_def)

lemma amax_ApplyDelta [simp, frame_simps]: "amax (ApplyDelta a d) = amax a"
  by (simp add: ApplyDelta_def Let_def)

lemma score_ApplyDelta:
  "1 \<le> amax a \<Longrightarrow> score (ApplyDelta a d) = max 0 (min (score a + d) (amax a - 1))"
  by (simp add: ApplyDelta_def Let_def)

lemma ApplyDelta_ok [inv_intros]: "awareness_ok a \<Longrightarrow> awareness_ok (ApplyDelta a d)"
  by (auto simp: awareness_ok_def score_ApplyDelta)

text \<open>
  What a client of the score relies on: a bounded meter whose steps saturate. The lemmas
  about whole runs are proved for any such meter.
\<close>

locale saturating_meter =
  fixes step :: "'s \<Rightarrow> int \<Rightarrow> 's"
    and val :: "'s \<Rightarrow> int"
    and lim :: "'s \<Rightarrow> int"
  assumes lim_step: "lim (step s d) = lim s"
    and val_step: "0 < lim s \<Longrightarrow> val (step s d) = max 0 (min (val s + d) (lim s - 1))"
begin

lemma lim_run: "lim (foldl step s ds) = lim s"
  by (induction ds arbitrary: s) (auto simp: lim_step)

lemma val_run_bounds:
  assumes "0 \<le> val s" and "val s < lim s"
  shows "0 \<le> val (foldl step s ds) \<and> val (foldl step s ds) < lim s"
  using assms
proof (induction ds arbitrary: s)
  case (Cons d ds)
  then have "0 \<le> val (step s d) \<and> val (step s d) < lim (step s d)"
    by (simp add: lim_step val_step)
  with Cons.IH [of "step s d"] show ?case by (simp add: lim_step)
qed simp

text \<open>Enough successes in a row bring the meter back to full health.\<close>

lemma val_run_recovers:
  assumes "0 \<le> val s" and "val s < lim s" and "val s \<le> int n"
  shows "val (foldl step s (replicate n (-1))) = 0"
  using assms
proof (induction n arbitrary: s)
  case (Suc n)
  have "0 \<le> val (step s (-1))" "val (step s (-1)) < lim (step s (-1))"
       "val (step s (-1)) \<le> int n"
    using Suc.prems by (simp_all add: lim_step val_step)
  then show ?case using Suc.IH by simp
qed simp

end

interpretation health: saturating_meter ApplyDelta score amax
  by unfold_locales (auto simp: score_ApplyDelta)

section \<open>Properties\<close>

text \<open>
  C25. However many probe results are applied to a freshly created awareness object, the score
  stays in \<open>[0, max)\<close>. When \<open>max\<close> times the timeout is a 64-bit duration, the scaled timeout is the timeout
  times one more than the score, so it is never below the base value and never exceeds \<open>max\<close> times it.
\<close>

theorem awareness_scaled_timeout_bounds:
  assumes "1 \<le> mx" and "0 \<le> t" and "t * mx < 2 ^ 63" and "a = foldl ApplyDelta (newAwareness mx) ds"
  shows "0 \<le> GetHealthScore a \<and> GetHealthScore a < mx \<and> ScaleTimeout a t = t * (GetHealthScore a + 1) \<and>
         t \<le> ScaleTimeout a t \<and> ScaleTimeout a t \<le> t * mx"
proof -
  have b: "0 \<le> score a" "score a < mx"
    using health.val_run_bounds [of "newAwareness mx" ds] assms(1)
    unfolding assms(4) by (auto simp: newAwareness_def)
  then have "t * 1 \<le> t * (score a + 1)" "t * (score a + 1) \<le> t * mx"
    using assms(2) mult_left_mono [of 1 "score a + 1" t] mult_left_mono [of "score a + 1" mx t]
    by auto
  moreover from this have "int64 (t * (score a + 1)) = t * (score a + 1)"
    using assms(2,3) by (intro int64_id) linarith+
  ultimately show ?thesis using b by (simp add: GetHealthScore_def ScaleTimeout_def)
qed

theorem awareness_scaled_timeout_bounds_witness:
  "score (foldl ApplyDelta (newAwareness 8) [3, 9, -2]) = 5 \<and>
   1000 \<le> ScaleTimeout (foldl ApplyDelta (newAwareness 8) [3, 9, -2]) 1000 \<and>
   ScaleTimeout (foldl ApplyDelta (newAwareness 8) [3, 9, -2]) 1000 \<le> 1000 * 8"
  using awareness_scaled_timeout_bounds [of 8 1000 _ "[3, 9, -2]"]
  by (simp add: newAwareness_def ApplyDelta_def)

text \<open>Without that bound the product wraps and the scaled timeout can be negative.\<close>

lemma ScaleTimeout_wraps: "ScaleTimeout (ApplyDelta (newAwareness 8) 1) (2 ^ 62) = - (2 ^ 63)"
  by (simp add: ScaleTimeout_def ApplyDelta_def newAwareness_def int64_def)

text \<open>
  The score recovers: after as many successful probes (delta \<open>-1\<close>) as the maximum
  multiplier, any reachable score is back at zero and timeouts are no longer stretched.
\<close>

theorem awareness_recovers:
  assumes "1 \<le> mx" and "0 \<le> t" and "t < 2 ^ 63" and "a = foldl ApplyDelta (newAwareness mx) ds"
  shows "GetHealthScore (foldl ApplyDelta a (replicate (nat mx) (-1))) = 0 \<and>
         ScaleTimeout (foldl ApplyDelta a (replicate (nat mx) (-1))) t = t"
proof -
  have "amax a = mx" "0 \<le> score a" "score a < mx"
    using health.val_run_bounds [of "newAwareness mx" ds] assms(1)
    unfolding assms(4) by (auto simp: health.lim_run newAwareness_def)
  then have "score (foldl ApplyDelta a (replicate (nat mx) (-1))) = 0"
    using assms(1) by (intro health.val_run_recovers) auto
  then show ?thesis using assms(2,3) int64_id [of t] by (simp add: GetHealthScore_def ScaleTimeout_def)
qed

theorem awareness_recovers_witness:
  "ScaleTimeout (foldl ApplyDelta (foldl ApplyDelta (newAwareness 3) [5, 1])
     (replicate (nat 3) (-1))) 700 = 700"
  using awareness_recovers [of 3 700 _ "[5, 1]"] by simp

end
