(* ===== verification/Timing.thy ===== *)
theory Timing
  imports Prelude
begin

text \<open>
  Cluster-size dependent limits of \<open>memberlist/util.go\<close> and the random offset. The
  floating-point logarithms \<open>math.Log10\<close>, \<open>math.Log2\<close> and \<open>math.Log\<close> are parameters of
  the definitions (their last digits depend on the platform); what the code relies on is the
  locale \<open>float_log\<close>, which the exact logarithms satisfy. Sums and products are exact.
\<close>

section \<open>Definitions\<close>

definition randomOffset :: "nat \<Rightarrow> u32 \<Rightarrow> nat" where
  "randomOffset n rnd = (if n = 0 then 0 else unat (rnd mod of_nat n))"

definition suspicionTimeout :: "(real \<Rightarrow> real) \<Rightarrow> int \<Rightarrow> int \<Rightarrow> duration \<Rightarrow> duration" where
  "suspicionTimeout log10 suspicionMult n interval =
     (let nodeScale = max 1 (log10 (max 1 (real_of_int n)))
      in (suspicionMult * \<lfloor>nodeScale * 1000\<rfloor> * interval) sdiv 1000)"

definition retransmitLimit :: "(real \<Rightarrow> real) \<Rightarrow> int \<Rightarrow> int \<Rightarrow> int" where
  "retransmitLimit log10 retransmitMult n =
     (let nodeScale = \<lceil>log10 (real_of_int (n + 1))\<rceil> in retransmitMult * nodeScale)"

abbreviation pushPullScaleThreshold :: int where "pushPullScaleThreshold \<equiv> 32"

definition pushPullScale :: "(real \<Rightarrow> real) \<Rightarrow> duration \<Rightarrow> int \<Rightarrow> duration" where
  "pushPullScale log2 interval n =
     (if n \<le> pushPullScaleThreshold then interval
      else
        (let multiplier = \<lceil>log2 (real_of_int n) - log2 (real_of_int pushPullScaleThreshold)\<rceil> + 1
         in multiplier * interval))"

section \<open>What the code relies on of a logarithm\<close>

locale float_log =
  fixes lg :: "real \<Rightarrow> real"
  assumes lg_one: "lg 1 = 0"
    and lg_mono: "1 \<le> x \<Longrightarrow> x \<le> y \<Longrightarrow> lg x \<le> lg y"
    and lg_pos: "2 \<le> x \<Longrightarrow> 0 < lg x"
begin

lemma lg_nonneg: "1 \<le> x \<Longrightarrow> 0 \<le> lg x"
  using lg_mono [of 1 x] by (simp add: lg_one)

lemma suspicionTimeout_mono:
  assumes "0 \<le> sm" and "0 \<le> interval" and "n \<le> n'"
  shows "suspicionTimeout lg sm n interval \<le> suspicionTimeout lg sm n' interval"
proof -
  let ?s = "\<lambda>n. \<lfloor>max 1 (lg (max 1 (real_of_int n))) * 1000\<rfloor>"
  have "lg (max 1 (real_of_int n)) \<le> lg (max 1 (real_of_int n'))"
    using assms(3) by (intro lg_mono) auto
  then have le: "?s n \<le> ?s n'" by (intro floor_mono) auto
  have pos: "0 \<le> ?s n" for n by (simp add: zero_le_floor)
  have "sm * ?s n * interval \<le> sm * ?s n' * interval"
    using assms(1,2) le by (intro mult_right_mono mult_left_mono) auto
  then show ?thesis
    using assms(1,2) pos by (simp add: suspicionTimeout_def Let_def zdiv_mono1)
qed

lemma retransmitLimit_pos:
  assumes "1 \<le> sm" and "1 \<le> n"
  shows "sm \<le> retransmitLimit lg sm n"
proof -
  have "1 \<le> \<lceil>lg (real_of_int (n + 1))\<rceil>"
    using lg_pos [of "real_of_int (n + 1)"] assms(2) by simp
  then show ?thesis
    using assms(1) mult_left_mono [of 1 "\<lceil>lg (real_of_int (n + 1))\<rceil>" sm]
    by (simp add: retransmitLimit_def Let_def)
qed

lemma pushPullScale_ge:
  assumes "0 \<le> interval"
  shows "interval \<le> pushPullScale lg interval n"
proof (cases "n \<le> 32")
  case False
  then have "0 \<le> \<lceil>lg (real_of_int n) - lg 32\<rceil>"
    using lg_mono [of 32 "real_of_int n"] by simp
  then show ?thesis
    using False assms mult_right_mono [of 1 "\<lceil>lg (real_of_int n) - lg 32\<rceil> + 1" interval]
    by (simp add: pushPullScale_def Let_def)
qed (simp add: pushPullScale_def)

end

lemma float_log_log: "1 < b \<Longrightarrow> b \<le> 10 \<Longrightarrow> float_log (log b)"
  by unfold_locales auto

interpretation dec_log: float_log "log 10"
  by (rule float_log_log) auto

interpretation bin_log: float_log "log 2"
  by (rule float_log_log) auto

interpretation nat_log: float_log ln
  by unfold_locales auto

section \<open>Facts about the limits\<close>

lemma randomOffset_less: "0 < n \<Longrightarrow> randomOffset n rnd < n"
proof (cases "n < 2 ^ 32")
  assume "0 < n"
  case True
  then have "unat (of_nat n :: u32) = n" by (simp add: unat_of_nat take_bit_nat_eq_self)
  with \<open>0 < n\<close> show ?thesis by (simp add: randomOffset_def unat_mod)
next
  assume "0 < n"
  case False
  have "unat (rnd mod of_nat n) < 2 ^ LENGTH(32)" by (rule unsigned_less)
  with False show ?thesis by (simp add: randomOffset_def)
qed

lemma suspicionTimeout_ge:
  assumes "0 \<le> sm" and "0 \<le> interval"
  shows "sm * interval \<le> suspicionTimeout lg sm n interval"
proof -
  let ?s = "\<lfloor>max 1 (lg (max 1 (real_of_int n))) * 1000\<rfloor>"
  have s: "1000 \<le> ?s" by (simp add: le_floor_iff)
  have "sm * 1000 * interval \<le> sm * ?s * interval"
    using assms s by (intro mult_right_mono mult_left_mono) auto
  then have "sm * 1000 * interval div 1000 \<le> sm * ?s * interval div 1000"
    by (rule zdiv_mono1) simp
  moreover have "sm * 1000 * interval = sm * interval * 1000" by simp
  ultimately show ?thesis
    using assms s by (simp add: suspicionTimeout_def Let_def)
qed

section \<open>Properties\<close>

text \<open>
  The suspicion timeout never drops below \<open>sm * interval\<close> and grows with the cluster:
  for non-negative settings it is monotone in the number of nodes.
\<close>

theorem suspicionTimeout_bounds:
  assumes "float_log lg" and "0 \<le> sm" and "0 \<le> interval" and "n \<le> n'"
  shows "sm * interval \<le> suspicionTimeout lg sm n interval \<and>
         suspicionTimeout lg sm n interval \<le> suspicionTimeout lg sm n' interval"
  using suspicionTimeout_ge [OF assms(2,3)] float_log.suspicionTimeout_mono [OF assms] by blast

theorem suspicionTimeout_bounds_witness:
  "4 * 1000 \<le> suspicionTimeout (log 10) 4 5 1000 \<and>
   suspicionTimeout (log 10) 4 5 1000 \<le> suspicionTimeout (log 10) 4 200 1000"
  using suspicionTimeout_bounds [OF dec_log.float_log_axioms, of 4 1000 5 200] by simp

text \<open>
  The push/pull interval doubles from the 33rd node, triples from the 65th and so on: for
  a cluster size in \<open>(2^(5+k), 2^(6+k)]\<close> the interval is multiplied by \<open>k + 2\<close>, and it is
  unscaled up to 32 nodes.
\<close>

theorem pushPullScale_doubling:
  assumes "2 ^ (5 + k) < n" and "n \<le> 2 ^ (6 + k)"
  shows "pushPullScale (log 2) interval n = (int k + 2) * interval"
proof -
  have n0: "0 < real_of_int n"
    using assms(1) by (meson of_int_0_less_iff order.strict_trans zero_less_numeral zero_less_power)
  have "real_of_int (2 ^ (5 + k)) < real_of_int n" "real_of_int n \<le> real_of_int (2 ^ (6 + k))"
    using assms by (simp_all only: of_int_less_iff of_int_le_iff)
  then have "2 powr real (5 + k) < real_of_int n" "real_of_int n \<le> 2 powr real (6 + k)"
    by (simp_all only: powr_realpow zero_less_numeral of_int_power of_int_numeral)
  then have lo: "real (5 + k) < log 2 (real_of_int n)" and hi: "log 2 (real_of_int n) \<le> real (6 + k)"
    using n0 by (simp_all only: less_log_iff log_le_iff one_less_numeral_iff semiring_norm)
  have l32: "log 2 (32 :: real) = 5"
    using log_pow_cancel [of 2 5] by simp
  have "(32 :: int) \<le> 2 ^ (5 + k)" using power_increasing [of 5 "5 + k" "2 :: int"] by simp
  then have big: "\<not> n \<le> 32" using assms(1) by linarith
  have "\<lceil>log 2 (real_of_int n) - 5\<rceil> = int k + 1"
    using lo hi by (intro ceiling_unique) auto
  then show ?thesis using big l32 by (simp add: pushPullScale_def Let_def)
qed

theorem pushPullScale_doubling_witness:
  "pushPullScale (log 2) 30 33 = 60 \<and> pushPullScale (log 2) 30 65 = 90"
  using pushPullScale_doubling [of 0 33 30] pushPullScale_doubling [of 1 65 30] by simp

end
