(* ===== verification/Suspicion.thy ===== *)
theory Suspicion
  imports Timing
begin

text \<open>
  The suspicion timer of \<open>memberlist/suspicion.go\<close>: it starts at the maximum timeout and is
  driven towards the minimum as independent peers confirm the suspicion. The Go timer is
  modelled by its deadline: \<open>Some d\<close> while it is armed to fire at \<open>d\<close>, \<open>None\<close> once it
  has fired or was stopped. The clock reading is an argument; \<open>lg\<close> stands for \<open>math.Log\<close>.
\<close>

section \<open>State and operations\<close>

record suspicion =
  sus_n :: int
  sus_k :: int
  sus_min :: duration
  sus_max :: duration
  sus_start :: time
  sus_timer :: "time option"
  sus_confirmations :: "string set"

definition newSuspicion :: "time \<Rightarrow> string \<Rightarrow> int \<Rightarrow> duration \<Rightarrow> duration \<Rightarrow> suspicion" where
  "newSuspicion now from k mn mx =
     (let timeout = (if k < 1 then mn else mx)
      in \<lparr>sus_n = 0, sus_k = k, sus_min = mn, sus_max = mx, sus_start = now,
          sus_timer = Some (now + timeout), sus_confirmations = {from}\<rparr>)"

abbreviation seconds :: "duration \<Rightarrow> real" where
  "seconds d \<equiv> real_of_int d / 1000000000"

definition remainingSuspicionTime ::
    "(real \<Rightarrow> real) \<Rightarrow> int \<Rightarrow> int \<Rightarrow> duration \<Rightarrow> duration \<Rightarrow> duration \<Rightarrow> duration" where
  "remainingSuspicionTime lg n k elapsed mn mx =
     (let frac = lg (real_of_int n + 1) / lg (real_of_int k + 1);
          raw = seconds mx - frac * (seconds mx - seconds mn);
          timeout = \<lfloor>1000 * raw\<rfloor> * 1000000;
          timeout' = (if timeout < mn then mn else timeout)
      in timeout' - elapsed)"

text \<open>
  \<open>Confirm\<close> returns whether the confirmation was new, the timer afterwards, and whether it
  started the timeout function itself (\<open>go s.timeoutFn()\<close>).
\<close>

definition Confirm ::
    "(real \<Rightarrow> real) \<Rightarrow> time \<Rightarrow> suspicion \<Rightarrow> string \<Rightarrow> bool \<times> suspicion \<times> bool" where
  "Confirm lg now s from =
     (if sus_n s \<ge> sus_k s then (False, s, False)
      else if from \<in> sus_confirmations s then (False, s, False)
      else
        (let s1 = s\<lparr>sus_confirmations := insert from (sus_confirmations s), sus_n := sus_n s + 1\<rparr>;
             elapsed = now - sus_start s;
             remaining = remainingSuspicionTime lg (sus_n s1) (sus_k s) elapsed (sus_min s) (sus_max s)
         in case sus_timer s1 of
              None \<Rightarrow> (True, s1, False)
            | Some _ \<Rightarrow>
                if remaining > 0 then (True, s1\<lparr>sus_timer := Some (now + remaining)\<rparr>, False)
                else (True, s1\<lparr>sus_timer := None\<rparr>, True)))"

section \<open>The timeout after a number of confirmations\<close>

definition total_timeout :: "(real \<Rightarrow> real) \<Rightarrow> int \<Rightarrow> int \<Rightarrow> duration \<Rightarrow> duration \<Rightarrow> duration" where
  "total_timeout lg n k mn mx =
     max mn (\<lfloor>1000 * (seconds mx - lg (real_of_int n + 1) / lg (real_of_int k + 1) *
                        (seconds mx - seconds mn))\<rfloor> * 1000000)"

lemma remaining_total:
  "remainingSuspicionTime lg n k elapsed mn mx = total_timeout lg n k mn mx - elapsed"
  by (simp add: remainingSuspicionTime_def total_timeout_def Let_def max_def)

lemma floor_ms_le: "\<lfloor>1000 * seconds d\<rfloor> * 1000000 \<le> d"
proof -
  have "real_of_int \<lfloor>1000 * seconds d\<rfloor> \<le> 1000 * seconds d" by (rule of_int_floor_le)
  then have "real_of_int (\<lfloor>1000 * seconds d\<rfloor> * 1000000) \<le> real_of_int d" by simp
  then show ?thesis by (simp only: of_int_le_iff)
qed

lemma total_timeout_ge: "mn \<le> total_timeout lg n k mn mx"
  by (simp add: total_timeout_def)

context float_log
begin

lemma frac_bounds:
  assumes "0 \<le> n" and "n \<le> k" and "1 \<le> k"
  shows "0 \<le> lg (real_of_int n + 1) / lg (real_of_int k + 1)"
    and "lg (real_of_int n + 1) / lg (real_of_int k + 1) \<le> 1"
proof -
  have pos: "0 < lg (real_of_int k + 1)" using assms(3) by (intro lg_pos) simp
  then show "0 \<le> lg (real_of_int n + 1) / lg (real_of_int k + 1)"
    using assms(1) by (intro divide_nonneg_pos lg_nonneg) auto
  have "lg (real_of_int n + 1) \<le> lg (real_of_int k + 1)"
    using assms by (intro lg_mono) auto
  then show "lg (real_of_int n + 1) / lg (real_of_int k + 1) \<le> 1"
    using pos by simp
qed

lemma total_timeout_le:
  assumes "0 \<le> n" and "n \<le> k" and "1 \<le> k" and "mn \<le> mx"
  shows "total_timeout lg n k mn mx \<le> mx"
proof -
  let ?f = "lg (real_of_int n + 1) / lg (real_of_int k + 1)"
  have "0 \<le> ?f * (seconds mx - seconds mn)"
    using frac_bounds(1) [OF assms(1-3)] assms(4) by (intro mult_nonneg_nonneg) auto
  then have "\<lfloor>1000 * (seconds mx - ?f * (seconds mx - seconds mn))\<rfloor> \<le> \<lfloor>1000 * seconds mx\<rfloor>"
    by (intro floor_mono) simp
  then have "\<lfloor>1000 * (seconds mx - ?f * (seconds mx - seconds mn))\<rfloor> * 1000000 \<le> mx"
    using floor_ms_le [of mx] by linarith
  then show ?thesis using assms(4) by (simp add: total_timeout_def)
qed

lemma total_timeout_antimono:
  assumes "0 \<le> n" and "n \<le> m" and "1 \<le> k" and "mn \<le> mx"
  shows "total_timeout lg m k mn mx \<le> total_timeout lg n k mn mx"
proof -
  let ?f = "\<lambda>n. lg (real_of_int n + 1) / lg (real_of_int k + 1)"
  have "?f n \<le> ?f m"
    using assms lg_pos [of "real_of_int k + 1"] by (intro divide_right_mono lg_mono) auto
  then have "?f n * (seconds mx - seconds mn) \<le> ?f m * (seconds mx - seconds mn)"
    using assms(4) by (intro mult_right_mono) auto
  then have "\<lfloor>1000 * (seconds mx - ?f m * (seconds mx - seconds mn))\<rfloor> \<le>
             \<lfloor>1000 * (seconds mx - ?f n * (seconds mx - seconds mn))\<rfloor>"
    by (intro floor_mono) simp
  then show ?thesis by (simp add: total_timeout_def max.coboundedI2)
qed

lemma total_timeout_full:
  assumes "1 \<le> k"
  shows "total_timeout lg k k mn mx = mn"
proof -
  have "lg (real_of_int k + 1) \<noteq> 0" using lg_pos [of "real_of_int k + 1"] assms by simp
  then show ?thesis using floor_ms_le [of mn] by (simp add: total_timeout_def)
qed

end

section \<open>Invariant of a timer\<close>

text \<open>
  The confirmations counted are those of distinct peers other than the accuser, and an armed
  timer fires no earlier than the minimum and no later than the maximum after the start; once
  a confirmation was counted its deadline is exactly the one the count prescribes.
\<close>

definition suspicion_ok :: "(real \<Rightarrow> real) \<Rightarrow> suspicion \<Rightarrow> bool" where
  "suspicion_ok lg s \<longleftrightarrow>
     sus_min s \<le> sus_max s \<and> 0 \<le> sus_n s \<and> sus_n s \<le> max 0 (sus_k s) \<and>
     finite (sus_confirmations s) \<and> int (card (sus_confirmations s)) = sus_n s + 1 \<and>
     (case sus_timer s of
        None \<Rightarrow> True
      | Some d \<Rightarrow>
          d = sus_start s +
            (if sus_k s < 1 then sus_min s
             else if sus_n s = 0 then sus_max s
             else total_timeout lg (sus_n s) (sus_k s) (sus_min s) (sus_max s)))"

lemma newSuspicion_ok [inv_intros]: "mn \<le> mx \<Longrightarrow> suspicion_ok lg (newSuspicion now from k mn mx)"
  by (simp add: suspicion_ok_def newSuspicion_def Let_def)

lemma Confirm_ok [inv_intros]:
  assumes "suspicion_ok lg s" and "Confirm lg now s from = (b, s', f)"
  shows "suspicion_ok lg s'"
  using assms
  by (auto simp: suspicion_ok_def Confirm_def Let_def remaining_total split: if_splits option.splits)

lemma Confirm_new_iff:
  assumes "Confirm lg now s from = (b, s', f)"
  shows "b \<longleftrightarrow> sus_n s < sus_k s \<and> from \<notin> sus_confirmations s"
  using assms by (auto simp: Confirm_def Let_def split: if_splits option.splits)

lemma Confirm_fields:
  assumes "Confirm lg now s from = (b, s', f)"
  shows "sus_k s' = sus_k s" "sus_min s' = sus_min s" "sus_max s' = sus_max s" "sus_start s' = sus_start s"
    and "b \<Longrightarrow> sus_n s' = sus_n s + 1 \<and> sus_confirmations s' = insert from (sus_confirmations s)"
    and "\<not> b \<Longrightarrow> s' = s \<and> \<not> f"
  using assms by (auto simp: Confirm_def Let_def split: if_splits option.splits)

section \<open>Properties\<close>

text \<open>
  A confirmation never delays the verdict, and enough of them bring it to the minimum: on
  an armed timer, a new confirmation either fires the timeout at once or re-arms the timer no
  later than before; when it was the last one wanted, the timer fires exactly \<open>min\<close> after the
  start, or at once if that moment has passed.
\<close>

theorem Confirm_accelerates:
  assumes "float_log lg" and "suspicion_ok lg s" and "sus_timer s = Some d"
    and "Confirm lg now s from = (True, s', fired)"
  shows "(if fired then sus_timer s' = None else \<exists>d'. sus_timer s' = Some d' \<and> now < d' \<and> d' \<le> d) \<and>
         (sus_n s' = sus_k s \<longrightarrow>
            fired = (sus_start s + sus_min s \<le> now) \<and>
            (\<not> fired \<longrightarrow> sus_timer s' = Some (sus_start s + sus_min s)))"
proof -
  let ?tot = "\<lambda>n. total_timeout lg n (sus_k s) (sus_min s) (sus_max s)"
  have new: "sus_n s < sus_k s" "from \<notin> sus_confirmations s"
    using Confirm_new_iff [OF assms(4)] by auto
  have ok: "sus_min s \<le> sus_max s" "0 \<le> sus_n s" "1 \<le> sus_k s"
    using assms(2) new by (auto simp: suspicion_ok_def)
  have d: "d = sus_start s + (if sus_n s = 0 then sus_max s else ?tot (sus_n s))"
    using assms(2,3) ok by (simp add: suspicion_ok_def)
  have "?tot (sus_n s + 1) \<le> ?tot (sus_n s)"
    using ok by (intro float_log.total_timeout_antimono [OF assms(1)]) auto
  moreover have "?tot (sus_n s + 1) \<le> sus_max s"
    using ok new by (intro float_log.total_timeout_le [OF assms(1)]) auto
  ultimately have le: "sus_start s + ?tot (sus_n s + 1) \<le> d" by (auto simp: d)
  have s': "sus_n s' = sus_n s + 1" using Confirm_fields(5) [OF assms(4)] by simp
  have "?tot (sus_n s + 1) = sus_min s" if "sus_n s' = sus_k s"
    using that s' float_log.total_timeout_full [OF assms(1) ok(3)] by metis
  with le s' assms(3,4) new show ?thesis
    by (auto simp: Confirm_def Let_def remaining_total split: if_splits)
qed

theorem Confirm_accelerates_witness:
  "(let s = newSuspicion 0 ''a'' 1 10 60 in
    case Confirm ln 5 s ''b'' of
      (b, s', fired) \<Rightarrow> b \<and> \<not> fired \<and> sus_n s' = sus_k s \<and> sus_timer s' = Some (0 + 10))"
proof -
  let ?s = "newSuspicion 0 ''a'' 1 10 60"
  obtain b s' f where c0: "Confirm ln 5 ?s ''b'' = (b, s', f)" by (metis prod_cases3)
  have "b" using Confirm_new_iff [OF c0] by (simp add: newSuspicion_def Let_def)
  with c0 have c: "Confirm ln 5 ?s ''b'' = (True, s', f)" by simp
  have "suspicion_ok ln ?s" by (rule newSuspicion_ok) simp
  from Confirm_accelerates [OF nat_log.float_log_axioms this _ c] Confirm_fields [OF c] c
  show ?thesis by (auto simp: newSuspicion_def Let_def)
qed

section \<open>When the timeout function runs\<close>

text \<open>
  The moment at which a suspicion times out when the confirmations \<open>(now, from)\<close> arrive: an armed timer
  fires at its deadline unless a confirmation comes before; a confirmation may start the timeout
  function at once. \<open>None\<close>: it never runs.
\<close>

fun fire_time :: "(real \<Rightarrow> real) \<Rightarrow> suspicion \<Rightarrow> (time \<times> string) list \<Rightarrow> time option" where
  "fire_time lg s [] = sus_timer s"
| "fire_time lg s ((now, from) # cs) =
     (case sus_timer s of
        None \<Rightarrow> None
      | Some d \<Rightarrow>
          if d \<le> now then Some d
          else (case Confirm lg now s from of (b, s', fired) \<Rightarrow> if fired then Some now else fire_time lg s' cs))"

lemma Confirm_fired_late:
  assumes "Confirm lg now s from = (b, s', True)"
  shows "sus_start s + sus_min s \<le> now"
  using assms total_timeout_ge [of "sus_min s" lg "sus_n s + 1" "sus_k s" "sus_max s"]
  by (auto simp: Confirm_def Let_def remaining_total split: if_splits option.splits)

lemma deadline_bounds:
  assumes "float_log lg" and "suspicion_ok lg s" and "sus_timer s = Some d"
  shows "sus_start s + sus_min s \<le> d" "d \<le> sus_start s + sus_max s" "sus_k s \<le> sus_n s \<Longrightarrow> d = sus_start s + sus_min s"
    "1 \<le> sus_k s \<Longrightarrow> sus_n s = 0 \<Longrightarrow> d = sus_start s + sus_max s"
proof -
  have ok: "sus_min s \<le> sus_max s" "0 \<le> sus_n s" "sus_n s \<le> max 0 (sus_k s)"
    and d: "d = sus_start s + (if sus_k s < 1 then sus_min s else if sus_n s = 0 then sus_max s
        else total_timeout lg (sus_n s) (sus_k s) (sus_min s) (sus_max s))"
    using assms(2,3) by (auto simp: suspicion_ok_def)
  have "total_timeout lg (sus_n s) (sus_k s) (sus_min s) (sus_max s) \<le> sus_max s" if "1 \<le> sus_k s"
    using that ok by (intro float_log.total_timeout_le [OF assms(1)]) auto
  then show "sus_start s + sus_min s \<le> d" "d \<le> sus_start s + sus_max s"
    using ok(1) total_timeout_ge by (auto simp: d)
  show "d = sus_start s + sus_min s" if "sus_k s \<le> sus_n s"
    using that ok float_log.total_timeout_full [OF assms(1), of "sus_k s"] by (auto simp: d max_def split: if_splits)
  show "1 \<le> sus_k s \<Longrightarrow> sus_n s = 0 \<Longrightarrow> d = sus_start s + sus_max s"
    by (simp add: d)
qed

text \<open>What one confirmation does to an armed timer that has not reached its deadline.\<close>

lemma Confirm_armed:
  assumes "float_log lg" and "suspicion_ok lg s" and "sus_timer s = Some d" and "Confirm lg now s from = (b, s', False)"
  obtains d' where "sus_timer s' = Some d'" "d' \<le> d" "suspicion_ok lg s'"
proof (cases b)
  case True
  then obtain d' where "sus_timer s' = Some d'" "d' \<le> d"
    using Confirm_accelerates [OF assms(1-3)] assms(4) by fastforce
  then show ?thesis
    using that Confirm_ok [OF assms(2,4)] by blast
next
  case False
  then show ?thesis
    using that [of d] Confirm_fields(6) [OF assms(4)] assms(2,3) by simp
qed

lemma fire_time_bounds:
  assumes lg: "float_log lg"
  shows "suspicion_ok lg s \<Longrightarrow> sus_timer s = Some d \<Longrightarrow>
    \<exists>t. fire_time lg s cs = Some t \<and> sus_start s + sus_min s \<le> t \<and> t \<le> d"
proof (induction cs arbitrary: s d)
  case Nil
  then show ?case
    using deadline_bounds(1) [OF lg] by simp
next
  case (Cons c cs)
  obtain now "from" where c: "c = (now, from)"
    by (cases c)
  obtain b s' f where C: "Confirm lg now s from = (b, s', f)"
    by (metis prod_cases3)
  show ?case
  proof (cases "d \<le> now \<or> f")
    case True
    then show ?thesis
      using Cons.prems C c deadline_bounds(1) [OF lg Cons.prems] Confirm_fired_late [of lg now s "from" b s'] by auto
  next
    case False
    with C obtain d' where d': "sus_timer s' = Some d'" "d' \<le> d" "suspicion_ok lg s'"
      using Confirm_armed [OF lg Cons.prems, of now "from" b s'] by auto
    then show ?thesis
      using Cons.IH [OF d'(3,1)] Cons.prems False C c Confirm_fields(2,4) [OF C] by auto
  qed
qed

text \<open>Enough distinct peers bring the timeout to the minimum, or to the moment of the last of them.\<close>

lemma fire_time_confirmed:
  assumes lg: "float_log lg"
  shows "suspicion_ok lg s \<Longrightarrow> sus_timer s = Some d \<Longrightarrow> fire_time lg s (cs @ cs') = Some t \<Longrightarrow>
    \<forall>(now, from) \<in> set cs. now \<le> l \<Longrightarrow> sus_k s < int (card (sus_confirmations s \<union> snd ` set cs)) \<Longrightarrow>
    t \<le> max (sus_start s + sus_min s) l"
proof (induction cs arbitrary: s d)
  case Nil
  then have "d = sus_start s + sus_min s"
    using deadline_bounds(3) [OF lg Nil(1,2)] by (simp add: suspicion_ok_def)
  then show ?case
    using fire_time_bounds [OF lg Nil(1,2), of cs'] Nil(3) by auto
next
  case (Cons c cs)
  obtain now "from" where c: "c = (now, from)"
    by (cases c)
  obtain b s' f where C: "Confirm lg now s from = (b, s', f)"
    by (metis prod_cases3)
  consider "d \<le> now \<or> f" | "sus_k s \<le> sus_n s" | "\<not> (d \<le> now \<or> f)" "sus_n s < sus_k s"
    by linarith
  then show ?case
  proof cases
    case 1
    then show ?thesis
      using Cons.prems C c by (auto split: if_splits)
  next
    case 2
    then show ?thesis
      using fire_time_bounds [OF lg Cons.prems(1,2), of "(c # cs) @ cs'"] Cons.prems(3) deadline_bounds(3) [OF lg Cons.prems(1,2)] by auto
  next
    case 3
    with C obtain d' where d': "sus_timer s' = Some d'" "suspicion_ok lg s'"
      using Confirm_armed [OF lg Cons.prems(1,2), of now "from" b s'] by auto
    have "sus_confirmations s' \<union> snd ` set cs = sus_confirmations s \<union> snd ` set (c # cs)"
      using Confirm_fields(5,6) [OF C] Confirm_new_iff [OF C] 3(2) c by (cases b) auto
    moreover have "fire_time lg s' (cs @ cs') = Some t"
      using Cons.prems(2,3) C c 3(1) by simp
    ultimately show ?thesis
      using Cons.IH [OF d'(2,1)] Cons.prems(4,5) Confirm_fields(1-4) [OF C] by auto
  qed
qed

lemma fire_time_unconfirmed:
  "sus_timer s = Some d \<Longrightarrow> snd ` set cs \<subseteq> sus_confirmations s \<Longrightarrow> fire_time lg s cs = Some d"
proof (induction cs)
  case (Cons c cs)
  then show ?case
    by (cases c) (auto simp: Confirm_def)
qed simp

text \<open>
  C26. A suspicion always times out, whatever confirmations arrive, in whatever order and however
  often: never before \<open>min\<close> and never after \<open>max\<close> since it began. Without a confirmation by a peer other
  than the accuser it takes \<open>max\<close> (\<open>min\<close> when none is wanted); once as many distinct other peers
  as wanted have confirmed by the moment \<open>l\<close>, it times out by \<open>min\<close> or by \<open>l\<close>, whichever is later.
\<close>

theorem suspicion_deadline_bounds:
  assumes "float_log lg" and "mn \<le> mx"
  shows "\<exists>t. fire_time lg (newSuspicion start accuser k mn mx) (cs @ cs') = Some t \<and> start + mn \<le> t \<and> t \<le> start + mx \<and>
    (k < 1 \<longrightarrow> t = start + mn) \<and> (1 \<le> k \<and> snd ` set (cs @ cs') \<subseteq> {accuser} \<longrightarrow> t = start + mx) \<and>
    ((\<forall>(now, from) \<in> set cs. now \<le> l) \<and> k \<le> int (card (snd ` set cs - {accuser})) \<longrightarrow> t \<le> max (start + mn) l)"
proof -
  let ?s = "newSuspicion start accuser k mn mx"
  have ok: "suspicion_ok lg ?s"
    by (rule newSuspicion_ok [OF assms(2)])
  have f: "sus_k ?s = k" "sus_min ?s = mn" "sus_max ?s = mx" "sus_start ?s = start" "sus_confirmations ?s = {accuser}"
    "sus_timer ?s = Some (start + (if k < 1 then mn else mx))"
    by (simp_all add: newSuspicion_def Let_def)
  obtain t where t: "fire_time lg ?s (cs @ cs') = Some t" "start + mn \<le> t" "t \<le> start + (if k < 1 then mn else mx)"
    using fire_time_bounds [OF assms(1) ok f(6), of "cs @ cs'"] by (auto simp: f)
  have "card ({accuser} \<union> snd ` set cs) = Suc (card (snd ` set cs - {accuser}))"
    by (simp add: card.insert_remove)
  then have "t \<le> max (start + mn) l" if "\<forall>(now, from) \<in> set cs. now \<le> l" "k \<le> int (card (snd ` set cs - {accuser}))"
    using fire_time_confirmed [OF assms(1) ok f(6) t(1) that(1)] that(2) by (simp add: f)
  moreover have "t = start + mx" if "1 \<le> k" "snd ` set (cs @ cs') \<subseteq> {accuser}"
    using fire_time_unconfirmed [OF f(6), of "cs @ cs'" lg] that t(1) by (simp add: f)
  ultimately show ?thesis
    using t assms(2) by (intro exI [of _ t]) (auto split: if_splits)
qed

theorem suspicion_deadline_bounds_witness:
  "\<exists>t. fire_time ln (newSuspicion 100 ''a'' 2 10 60) [(105, ''b''), (106, ''b''), (107, ''a''), (120, ''c'')] = Some t
     \<and> 110 \<le> t \<and> t \<le> 120"
  using suspicion_deadline_bounds [OF nat_log.float_log_axioms, of 10 60 100 "''a''" 2
      "[(105, ''b''), (106, ''b''), (107, ''a''), (120, ''c'')]" "[]" 120]
  by auto

end
