(* ===== verification/Gossip_Queue.thy ===== *)
theory Gossip_Queue
  imports Timing "HOL-Library.Product_Lexorder"
begin

text \<open>
  The transmit-limited broadcast queue of \<open>memberlist/queue.go\<close> with the broadcasts of
  \<open>broadcast.go\<close> and \<open>weightbroadcast.go\<close>. The queue keeps its entries in a B-tree of
  \<open>github.com/google/btree\<close>, which is a parameter of the operations: a record of the tree
  operations the code calls. The documented behaviour of that tree, an ordered set under
  \<open>Less\<close>, is the hypothesis \<open>btree_laws\<close>. Calls of \<open>Finished\<close> are recorded in a log.
  Every method holds the queue's mutex, so a method is one step.
\<close>

section \<open>Broadcasts\<close>

text \<open>
  \<open>UserBroadcast\<close> stands for an implementation of the \<open>Broadcast\<close> interface by a user of
  the library: it may implement \<open>NamedBroadcast\<close>, \<open>UniqueBroadcast\<close> or neither, and what
  its \<open>Invalidates\<close> says is a parameter \<open>uinv\<close>.
\<close>

datatype broadcast_kind = NamedBroadcast string | UniqueBroadcast | PlainBroadcast

datatype Broadcast =
    MemberlistBroadcast string bytes "nat option"
  | WeightBroadcast string bytes
  | UserBroadcast broadcast_kind nat bytes

fun Message :: "Broadcast \<Rightarrow> bytes" where
  "Message (MemberlistBroadcast node msg notify) = msg"
| "Message (WeightBroadcast node msg) = msg"
| "Message (UserBroadcast kind i msg) = msg"

fun Name_of :: "Broadcast \<Rightarrow> string option" where
  "Name_of (MemberlistBroadcast node msg notify) = Some node"
| "Name_of (WeightBroadcast node msg) = None"
| "Name_of (UserBroadcast kind i msg) = (case kind of NamedBroadcast n \<Rightarrow> Some n | _ \<Rightarrow> None)"

fun is_unique :: "Broadcast \<Rightarrow> bool" where
  "is_unique (UserBroadcast kind i msg) = (kind = UniqueBroadcast)"
| "is_unique _ = False"

fun Invalidates :: "(nat \<Rightarrow> Broadcast \<Rightarrow> bool) \<Rightarrow> Broadcast \<Rightarrow> Broadcast \<Rightarrow> bool" where
  "Invalidates uinv (MemberlistBroadcast node msg notify) other =
     (case other of MemberlistBroadcast node' _ _ \<Rightarrow> node = node' | _ \<Rightarrow> False)"
| "Invalidates uinv (WeightBroadcast node msg) other =
     (case other of WeightBroadcast node' _ \<Rightarrow> node = node' | _ \<Rightarrow> False)"
| "Invalidates uinv (UserBroadcast kind i msg) other = uinv i other"

section \<open>Queue entries and the ordered tree\<close>

record limitedBroadcast =
  transmits :: int
  msgLen :: int
  lb_id :: int
  lb_b :: Broadcast
  lb_name :: string

definition Less :: "limitedBroadcast \<Rightarrow> limitedBroadcast \<Rightarrow> bool" where
  "Less b ob =
     (if transmits b < transmits ob then True
      else if transmits b > transmits ob then False
      else if msgLen b > msgLen ob then True
      else if msgLen b < msgLen ob then False
      else lb_id b > lb_id ob)"

abbreviation MaxInt64 :: int where "MaxInt64 \<equiv> 9223372036854775807"

record 't btree =
  bt_new :: 't
  bt_insert :: "limitedBroadcast \<Rightarrow> 't \<Rightarrow> 't"
  bt_delete :: "limitedBroadcast \<Rightarrow> 't \<Rightarrow> 't"
  bt_len :: "'t \<Rightarrow> nat"
  bt_min :: "'t \<Rightarrow> limitedBroadcast option"
  bt_max :: "'t \<Rightarrow> limitedBroadcast option"
  bt_ascend :: "'t \<Rightarrow> limitedBroadcast list"
  bt_range :: "limitedBroadcast \<Rightarrow> limitedBroadcast \<Rightarrow> 't \<Rightarrow> limitedBroadcast list"

record 't tlq =
  RetransmitMult :: int
  tq :: "'t option"
  tm :: "string \<rightharpoonup> limitedBroadcast"
  idGen :: int
  finished :: "Broadcast list"

section \<open>Operations\<close>

text \<open>
  A nil tree is \<open>None\<close>. \<open>deleteItem\<close> and \<open>addItem\<close> are only called once the tree exists.
\<close>

definition tree :: "'t btree \<Rightarrow> 't tlq \<Rightarrow> 't" where
  "tree bt q = (case tq q of None \<Rightarrow> bt_new bt | Some t \<Rightarrow> t)"

definition lenLocked :: "'t btree \<Rightarrow> 't tlq \<Rightarrow> nat" where
  "lenLocked bt q = (case tq q of None \<Rightarrow> 0 | Some t \<Rightarrow> bt_len bt t)"

definition lazyInit :: "'t btree \<Rightarrow> 't tlq \<Rightarrow> 't tlq" where
  "lazyInit bt q = (if tq q = None then q\<lparr>tq := Some (bt_new bt)\<rparr> else q)"

definition Finished :: "Broadcast \<Rightarrow> 't tlq \<Rightarrow> 't tlq" where
  "Finished b q = q\<lparr>finished := finished q @ [b]\<rparr>"

definition deleteItem :: "'t btree \<Rightarrow> 't tlq \<Rightarrow> limitedBroadcast \<Rightarrow> 't tlq" where
  "deleteItem bt q cur =
     (let q1 = q\<lparr>tq := Some (bt_delete bt cur (tree bt q))\<rparr>;
          q2 = (if lb_name cur \<noteq> [] then q1\<lparr>tm := (tm q1)(lb_name cur := None)\<rparr> else q1)
      in if bt_len bt (tree bt q2) = 0 then q2\<lparr>idGen := 0\<rparr> else q2)"

definition addItem :: "'t btree \<Rightarrow> 't tlq \<Rightarrow> limitedBroadcast \<Rightarrow> 't tlq" where
  "addItem bt q cur =
     (let q1 = q\<lparr>tq := Some (bt_insert bt cur (tree bt q))\<rparr>
      in if lb_name cur \<noteq> [] then q1\<lparr>tm := (tm q1)(lb_name cur \<mapsto> cur)\<rparr> else q1)"

definition next_id :: "'t tlq \<Rightarrow> int" where
  "next_id q = (if idGen q = MaxInt64 then 1 else idGen q + 1)"

definition mk_lb :: "Broadcast \<Rightarrow> int \<Rightarrow> int \<Rightarrow> limitedBroadcast" where
  "mk_lb b initialTransmits i =
     \<lparr>transmits = initialTransmits, msgLen = int (length (Message b)), lb_id = i, lb_b = b,
      lb_name = (case Name_of b of Some n \<Rightarrow> n | None \<Rightarrow> [])\<rparr>"

definition queueBroadcast ::
    "'t btree \<Rightarrow> (nat \<Rightarrow> Broadcast \<Rightarrow> bool) \<Rightarrow> 't tlq \<Rightarrow> Broadcast \<Rightarrow> int \<Rightarrow> 't tlq" where
  "queueBroadcast bt uinv q b initialTransmits =
     (let q0 = lazyInit bt q;
          q1 = q0\<lparr>idGen := next_id q0\<rparr>;
          lb = mk_lb b initialTransmits (idGen q1);
          unique = (Name_of b = None \<and> is_unique b);
          q2 = (if lb_name lb \<noteq> [] then
                  (case tm q1 (lb_name lb) of
                     Some old \<Rightarrow> deleteItem bt (Finished (lb_b old) q1) old
                   | None \<Rightarrow> q1)
                else if \<not> unique then
                  (let remove = filter (\<lambda>cur. Name_of (lb_b cur) = None \<and> \<not> is_unique (lb_b cur) \<and>
                                             Invalidates uinv b (lb_b cur)) (bt_ascend bt (tree bt q1));
                       q' = foldl (\<lambda>q cur. Finished (lb_b cur) q) q1 remove
                   in foldl (deleteItem bt) q' remove)
                else q1)
      in addItem bt q2 lb)"

definition QueueBroadcast ::
    "'t btree \<Rightarrow> (nat \<Rightarrow> Broadcast \<Rightarrow> bool) \<Rightarrow> 't tlq \<Rightarrow> Broadcast \<Rightarrow> 't tlq" where
  "QueueBroadcast bt uinv q b = queueBroadcast bt uinv q b 0"

definition getTransmitRange :: "'t btree \<Rightarrow> 't tlq \<Rightarrow> int \<times> int" where
  "getTransmitRange bt q =
     (if lenLocked bt q = 0 then (0, 0)
      else
        (case (bt_min bt (tree bt q), bt_max bt (tree bt q)) of
           (Some mn, Some mx) \<Rightarrow> (transmits mn, transmits mx)
         | _ \<Rightarrow> (0, 0)))"

text \<open>
  The loop of \<open>GetBroadcasts\<close>. It ends because every round either deletes an entry or
  moves to the next transmit tier; that rests on the tree's behaviour, so the loop carries
  fuel, and \<open>GetBroadcasts\<close> supplies one unit per entry and per tier.
\<close>

definition pick :: "'t btree \<Rightarrow> 't tlq \<Rightarrow> int \<Rightarrow> int \<Rightarrow> limitedBroadcast option" where
  "pick bt q tr free =
     (let greaterOrEqual = \<lparr>transmits = tr, msgLen = free, lb_id = MaxInt64,
                            lb_b = WeightBroadcast [] [], lb_name = []\<rparr>;
          lessThan = \<lparr>transmits = tr + 1, msgLen = MaxInt64, lb_id = MaxInt64,
                      lb_b = WeightBroadcast [] [], lb_name = []\<rparr>
      in find (\<lambda>cur. \<not> int (length (Message (lb_b cur))) > free)
           (bt_range bt greaterOrEqual lessThan (tree bt q)))"

fun gather :: "'t btree \<Rightarrow> int \<Rightarrow> int \<Rightarrow> int \<Rightarrow> int \<Rightarrow> nat \<Rightarrow> int \<Rightarrow> int \<Rightarrow> bytes list \<Rightarrow>
      limitedBroadcast list \<Rightarrow> 't tlq \<Rightarrow> (bytes list \<times> limitedBroadcast list \<times> 't tlq) option" where
  "gather bt transmitLimit overhead limit maxTr 0 tr bytesUsed toSend reinsert q = None"
| "gather bt transmitLimit overhead limit maxTr (Suc fuel) tr bytesUsed toSend reinsert q =
     (if \<not> tr \<le> maxTr then Some (toSend, reinsert, q)
      else
        (let free = limit - bytesUsed - overhead in
         if free \<le> 0 then Some (toSend, reinsert, q)
         else
           (case pick bt q tr free of
              None \<Rightarrow>
                gather bt transmitLimit overhead limit maxTr fuel (tr + 1) bytesUsed toSend reinsert q
            | Some keep \<Rightarrow>
                (let msg = Message (lb_b keep);
                     bytesUsed' = bytesUsed + overhead + int (length msg);
                     toSend' = toSend @ [msg];
                     q1 = deleteItem bt q keep
                 in if transmits keep + 1 \<ge> transmitLimit
                    then gather bt transmitLimit overhead limit maxTr fuel tr bytesUsed' toSend' reinsert
                           (Finished (lb_b keep) q1)
                    else gather bt transmitLimit overhead limit maxTr fuel tr bytesUsed' toSend'
                           (reinsert @ [keep\<lparr>transmits := transmits keep + 1\<rparr>]) q1))))"

text \<open>
  The multiplier is the field, or what \<open>RetransmitMultGetter\<close> returns when the queue has one;
  \<open>getter\<close> is that value, \<open>numNodes\<close> the value \<open>NumNodes()\<close> returns.
\<close>

definition mult_of :: "int option \<Rightarrow> 't tlq \<Rightarrow> int" where
  "mult_of getter q = (case getter of Some m \<Rightarrow> m | None \<Rightarrow> RetransmitMult q)"

definition GetBroadcasts ::
    "'t btree \<Rightarrow> (real \<Rightarrow> real) \<Rightarrow> int option \<Rightarrow> int \<Rightarrow> 't tlq \<Rightarrow> int \<Rightarrow> int \<Rightarrow> (bytes list \<times> 't tlq) option" where
  "GetBroadcasts bt log10 getter numNodes q overhead limit =
     (if lenLocked bt q = 0 then Some ([], q)
      else
        (let transmitLimit = retransmitLimit log10 (mult_of getter q) numNodes;
             (minTr, maxTr) = getTransmitRange bt q;
             fuel = lenLocked bt q + nat (maxTr - minTr + 1) + 1
         in case gather bt transmitLimit overhead limit maxTr fuel minTr 0 [] [] q of
              None \<Rightarrow> None
            | Some (toSend, reinsert, q1) \<Rightarrow> Some (toSend, foldl (addItem bt) q1 reinsert)))"

definition NumQueued :: "'t btree \<Rightarrow> 't tlq \<Rightarrow> nat" where
  "NumQueued bt q = lenLocked bt q"

definition orderedView :: "'t btree \<Rightarrow> 't tlq \<Rightarrow> bool \<Rightarrow> limitedBroadcast list" where
  "orderedView bt q rv =
     (if lenLocked bt q = 0 then []
      else if rv then rev (bt_ascend bt (tree bt q)) else bt_ascend bt (tree bt q))"

definition Reset :: "'t btree \<Rightarrow> 't tlq \<Rightarrow> 't tlq" where
  "Reset bt q =
     (let q1 = foldl (\<lambda>q cur. Finished (lb_b cur) q) q (orderedView bt q False)
      in q1\<lparr>tq := None, tm := Map.empty, idGen := 0\<rparr>)"

fun prune_loop :: "'t btree \<Rightarrow> int \<Rightarrow> nat \<Rightarrow> 't tlq \<Rightarrow> 't tlq option" where
  "prune_loop bt maxRetain 0 q = None"
| "prune_loop bt maxRetain (Suc fuel) q =
     (if int (bt_len bt (tree bt q)) > maxRetain then
        (case bt_max bt (tree bt q) of
           None \<Rightarrow> Some q
         | Some cur \<Rightarrow> prune_loop bt maxRetain fuel (deleteItem bt (Finished (lb_b cur) q) cur))
      else Some q)"

text \<open>\<open>Prune\<close> reads \<open>q.tq.Len()\<close> without a check: on a queue never used it panics.\<close>

definition Prune :: "'t btree \<Rightarrow> 't tlq \<Rightarrow> int \<Rightarrow> 't tlq option" where
  "Prune bt q maxRetain =
     (case tq q of None \<Rightarrow> None | Some t \<Rightarrow> prune_loop bt maxRetain (bt_len bt t + 1) q)"

section \<open>The tree as an ordered set\<close>

definition lb_key :: "limitedBroadcast \<Rightarrow> int \<times> int \<times> int" where
  "lb_key x = (transmits x, - msgLen x, - lb_id x)"

lemma Less_key: "Less a b \<longleftrightarrow> lb_key a < lb_key b"
  by (auto simp: Less_def lb_key_def less_prod_def)

lemma Less_or_Less: "Less a b \<or> Less b a \<longleftrightarrow> lb_key a \<noteq> lb_key b"
  by (auto simp: Less_key neq_iff)

definition os_insert :: "limitedBroadcast \<Rightarrow> limitedBroadcast list \<Rightarrow> limitedBroadcast list" where
  "os_insert x xs = filter (\<lambda>y. Less y x) xs @ [x] @ filter (\<lambda>y. Less x y) xs"

definition os_delete :: "limitedBroadcast \<Rightarrow> limitedBroadcast list \<Rightarrow> limitedBroadcast list" where
  "os_delete x xs = filter (\<lambda>y. Less y x \<or> Less x y) xs"

definition os_range ::
    "limitedBroadcast \<Rightarrow> limitedBroadcast \<Rightarrow> limitedBroadcast list \<Rightarrow> limitedBroadcast list" where
  "os_range ge lt xs = filter (\<lambda>y. \<not> Less y ge \<and> Less y lt) xs"

text \<open>
  \<open>ReplaceOrInsert\<close> puts an item in order and replaces the item that compares equal;
  \<open>Delete\<close> removes the item that compares equal; \<open>Ascend\<close> lists all items in order,
  \<open>AscendRange\<close> those from the first bound up to, not including, the second.
\<close>

definition btree_laws :: "'t btree \<Rightarrow> bool" where
  "btree_laws bt \<longleftrightarrow>
     bt_ascend bt (bt_new bt) = [] \<and>
     (\<forall>t. sorted_wrt Less (bt_ascend bt t) \<longrightarrow>
        (\<forall>x. bt_ascend bt (bt_insert bt x t) = os_insert x (bt_ascend bt t)) \<and>
        (\<forall>x. bt_ascend bt (bt_delete bt x t) = os_delete x (bt_ascend bt t)) \<and>
        (\<forall>ge lt. bt_range bt ge lt t = os_range ge lt (bt_ascend bt t)) \<and>
        bt_len bt t = length (bt_ascend bt t) \<and>
        bt_min bt t = (if bt_ascend bt t = [] then None else Some (hd (bt_ascend bt t))) \<and>
        bt_max bt t = (if bt_ascend bt t = [] then None else Some (last (bt_ascend bt t))))"

text \<open>A sorted list is such a tree; the witnesses evaluate the queue on it.\<close>

definition list_btree :: "limitedBroadcast list btree" where
  "list_btree = \<lparr>bt_new = [], bt_insert = os_insert, bt_delete = os_delete, bt_len = length,
     bt_min = (\<lambda>xs. if xs = [] then None else Some (hd xs)),
     bt_max = (\<lambda>xs. if xs = [] then None else Some (last xs)),
     bt_ascend = (\<lambda>xs. xs), bt_range = os_range\<rparr>"

lemma list_btree_laws: "btree_laws list_btree"
  by (simp add: btree_laws_def list_btree_def)

lemma set_os_insert: "set (os_insert x xs) = insert x {y \<in> set xs. lb_key y \<noteq> lb_key x}"
  by (auto simp: os_insert_def Less_key)

lemma set_os_delete: "set (os_delete x xs) = {y \<in> set xs. lb_key y \<noteq> lb_key x}"
  by (auto simp: os_delete_def Less_key)

lemma sorted_os_insert: "sorted_wrt Less xs \<Longrightarrow> sorted_wrt Less (os_insert x xs)"
  by (auto simp: os_insert_def sorted_wrt_append sorted_wrt_filter Less_key)

lemma sorted_os_delete: "sorted_wrt Less xs \<Longrightarrow> sorted_wrt Less (os_delete x xs)"
  by (simp add: os_delete_def sorted_wrt_filter)

lemma sorted_wrt_Less_distinct: "sorted_wrt Less xs \<Longrightarrow> distinct (map lb_key xs)"
  by (induction xs) (auto simp: Less_key)

lemma sorted_key_inj: "sorted_wrt Less xs \<Longrightarrow> x \<in> set xs \<Longrightarrow> y \<in> set xs \<Longrightarrow> lb_key x = lb_key y \<Longrightarrow> x = y"
  using sorted_wrt_Less_distinct by (metis distinct_map inj_onD)

section \<open>Operations seen through the list of entries\<close>

definition items :: "'t btree \<Rightarrow> 't tlq \<Rightarrow> limitedBroadcast list" where
  "items bt q = bt_ascend bt (tree bt q)"

definition sorted_queue :: "'t btree \<Rightarrow> 't tlq \<Rightarrow> bool" where
  "sorted_queue bt q \<longleftrightarrow> sorted_wrt Less (items bt q)"

lemma items_new: "btree_laws bt \<Longrightarrow> tq q = None \<Longrightarrow> items bt q = []"
  by (simp add: items_def tree_def btree_laws_def)

lemma len_items: "btree_laws bt \<Longrightarrow> sorted_queue bt q \<Longrightarrow> lenLocked bt q = length (items bt q)"
  by (auto simp: lenLocked_def items_def tree_def btree_laws_def sorted_queue_def split: option.splits)

lemma items_lazyInit [simp]: "items bt (lazyInit bt q) = items bt q"
  by (auto simp: items_def tree_def lazyInit_def)

lemma Finished_simps [simp]:
  "items bt (Finished b q) = items bt q" "tm (Finished b q) = tm q" "idGen (Finished b q) = idGen q"
  "finished (Finished b q) = finished q @ [b]" "RetransmitMult (Finished b q) = RetransmitMult q"
  "tq (Finished b q) = tq q" "tree bt (Finished b q) = tree bt q"
  by (simp_all add: Finished_def items_def tree_def)

lemma items_idGen [simp]: "items bt (q\<lparr>idGen := i\<rparr>) = items bt q"
  by (simp add: items_def tree_def)

lemma deleteItem_simps [simp]:
  "finished (deleteItem bt q cur) = finished q"
  "RetransmitMult (deleteItem bt q cur) = RetransmitMult q"
  "tm (deleteItem bt q cur) = (if lb_name cur = [] then tm q else (tm q)(lb_name cur := None))"
  "tree bt (deleteItem bt q cur) = bt_delete bt cur (tree bt q)"
  by (auto simp: deleteItem_def Let_def tree_def)

lemma addItem_simps [simp]:
  "finished (addItem bt q cur) = finished q"
  "RetransmitMult (addItem bt q cur) = RetransmitMult q"
  "idGen (addItem bt q cur) = idGen q"
  "tm (addItem bt q cur) = (if lb_name cur = [] then tm q else (tm q)(lb_name cur \<mapsto> cur))"
  "tree bt (addItem bt q cur) = bt_insert bt cur (tree bt q)"
  by (auto simp: addItem_def Let_def tree_def)

lemma items_deleteItem:
  "btree_laws bt \<Longrightarrow> sorted_queue bt q \<Longrightarrow> items bt (deleteItem bt q cur) = os_delete cur (items bt q)"
  by (simp add: items_def btree_laws_def sorted_queue_def)

lemma items_addItem:
  "btree_laws bt \<Longrightarrow> sorted_queue bt q \<Longrightarrow> items bt (addItem bt q cur) = os_insert cur (items bt q)"
  by (simp add: items_def btree_laws_def sorted_queue_def)

lemma sorted_deleteItem [inv_intros]:
  "btree_laws bt \<Longrightarrow> sorted_queue bt q \<Longrightarrow> sorted_queue bt (deleteItem bt q cur)"
  using items_deleteItem sorted_os_delete unfolding sorted_queue_def by metis

lemma sorted_addItem [inv_intros]:
  "btree_laws bt \<Longrightarrow> sorted_queue bt q \<Longrightarrow> sorted_queue bt (addItem bt q cur)"
  using items_addItem sorted_os_insert unfolding sorted_queue_def by metis

lemma idGen_deleteItem:
  "idGen (deleteItem bt q cur) = idGen q \<or> idGen (deleteItem bt q cur) = 0"
  by (simp add: deleteItem_def Let_def)

text \<open>The entry removed is the one that compares equal; a member of the queue removes itself.\<close>

lemma set_items_deleteItem:
  "btree_laws bt \<Longrightarrow> sorted_queue bt q \<Longrightarrow>
   set (items bt (deleteItem bt q cur)) = {y \<in> set (items bt q). lb_key y \<noteq> lb_key cur}"
  by (simp add: items_deleteItem set_os_delete)

lemma items_deleteItem_member:
  assumes "btree_laws bt" and "sorted_queue bt q" and "cur \<in> set (items bt q)"
  shows "items bt (deleteItem bt q cur) = filter (\<lambda>y. y \<noteq> cur) (items bt q)"
proof -
  have "Less y cur \<or> Less cur y \<longleftrightarrow> y \<noteq> cur" if "y \<in> set (items bt q)" for y
    using that assms sorted_key_inj [of "items bt q" y cur]
    by (auto simp: Less_or_Less sorted_queue_def)
  then show ?thesis using assms by (simp add: items_deleteItem os_delete_def cong: filter_cong)
qed

section \<open>The queue invariant\<close>

definition entry_ok :: "limitedBroadcast \<Rightarrow> bool" where
  "entry_ok x \<longleftrightarrow> msgLen x = int (length (Message (lb_b x))) \<and> msgLen x \<le> MaxInt64 \<and>
     0 \<le> transmits x \<and> lb_id x \<le> MaxInt64 \<and>
     lb_name x = (case Name_of (lb_b x) of Some n \<Rightarrow> n | None \<Rightarrow> [])"

text \<open>
  The entries are ordered and well-formed, a named entry is the one the name index points at
  (so no two entries share a name), and the index files entries under their own name.
\<close>

definition queue_ok :: "'t btree \<Rightarrow> 't tlq \<Rightarrow> bool" where
  "queue_ok bt q \<longleftrightarrow> sorted_queue bt q \<and> (\<forall>x \<in> set (items bt q). entry_ok x) \<and>
     (\<forall>x \<in> set (items bt q). lb_name x \<noteq> [] \<longrightarrow> tm q (lb_name x) = Some x) \<and>
     (\<forall>n x. tm q n = Some x \<longrightarrow> lb_name x = n \<and> n \<noteq> []) \<and> 0 \<le> idGen q \<and> idGen q \<le> MaxInt64"

lemma queue_okD:
  assumes "queue_ok bt q"
  shows "sorted_queue bt q" "x \<in> set (items bt q) \<Longrightarrow> entry_ok x"
    "x \<in> set (items bt q) \<Longrightarrow> lb_name x \<noteq> [] \<Longrightarrow> tm q (lb_name x) = Some x"
    "tm q n = Some y \<Longrightarrow> lb_name y = n" "0 \<le> idGen q" "idGen q \<le> MaxInt64"
  using assms by (auto simp: queue_ok_def)

lemma queue_ok_Finished [inv_intros]: "queue_ok bt (Finished b q) = queue_ok bt q"
  by (simp add: queue_ok_def sorted_queue_def)

lemma queue_ok_lazyInit [inv_intros]: "queue_ok bt q \<Longrightarrow> queue_ok bt (lazyInit bt q)"
  by (auto simp: queue_ok_def sorted_queue_def lazyInit_def items_def tree_def)

lemma queue_ok_idGen [inv_intros]:
  "queue_ok bt q \<Longrightarrow> 0 \<le> i \<Longrightarrow> i \<le> MaxInt64 \<Longrightarrow> queue_ok bt (q\<lparr>idGen := i\<rparr>)"
  by (simp add: queue_ok_def sorted_queue_def)

text \<open>
  Deleting keeps the invariant when the item deleted is an entry, or the one its name points at.
\<close>

lemma queue_ok_deleteItem [inv_intros]:
  assumes L: "btree_laws bt" and ok: "queue_ok bt q"
    and cur: "cur \<in> set (items bt q) \<or> tm q (lb_name cur) = Some cur"
  shows "queue_ok bt (deleteItem bt q cur)"
proof -
  have "tm q (lb_name cur) = Some cur" if "lb_name cur \<noteq> []"
    using cur that queue_okD(3) [OF ok] by blast
  then have "lb_name x \<noteq> lb_name cur"
    if "x \<in> set (items bt q)" "lb_name x \<noteq> []" "lb_key x \<noteq> lb_key cur" for x
    using that queue_okD(3) [OF ok] by (metis option.inject)
  then show ?thesis
    using ok sorted_deleteItem [OF L queue_okD(1) [OF ok]] idGen_deleteItem [of bt q cur]
    by (auto simp: queue_ok_def set_items_deleteItem [OF L queue_okD(1) [OF ok]])
qed

lemma queue_ok_addItem [inv_intros]:
  assumes L: "btree_laws bt" and ok: "queue_ok bt q" and cur: "entry_ok cur"
    and fresh: "lb_name cur \<noteq> [] \<Longrightarrow> \<forall>x \<in> set (items bt q). lb_name x \<noteq> lb_name cur"
  shows "queue_ok bt (addItem bt q cur)"
proof -
  have "set (items bt (addItem bt q cur)) \<subseteq> insert cur (set (items bt q))"
    by (auto simp: items_addItem [OF L queue_okD(1) [OF ok]] set_os_insert)
  with ok cur fresh show ?thesis
    using sorted_addItem [OF L queue_okD(1) [OF ok], of cur]
    by (auto simp: queue_ok_def)
qed

lemma queue_ok_foldl_delete:
  assumes "btree_laws bt" and "queue_ok bt q" and "set rs \<subseteq> set (items bt q)" and "distinct rs"
  shows "queue_ok bt (foldl (deleteItem bt) q rs) \<and>
         items bt (foldl (deleteItem bt) q rs) = filter (\<lambda>x. x \<notin> set rs) (items bt q)"
  using assms
proof (induction rs arbitrary: q)
  case (Cons r rs)
  let ?q = "deleteItem bt q r"
  have its: "items bt ?q = filter (\<lambda>y. y \<noteq> r) (items bt q)"
    using Cons.prems by (intro items_deleteItem_member) (auto intro: queue_okD)
  have "queue_ok bt ?q" using Cons.prems by (intro queue_ok_deleteItem) auto
  moreover have "set rs \<subseteq> set (items bt ?q)" using Cons.prems by (auto simp: its)
  ultimately show ?case using Cons.IH [of ?q] Cons.prems by (simp add: its filter_filter conj_commute)
qed simp

section \<open>Queueing\<close>

text \<open>The entries a new broadcast invalidates, as \<open>queueBroadcast\<close> clears them.\<close>

definition cleared ::
    "'t btree \<Rightarrow> (nat \<Rightarrow> Broadcast \<Rightarrow> bool) \<Rightarrow> 't tlq \<Rightarrow> Broadcast \<Rightarrow> string \<Rightarrow> 't tlq" where
  "cleared bt uinv q b n =
     (if n \<noteq> [] then
        (case tm q n of Some old \<Rightarrow> deleteItem bt (Finished (lb_b old) q) old | None \<Rightarrow> q)
      else if \<not> (Name_of b = None \<and> is_unique b) then
        (let remove = filter (\<lambda>cur. Name_of (lb_b cur) = None \<and> \<not> is_unique (lb_b cur) \<and>
                                   Invalidates uinv b (lb_b cur)) (bt_ascend bt (tree bt q));
             q' = foldl (\<lambda>q cur. Finished (lb_b cur) q) q remove
         in foldl (deleteItem bt) q' remove)
      else q)"

lemma queueBroadcast_cleared:
  "queueBroadcast bt uinv q b tr =
     (let q1 = (lazyInit bt q)\<lparr>idGen := next_id (lazyInit bt q)\<rparr>; lb = mk_lb b tr (idGen q1)
      in addItem bt (cleared bt uinv q1 b (lb_name lb)) lb)"
  by (simp add: queueBroadcast_def cleared_def Let_def)

lemma foldl_Finished_simps:
  "items bt (foldl (\<lambda>q cur. Finished (lb_b cur) q) q rs) = items bt q"
  "queue_ok bt (foldl (\<lambda>q cur. Finished (lb_b cur) q) q rs) = queue_ok bt q"
  "finished (foldl (\<lambda>q cur. Finished (lb_b cur) q) q rs) = finished q @ map lb_b rs"
  by (induction rs arbitrary: q) (simp_all add: queue_ok_Finished)

lemma sorted_wrt_Less_distinct_items: "sorted_wrt Less xs \<Longrightarrow> distinct xs"
  using sorted_wrt_Less_distinct distinct_map by blast

lemma cleared_ok:
  assumes L: "btree_laws bt" and ok: "queue_ok bt q"
  shows "queue_ok bt (cleared bt uinv q b n)"
    and "set (items bt (cleared bt uinv q b n)) \<subseteq> set (items bt q)"
    and "n \<noteq> [] \<Longrightarrow> \<forall>x \<in> set (items bt (cleared bt uinv q b n)). lb_name x \<noteq> n"
proof -
  let ?rs = "filter (\<lambda>cur. Name_of (lb_b cur) = None \<and> \<not> is_unique (lb_b cur) \<and>
                          Invalidates uinv b (lb_b cur)) (items bt q)"
  let ?q = "foldl (\<lambda>q cur. Finished (lb_b cur) q) q ?rs"
  have "queue_ok bt (foldl (deleteItem bt) ?q ?rs) \<and>
        items bt (foldl (deleteItem bt) ?q ?rs) = filter (\<lambda>x. x \<notin> set ?rs) (items bt ?q)"
    using ok queue_okD(1) [OF ok]
    by (intro queue_ok_foldl_delete [OF L])
       (auto simp: foldl_Finished_simps sorted_queue_def dest: sorted_wrt_Less_distinct_items)
  note slow = this [unfolded foldl_Finished_simps]
  note old = queue_ok_Finished queue_okD(4) [OF ok] set_items_deleteItem [OF L]
    queue_okD(1) [OF ok] sorted_queue_def
  have del: "queue_ok bt (deleteItem bt (Finished (lb_b x) q) x)" if "tm q n = Some x" for x
    using that ok old(2) [OF that] by (intro queue_ok_deleteItem [OF L]) (auto simp: queue_ok_Finished)
  show "queue_ok bt (cleared bt uinv q b n)"
    using ok slow del by (auto simp: cleared_def Let_def items_def [symmetric] split: option.splits)
  have srt: "sorted_queue bt (Finished c q)" for c using old(4) by (simp add: sorted_queue_def)
  show "set (items bt (cleared bt uinv q b n)) \<subseteq> set (items bt q)"
    using slow srt by (auto simp: cleared_def Let_def items_def [symmetric] set_items_deleteItem [OF L]
        split: option.splits)
  show "\<forall>x \<in> set (items bt (cleared bt uinv q b n)). lb_name x \<noteq> n" if "n \<noteq> []"
    using that srt queue_okD(3) [OF ok]
    by (fastforce simp: cleared_def set_items_deleteItem [OF L] split: option.splits)
qed

lemma next_id_bounds: "queue_ok bt q \<Longrightarrow> 0 \<le> next_id q \<and> next_id q \<le> MaxInt64"
  using queue_okD(5,6) [of bt q] by (simp add: next_id_def)

lemma entry_ok_mk_lb:
  "int (length (Message b)) \<le> MaxInt64 \<Longrightarrow> 0 \<le> tr \<Longrightarrow> i \<le> MaxInt64 \<Longrightarrow> entry_ok (mk_lb b tr i)"
  by (simp add: entry_ok_def mk_lb_def)

lemma queueBroadcast_ok:
  assumes L: "btree_laws bt" and ok: "queue_ok bt q"
    and b: "int (length (Message b)) \<le> MaxInt64" "0 \<le> tr"
  obtains lb where "queue_ok bt (queueBroadcast bt uinv q b tr)" "lb_b lb = b" "transmits lb = tr"
    "lb_name lb = (case Name_of b of Some n \<Rightarrow> n | None \<Rightarrow> [])"
    "lb \<in> set (items bt (queueBroadcast bt uinv q b tr))"
    "set (items bt (queueBroadcast bt uinv q b tr)) \<subseteq> insert lb (set (items bt q))"
proof -
  let ?q0 = "lazyInit bt q"
  let ?q1 = "?q0\<lparr>idGen := next_id ?q0\<rparr>"
  let ?lb = "mk_lb b tr (next_id ?q0)"
  let ?q2 = "cleared bt uinv ?q1 b (lb_name ?lb)"
  have nid: "0 \<le> next_id ?q0" "next_id ?q0 \<le> MaxInt64"
    using next_id_bounds [OF queue_ok_lazyInit [OF ok]] by auto
  then have ok1: "queue_ok bt ?q1" using queue_ok_lazyInit [OF ok] by (intro queue_ok_idGen)
  note ok2 = cleared_ok [OF L ok1, where uinv = uinv and b = b and n = "lb_name ?lb"]
  have e: "entry_ok ?lb" using b nid by (intro entry_ok_mk_lb) auto
  have eq: "queueBroadcast bt uinv q b tr = addItem bt ?q2 ?lb"
    by (simp add: queueBroadcast_cleared Let_def)
  have "queue_ok bt (addItem bt ?q2 ?lb)" using ok2 e by (intro queue_ok_addItem [OF L]) auto
  moreover have "set (items bt (addItem bt ?q2 ?lb)) \<subseteq> insert ?lb (set (items bt q))"
    using ok2(2) by (auto simp: items_addItem [OF L queue_okD(1) [OF ok2(1)]] set_os_insert)
  moreover have "?lb \<in> set (items bt (addItem bt ?q2 ?lb))"
    by (simp add: items_addItem [OF L queue_okD(1) [OF ok2(1)]] set_os_insert)
  ultimately show ?thesis
    using that [of ?lb] by (simp add: eq) (simp add: mk_lb_def)
qed

section \<open>Gathering messages for a packet\<close>

lemma pick_Some:
  assumes L: "btree_laws bt" and ok: "queue_ok bt q" and p: "pick bt q tr free = Some x"
  shows "x \<in> set (items bt q)" "transmits x = tr" "int (length (Message (lb_b x))) \<le> free"
proof -
  let ?ge = "\<lparr>transmits = tr, msgLen = free, lb_id = MaxInt64, lb_b = WeightBroadcast [] [], lb_name = []\<rparr>"
  let ?lt = "\<lparr>transmits = tr + 1, msgLen = MaxInt64, lb_id = MaxInt64, lb_b = WeightBroadcast [] [], lb_name = []\<rparr>"
  have rng: "bt_range bt ?ge ?lt (tree bt q) = os_range ?ge ?lt (items bt q)"
    using L queue_okD(1) [OF ok] by (simp add: btree_laws_def sorted_queue_def items_def)
  have "find (\<lambda>c. \<not> int (length (Message (lb_b c))) > free) (os_range ?ge ?lt (items bt q)) = Some x"
    using p by (simp add: pick_def Let_def rng)
  then have x: "x \<in> set (os_range ?ge ?lt (items bt q))" and len: "\<not> int (length (Message (lb_b x))) > free"
    by (auto simp: find_Some_iff dest: nth_mem)
  then show "x \<in> set (items bt q)" by (simp add: os_range_def)
  then have "entry_ok x" by (rule queue_okD(2) [OF ok])
  with x show "transmits x = tr"
    by (auto simp: os_range_def Less_def entry_ok_def split: if_splits)
  show "int (length (Message (lb_b x))) \<le> free" using len by simp
qed

lemma pick_None:
  assumes L: "btree_laws bt" and ok: "queue_ok bt q" and p: "pick bt q tr free = None"
    and x: "x \<in> set (items bt q)" "transmits x = tr"
  shows "int (length (Message (lb_b x))) > free"
proof (rule ccontr)
  let ?ge = "\<lparr>transmits = tr, msgLen = free, lb_id = MaxInt64, lb_b = WeightBroadcast [] [], lb_name = []\<rparr>"
  let ?lt = "\<lparr>transmits = tr + 1, msgLen = MaxInt64, lb_id = MaxInt64, lb_b = WeightBroadcast [] [], lb_name = []\<rparr>"
  assume fits: "\<not> ?thesis"
  have rng: "bt_range bt ?ge ?lt (tree bt q) = os_range ?ge ?lt (items bt q)"
    using L queue_okD(1) [OF ok] by (simp add: btree_laws_def sorted_queue_def items_def)
  have "entry_ok x" using x(1) by (rule queue_okD(2) [OF ok])
  then have "x \<in> set (os_range ?ge ?lt (items bt q))"
    using x fits by (auto simp: os_range_def Less_def entry_ok_def)
  with p fits show False by (auto simp: pick_def Let_def rng find_None_iff)
qed

text \<open>
  What one call of the loop achieves, from a tier \<open>tr\<close> and with \<open>used\<close> bytes already taken:
  \<open>sent\<close> are the entries whose messages it adds, \<open>free\<close> the room left at the end.
\<close>

abbreviation cost :: "int \<Rightarrow> limitedBroadcast list \<Rightarrow> int" where
  "cost overhead sent \<equiv> (\<Sum>x \<leftarrow> sent. overhead + int (length (Message (lb_b x))))"

definition gathered :: "'t btree \<Rightarrow> int \<Rightarrow> int \<Rightarrow> int \<Rightarrow> int \<Rightarrow> int \<Rightarrow> int \<Rightarrow> 't tlq \<Rightarrow>
      limitedBroadcast list \<Rightarrow> 't tlq \<Rightarrow> bool" where
  "gathered bt tlimit overhead limit maxTr tr used q sent q' \<longleftrightarrow>
     queue_ok bt q' \<and> distinct sent \<and> set sent \<subseteq> set (items bt q) \<and>
     items bt q' = filter (\<lambda>x. x \<notin> set sent) (items bt q) \<and>
     finished q' = finished q @ map lb_b (filter (\<lambda>x. transmits x + 1 \<ge> tlimit) sent) \<and>
     RetransmitMult q' = RetransmitMult q \<and>
     (sent \<noteq> [] \<longrightarrow> used + cost overhead sent \<le> limit) \<and>
     (\<forall>x \<in> set sent. tr \<le> transmits x) \<and> sorted (map transmits sent) \<and>
     (\<forall>x \<in> set (items bt q'). tr \<le> transmits x \<longrightarrow> transmits x \<le> maxTr \<longrightarrow>
        (let free = limit - (used + cost overhead sent) - overhead
         in free \<le> 0 \<or> int (length (Message (lb_b x))) > free))"

lemma gathered_stop:
  assumes "queue_ok bt q" and "\<not> tr \<le> maxTr \<or> limit - used - overhead \<le> 0"
  shows "gathered bt tlimit overhead limit maxTr tr used q [] q"
  using assms by (auto simp: gathered_def Let_def)

lemma cost_nonneg: "0 \<le> overhead \<Longrightarrow> 0 \<le> cost overhead sent"
  by (induction sent) auto

lemma gathered_skip:
  assumes L: "btree_laws bt" and ok: "queue_ok bt q" and ov: "0 \<le> overhead"
    and p: "pick bt q tr (limit - used - overhead) = None"
    and g: "gathered bt tlimit overhead limit maxTr (tr + 1) used q sent q'"
  shows "gathered bt tlimit overhead limit maxTr tr used q sent q'"
proof -
  have "int (length (Message (lb_b x))) > limit - (used + cost overhead sent) - overhead"
    if "x \<in> set (items bt q')" "transmits x = tr" for x
    using that pick_None [OF L ok p, of x] g cost_nonneg [OF ov, of sent]
    by (auto simp: gathered_def)
  moreover have "tr \<le> transmits x \<longleftrightarrow> transmits x = tr \<or> tr + 1 \<le> transmits x" for x by auto
  ultimately show ?thesis using g by (auto simp: gathered_def Let_def)
qed

lemma gathered_step:
  assumes L: "btree_laws bt" and ok: "queue_ok bt q"
    and p: "pick bt q tr (limit - used - overhead) = Some x"
    and q1: "q1 = deleteItem bt q x \<and> \<not> transmits x + 1 \<ge> tlimit \<or>
             q1 = Finished (lb_b x) (deleteItem bt q x) \<and> transmits x + 1 \<ge> tlimit"
    and g: "gathered bt tlimit overhead limit maxTr tr (used + overhead + int (length (Message (lb_b x)))) q1 sent q'"
  shows "gathered bt tlimit overhead limit maxTr tr used q (x # sent) q'"
proof -
  note x = pick_Some [OF L ok p]
  have its: "items bt q1 = filter (\<lambda>y. y \<noteq> x) (items bt q)"
    using q1 items_deleteItem_member [OF L queue_okD(1) [OF ok] x(1)] by auto
  have fin: "finished q1 = finished q @ (if transmits x + 1 \<ge> tlimit then [lb_b x] else [])"
            "RetransmitMult q1 = RetransmitMult q"
    using q1 by auto
  have c: "used + overhead + int (length (Message (lb_b x))) + cost overhead sent =
           used + cost overhead (x # sent)"
    by simp
  show ?thesis
    using g x unfolding gathered_def its fin c
    by (auto simp: filter_filter conj_commute)
qed

lemma gather_spec:
  assumes L: "btree_laws bt" and ov: "0 \<le> overhead"
  shows "queue_ok bt q \<Longrightarrow> length (items bt q) + nat (maxTr - tr + 1) < fuel \<Longrightarrow>
    \<exists>sent q'. gathered bt tlimit overhead limit maxTr tr used q sent q' \<and>
      gather bt tlimit overhead limit maxTr fuel tr used toSend reinsert q =
        Some (toSend @ map (Message \<circ> lb_b) sent,
              reinsert @ map (\<lambda>x. x\<lparr>transmits := transmits x + 1\<rparr>)
                (filter (\<lambda>x. \<not> transmits x + 1 \<ge> tlimit) sent), q')"
proof (induction fuel arbitrary: tr used toSend reinsert q)
  case (Suc fuel)
  let ?free = "limit - used - overhead"
  show ?case
  proof (cases "\<not> tr \<le> maxTr \<or> ?free \<le> 0")
    case True
    with Suc.prems(1) show ?thesis
      by (intro exI [of _ "[]"] exI [of _ q]) (auto simp: gathered_stop Let_def)
  next
    case False
    show ?thesis
    proof (cases "pick bt q tr ?free")
      case None
      have "length (items bt q) + nat (maxTr - (tr + 1) + 1) < fuel"
        using Suc.prems(2) False by auto
      from Suc.IH [OF Suc.prems(1) this, of used toSend reinsert] show ?thesis
        using False None gathered_skip [OF L Suc.prems(1) ov None] by (fastforce simp: Let_def)
    next
      case (Some x)
      note x = pick_Some [OF L Suc.prems(1) Some]
      define q1 where "q1 = (if transmits x + 1 \<ge> tlimit then Finished (lb_b x) (deleteItem bt q x)
                             else deleteItem bt q x)"
      have ok1: "queue_ok bt q1"
        using queue_ok_deleteItem [OF L Suc.prems(1), of x] x(1)
        by (simp add: q1_def queue_ok_Finished)
      have "items bt q1 = filter (\<lambda>y. y \<noteq> x) (items bt q)"
        using items_deleteItem_member [OF L queue_okD(1) [OF Suc.prems(1)] x(1)] by (simp add: q1_def)
      then have "length (items bt q1) < length (items bt q)"
        using x(1) by (simp add: length_filter_less)
      then have fuel: "length (items bt q1) + nat (maxTr - tr + 1) < fuel" using Suc.prems(2) by simp
      define re where "re = (if transmits x + 1 \<ge> tlimit then reinsert
                             else reinsert @ [x\<lparr>transmits := transmits x + 1\<rparr>])"
      let ?used = "used + overhead + int (length (Message (lb_b x)))"
      have unf: "gather bt tlimit overhead limit maxTr (Suc fuel) tr used toSend reinsert q =
          gather bt tlimit overhead limit maxTr fuel tr ?used (toSend @ [Message (lb_b x)]) re q1"
        using False Some by (auto simp: Let_def q1_def re_def)
      from Suc.IH [OF ok1 fuel, of ?used "toSend @ [Message (lb_b x)]" re]
      obtain sent q' where g: "gathered bt tlimit overhead limit maxTr tr ?used q1 sent q'"
        and r: "gather bt tlimit overhead limit maxTr fuel tr ?used (toSend @ [Message (lb_b x)]) re q1 =
          Some ((toSend @ [Message (lb_b x)]) @ map (Message \<circ> lb_b) sent,
              re @ map (\<lambda>x. x\<lparr>transmits := transmits x + 1\<rparr>)
                (filter (\<lambda>x. \<not> transmits x + 1 \<ge> tlimit) sent), q')"
        by blast
      have "gathered bt tlimit overhead limit maxTr tr used q (x # sent) q'"
        using g by (rule gathered_step [OF L Suc.prems(1) Some, rotated]) (simp add: q1_def)
      with r show ?thesis
        unfolding unf by (intro exI [of _ "x # sent"] exI [of _ q']) (simp add: re_def)
    qed
  qed
qed simp

section \<open>Putting the retransmissions back\<close>

lemma foldl_addItem_ok:
  assumes L: "btree_laws bt"
  shows "queue_ok bt q \<Longrightarrow> \<forall>r \<in> set rs. entry_ok r \<Longrightarrow>
    distinct (filter (\<lambda>n. n \<noteq> []) (map lb_name rs)) \<Longrightarrow>
    \<forall>r \<in> set rs. lb_name r \<noteq> [] \<longrightarrow> (\<forall>x \<in> set (items bt q). lb_name x \<noteq> lb_name r) \<Longrightarrow>
    queue_ok bt (foldl (addItem bt) q rs) \<and>
    set (items bt (foldl (addItem bt) q rs)) \<subseteq> set (items bt q) \<union> set rs \<and>
    (distinct (map lb_key rs) \<and> (\<forall>r \<in> set rs. \<forall>x \<in> set (items bt q). lb_key x \<noteq> lb_key r) \<longrightarrow>
       set (items bt (foldl (addItem bt) q rs)) = set (items bt q) \<union> set rs) \<and>
    finished (foldl (addItem bt) q rs) = finished q"
proof (induction rs arbitrary: q)
  case (Cons r rs)
  have ok: "queue_ok bt (addItem bt q r)" using Cons.prems by (intro queue_ok_addItem [OF L]) auto
  have its: "set (items bt (addItem bt q r)) = insert r {x \<in> set (items bt q). lb_key x \<noteq> lb_key r}"
    by (simp add: items_addItem [OF L queue_okD(1) [OF Cons.prems(1)]] set_os_insert)
  have "\<forall>r' \<in> set rs. lb_name r' \<noteq> [] \<longrightarrow> (\<forall>x \<in> set (items bt (addItem bt q r)). lb_name x \<noteq> lb_name r')"
    using Cons.prems(3,4) by (auto simp: its split: if_splits)
  with Cons.IH [OF ok] Cons.prems its show ?case by (auto split: if_splits)
qed simp

lemma Less_transmits: "Less a b \<Longrightarrow> transmits a \<le> transmits b"
  by (auto simp: Less_def split: if_splits)

lemma sorted_wrt_Less_transmits:
  "sorted_wrt Less xs \<Longrightarrow> x \<in> set xs \<Longrightarrow> transmits (hd xs) \<le> transmits x \<and> transmits x \<le> transmits (last xs)"
proof (induction xs)
  case (Cons a xs)
  then show ?case
    using Less_transmits [of a x] Less_transmits [of a "last xs"] by (cases "xs = []") auto
qed simp

lemma getTransmitRange_covers:
  assumes L: "btree_laws bt" and ok: "queue_ok bt q" and ne: "items bt q \<noteq> []"
    and r: "getTransmitRange bt q = (mn, mx)"
  shows "\<forall>x \<in> set (items bt q). mn \<le> transmits x \<and> transmits x \<le> mx"
proof -
  have "mn = transmits (hd (items bt q))" "mx = transmits (last (items bt q))"
    using L ok ne r len_items [OF L queue_okD(1) [OF ok]]
    by (auto simp: getTransmitRange_def btree_laws_def items_def queue_ok_def sorted_queue_def)
  then show ?thesis
    using sorted_wrt_Less_transmits queue_okD(1) [OF ok] by (auto simp: sorted_queue_def)
qed

lemma entry_ok_bump: "entry_ok x \<Longrightarrow> entry_ok (x\<lparr>transmits := transmits x + 1\<rparr>)"
  by (simp add: entry_ok_def)

lemma distinct_names:
  assumes "queue_ok bt q" and "distinct xs" and "set xs \<subseteq> set (items bt q)"
  shows "distinct (filter (\<lambda>n. n \<noteq> []) (map lb_name xs))"
  using assms(2,3)
proof (induction xs)
  case (Cons x xs)
  have "lb_name y \<noteq> lb_name x" if "y \<in> set xs" "lb_name x \<noteq> []" for y
    using that Cons.prems queue_okD(3) [OF assms(1), of x] queue_okD(3) [OF assms(1), of y] by auto
  with Cons show ?case by fastforce
qed simp

abbreviation bump :: "limitedBroadcast \<Rightarrow> limitedBroadcast" where
  "bump x \<equiv> x\<lparr>transmits := transmits x + 1\<rparr>"

lemma GetBroadcasts_result:
  assumes L: "btree_laws bt" and ok: "queue_ok bt q" and ov: "0 \<le> overhead" and ne: "items bt q \<noteq> []"
    and tlimit: "tlimit = retransmitLimit lg (mult_of gt q) n"
  obtains sent q1 mn mx where
    "gathered bt tlimit overhead limit mx mn 0 q sent q1"
    "\<forall>x \<in> set (items bt q). mn \<le> transmits x \<and> transmits x \<le> mx"
    "GetBroadcasts bt lg gt n q overhead limit = Some (map (Message \<circ> lb_b) sent,
       foldl (addItem bt) q1 (map bump (filter (\<lambda>x. \<not> transmits x + 1 \<ge> tlimit) sent)))"
proof -
  obtain mn mx where r: "getTransmitRange bt q = (mn, mx)" by force
  have len: "lenLocked bt q = length (items bt q)" by (rule len_items [OF L queue_okD(1) [OF ok]])
  let ?fuel = "lenLocked bt q + nat (mx - mn + 1) + 1"
  from gather_spec [OF L ov ok, of mx mn ?fuel tlimit limit 0 "[]" "[]"]
  obtain sent q1 where g: "gathered bt tlimit overhead limit mx mn 0 q sent q1"
    and res: "gather bt tlimit overhead limit mx ?fuel mn 0 [] [] q =
        Some (map (Message \<circ> lb_b) sent, map bump (filter (\<lambda>x. \<not> transmits x + 1 \<ge> tlimit) sent), q1)"
    by (auto simp: len)
  show ?thesis
    using that [OF g getTransmitRange_covers [OF L ok ne r]] res len ne
    by (simp add: GetBroadcasts_def r tlimit Let_def)
qed

lemma distinct_ids_keys: "distinct (map lb_id xs) \<Longrightarrow> distinct (map lb_key xs)"
  by (induction xs) (auto simp: lb_key_def)

lemma reinsert_ok:
  assumes L: "btree_laws bt" and ok: "queue_ok bt q" and g: "gathered bt tlimit overhead limit mx mn 0 q sent q1"
    and q': "q' = foldl (addItem bt) q1 (map bump (filter (\<lambda>x. \<not> transmits x + 1 \<ge> tlimit) sent))"
  shows "queue_ok bt q'" "finished q' = finished q @ map lb_b (filter (\<lambda>x. transmits x + 1 \<ge> tlimit) sent)"
    and "distinct (map lb_id (items bt q)) \<Longrightarrow>
         set (items bt q') = (set (items bt q) - set sent) \<union>
           bump ` {x \<in> set sent. \<not> transmits x + 1 \<ge> tlimit}"
proof -
  let ?rs = "filter (\<lambda>x. \<not> transmits x + 1 \<ge> tlimit) sent"
  have s: "distinct sent" "set sent \<subseteq> set (items bt q)" "queue_ok bt q1"
      "set (items bt q1) = set (items bt q) - set sent"
      "finished q1 = finished q @ map lb_b (filter (\<lambda>x. transmits x + 1 \<ge> tlimit) sent)"
    using g by (auto simp: gathered_def)
  have ent: "\<forall>r \<in> set (map bump ?rs). entry_ok r"
    using s(2) queue_okD(2) [OF ok] by (auto intro!: entry_ok_bump)
  have "map lb_name (map bump ?rs) = map lb_name ?rs" by simp
  moreover have "distinct (filter (\<lambda>n. n \<noteq> []) (map lb_name ?rs))"
    using s by (intro distinct_names [OF ok]) auto
  ultimately have nm: "distinct (filter (\<lambda>n. n \<noteq> []) (map lb_name (map bump ?rs)))"
    by (simp only:)
  have uniq: "lb_name x \<noteq> lb_name y"
    if "x \<in> set (items bt q)" "y \<in> set (items bt q)" "x \<noteq> y" "lb_name y \<noteq> []" for x y
    using that queue_okD(3) [OF ok, of x] queue_okD(3) [OF ok, of y] by auto
  have fresh: "\<forall>r \<in> set (map bump ?rs). lb_name r \<noteq> [] \<longrightarrow>
      (\<forall>x \<in> set (items bt q1). lb_name x \<noteq> lb_name r)"
  proof (intro ballI impI)
    fix r x assume r: "r \<in> set (map bump ?rs)" "lb_name r \<noteq> []" and x: "x \<in> set (items bt q1)"
    from r(1) obtain y where y: "y \<in> set sent" "r = bump y" by auto
    show "lb_name x \<noteq> lb_name r"
      using uniq [of x y] y r(2) x s(2,4) by auto
  qed
  note add = foldl_addItem_ok [OF L s(3) ent nm fresh, folded q']
  show "queue_ok bt q'" "finished q' = finished q @ map lb_b (filter (\<lambda>x. transmits x + 1 \<ge> tlimit) sent)"
    using add s(5) by auto
  assume ids: "distinct (map lb_id (items bt q))"
  have inj: "lb_id x \<noteq> lb_id y" if "x \<in> set (items bt q)" "y \<in> set (items bt q)" "x \<noteq> y" for x y
    using ids that by (auto simp: distinct_map inj_on_def)
  have key: "lb_key x = lb_key y \<Longrightarrow> lb_id x = lb_id y" for x y by (simp add: lb_key_def)
  have "distinct (map lb_id (map bump ?rs))"
    using s(1,2) inj by (auto simp: distinct_map inj_on_def subset_iff)
  then have "distinct (map lb_key (map bump ?rs))" by (rule distinct_ids_keys)
  moreover have "\<forall>r \<in> set (map bump ?rs). \<forall>x \<in> set (items bt q1). lb_key x \<noteq> lb_key r"
  proof (intro ballI)
    fix r x assume r: "r \<in> set (map bump ?rs)" and x: "x \<in> set (items bt q1)"
    from r obtain y where y: "y \<in> set sent" "r = bump y" by auto
    show "lb_key x \<noteq> lb_key r" using inj [of x y] key [of x r] y x s(2,4) by auto
  qed
  ultimately show "set (items bt q') = (set (items bt q) - set sent) \<union>
           bump ` {x \<in> set sent. \<not> transmits x + 1 \<ge> tlimit}"
    using add s(4) by auto
qed

section \<open>Pruning\<close>

lemma prune_loop_spec:
  assumes L: "btree_laws bt" and r: "0 \<le> maxRetain"
  shows "queue_ok bt q \<Longrightarrow> length (items bt q) < fuel \<Longrightarrow>
    \<exists>q'. prune_loop bt maxRetain fuel q = Some q' \<and> queue_ok bt q' \<and>
      items bt q' = take (nat maxRetain) (items bt q) \<and>
      finished q' = finished q @ map lb_b (rev (drop (nat maxRetain) (items bt q)))"
proof (induction fuel arbitrary: q)
  case (Suc fuel)
  have len: "bt_len bt (tree bt q) = length (items bt q)"
    and mx: "bt_max bt (tree bt q) = (if items bt q = [] then None else Some (last (items bt q)))"
    using L queue_okD(1) [OF Suc.prems(1)] by (auto simp: btree_laws_def sorted_queue_def items_def)
  show ?case
  proof (cases "int (length (items bt q)) > maxRetain")
    case True
    then obtain xs x where its: "items bt q = xs @ [x]" using r by (cases "items bt q" rule: rev_cases) auto
    let ?q = "deleteItem bt (Finished (lb_b x) q) x"
    have okf: "queue_ok bt (Finished (lb_b x) q)" using Suc.prems(1) by (simp add: queue_ok_Finished)
    then have ok: "queue_ok bt ?q" by (intro queue_ok_deleteItem [OF L]) (auto simp: its)
    have "x \<notin> set xs"
      using queue_okD(1) [OF Suc.prems(1)] sorted_wrt_Less_distinct_items [of "xs @ [x]"]
      by (auto simp: sorted_queue_def its)
    then have its': "items bt ?q = xs"
      using items_deleteItem_member [OF L queue_okD(1) [OF okf], of x] by (auto simp: its intro: filter_True)
    have "length (items bt ?q) < fuel" using Suc.prems(2) by (simp add: its' its)
    from Suc.IH [OF ok this] obtain q' where q': "prune_loop bt maxRetain fuel ?q = Some q'" "queue_ok bt q'"
      "items bt q' = take (nat maxRetain) xs" "finished q' = finished ?q @ map lb_b (rev (drop (nat maxRetain) xs))"
      by (auto simp: its')
    have "nat maxRetain \<le> length xs" using True by (simp add: its)
    with q' True show ?thesis by (simp add: len mx its)
  next
    case False
    then have "length (items bt q) \<le> nat maxRetain" using r by linarith
    with False Suc.prems(1) show ?thesis by (simp add: len)
  qed
qed simp

section \<open>Reachable queues\<close>

definition empty_queue :: "int \<Rightarrow> 't tlq" where
  "empty_queue sm = \<lparr>RetransmitMult = sm, tq = None, tm = Map.empty, idGen = 0, finished = []\<rparr>"

inductive queue_reach :: "'t btree \<Rightarrow> 't tlq \<Rightarrow> bool" for bt where
  start: "queue_reach bt (empty_queue sm)"
| enqueue: "queue_reach bt q \<Longrightarrow> int (length (Message b)) \<le> MaxInt64 \<Longrightarrow>
     queue_reach bt (QueueBroadcast bt uinv q b)"
| fetch: "queue_reach bt q \<Longrightarrow> 0 \<le> overhead \<Longrightarrow>
     GetBroadcasts bt lg gt n q overhead limit = Some (msgs, q') \<Longrightarrow> queue_reach bt q'"
| prune: "queue_reach bt q \<Longrightarrow> 0 \<le> maxRetain \<Longrightarrow> Prune bt q maxRetain = Some q' \<Longrightarrow> queue_reach bt q'"
| reset: "queue_reach bt q \<Longrightarrow> queue_reach bt (Reset bt q)"

lemma queue_ok_empty [inv_intros]: "btree_laws bt \<Longrightarrow> queue_ok bt (empty_queue sm)"
  by (simp add: queue_ok_def sorted_queue_def empty_queue_def items_new)

lemma GetBroadcasts_empty:
  assumes "btree_laws bt" and "queue_ok bt q" and "items bt q = []"
  shows "GetBroadcasts bt lg gt n q overhead limit = Some ([], q)"
  using len_items [OF assms(1) queue_okD(1) [OF assms(2)]] assms(3) by (simp add: GetBroadcasts_def)

lemma GetBroadcasts_ok [inv_intros]:
  assumes L: "btree_laws bt" and ok: "queue_ok bt q" and ov: "0 \<le> overhead"
    and r: "GetBroadcasts bt lg gt n q overhead limit = Some (msgs, q')"
  shows "queue_ok bt q'"
proof (cases "items bt q = []")
  case True
  then show ?thesis using r ok GetBroadcasts_empty [OF L ok True] by simp
next
  case False
  show ?thesis
  proof (rule GetBroadcasts_result [OF L ok ov False refl, of lg gt n limit])
    fix sent q1 mn mx
    assume g: "gathered bt (retransmitLimit lg (mult_of gt q) n) overhead limit mx mn 0 q sent q1"
      and e: "GetBroadcasts bt lg gt n q overhead limit = Some (map (Message \<circ> lb_b) sent,
         foldl (addItem bt) q1 (map bump (filter (\<lambda>x. \<not> transmits x + 1 \<ge>
           retransmitLimit lg (mult_of gt q) n) sent)))"
    from r have "q' = foldl (addItem bt) q1 (map bump (filter (\<lambda>x. \<not> transmits x + 1 \<ge>
           retransmitLimit lg (mult_of gt q) n) sent))"
      unfolding e by (simp only: option.inject prod.inject)
    from reinsert_ok(1) [OF L ok g this] show ?thesis .
  qed
qed

text \<open>The queue is a source of broadcasts for the packet code.\<close>

lemma GetBroadcasts_fits:
  assumes L: "btree_laws bt" and ok: "queue_ok bt q" and ov: "0 \<le> overhead"
  shows "\<exists>ms q'. GetBroadcasts bt lg gt n q overhead limit = Some (ms, q') \<and> queue_ok bt q' \<and>
     (ms = [] \<or> sum_list (map (\<lambda>m. int (length m) + overhead) ms) \<le> limit)"
proof (cases "items bt q = []")
  case True
  then show ?thesis using GetBroadcasts_empty [OF L ok True] ok by simp
next
  case False
  show ?thesis
  proof (rule GetBroadcasts_result [OF L ok ov False refl, of lg gt n limit])
    fix sent q1 mn mx
    let ?l = "retransmitLimit lg (mult_of gt q) n"
    let ?q' = "foldl (addItem bt) q1 (map bump (filter (\<lambda>x. \<not> transmits x + 1 \<ge> ?l) sent))"
    assume g: "gathered bt ?l overhead limit mx mn 0 q sent q1"
      and e: "GetBroadcasts bt lg gt n q overhead limit = Some (map (Message \<circ> lb_b) sent, ?q')"
    have "sent \<noteq> [] \<Longrightarrow> cost overhead sent \<le> limit" using g by (simp add: gathered_def)
    moreover have "sum_list (map (\<lambda>m. int (length m) + overhead) (map (Message \<circ> lb_b) sent)) = cost overhead sent"
      by (simp add: comp_def add.commute)
    ultimately show ?thesis
      using e reinsert_ok(1) [OF L ok g refl] by (intro exI [of _ "map (Message \<circ> lb_b) sent"] exI [of _ ?q']) auto
  qed
qed

interpretation tlq: broadcast_source "\<lambda>q. btree_laws bt \<and> queue_ok bt q" "GetBroadcasts bt lg gt n" for bt lg gt n
  using GetBroadcasts_fits by unfold_locales blast

lemma Prune_result:
  assumes L: "btree_laws bt" and ok: "queue_ok bt q" and r: "0 \<le> maxRetain" and t: "tq q = Some t"
  shows "\<exists>q'. Prune bt q maxRetain = Some q' \<and> queue_ok bt q' \<and>
      items bt q' = take (nat maxRetain) (items bt q) \<and>
      finished q' = finished q @ map lb_b (rev (drop (nat maxRetain) (items bt q)))"
proof -
  have "bt_len bt t = length (items bt q)"
    using len_items [OF L queue_okD(1) [OF ok]] t by (simp add: lenLocked_def)
  then have "Prune bt q maxRetain = prune_loop bt maxRetain (length (items bt q) + 1) q"
    using t by (simp only: Prune_def option.case)
  then show ?thesis using prune_loop_spec [OF L r ok, of "length (items bt q) + 1"] by simp
qed

lemma queue_ok_Reset [inv_intros]: "btree_laws bt \<Longrightarrow> queue_ok bt (Reset bt q)"
  by (simp add: queue_ok_def sorted_queue_def Reset_def Let_def items_new)

lemma QueueBroadcast_ok [inv_intros]:
  assumes "btree_laws bt" and "queue_ok bt q" and "int (length (Message b)) \<le> MaxInt64"
  shows "queue_ok bt (QueueBroadcast bt uinv q b)"
  unfolding QueueBroadcast_def by (rule queueBroadcast_ok [OF assms order_refl])

lemma queue_reach_ok:
  assumes L: "btree_laws bt"
  shows "queue_reach bt q \<Longrightarrow> queue_ok bt q"
proof (induction rule: queue_reach.induct)
  case (start sm)
  show ?case by (rule queue_ok_empty [OF L])
next
  case (enqueue q b uinv)
  show ?case by (rule QueueBroadcast_ok [OF L enqueue.IH enqueue.hyps(2)])
next
  case (fetch q overhead lg n limit msgs q')
  show ?case by (rule GetBroadcasts_ok [OF L fetch.IH fetch.hyps(2,3)])
next
  case (prune q maxRetain q')
  then obtain t where "tq q = Some t" by (auto simp: Prune_def split: option.splits)
  from Prune_result [OF L prune.IH prune.hyps(2) this] prune.hyps(3) show ?case by auto
next
  case (reset q)
  show ?case by (rule queue_ok_Reset [OF L])
qed

text \<open>A queue that holds one message, for evaluation.\<close>

definition one_entry :: "string \<Rightarrow> bytes \<Rightarrow> limitedBroadcast list tlq" where
  "one_entry node msg = QueueBroadcast list_btree (\<lambda>_ _. False) (empty_queue 4) (MemberlistBroadcast node msg None)"

lemma one_entry_eval:
  assumes "node \<noteq> []"
  shows "one_entry node msg = \<lparr>RetransmitMult = 4, tq = Some [mk_lb (MemberlistBroadcast node msg None) 0 1],
    tm = [node \<mapsto> mk_lb (MemberlistBroadcast node msg None) 0 1], idGen = 1, finished = []\<rparr>"
  using assms
  by (simp add: one_entry_def QueueBroadcast_def queueBroadcast_def empty_queue_def lazyInit_def next_id_def
      mk_lb_def addItem_def tree_def list_btree_def os_insert_def Let_def)

lemma one_entry_items:
  assumes "node \<noteq> []"
  shows "items list_btree (one_entry node msg) = [mk_lb (MemberlistBroadcast node msg None) 0 1]"
  by (simp add: one_entry_eval [OF assms] items_def tree_def list_btree_def)

lemma one_entry_reach: "int (length msg) \<le> MaxInt64 \<Longrightarrow> queue_reach list_btree (one_entry node msg)"
  unfolding one_entry_def by (intro queue_reach.intros) simp

lemma one_entry_ok: "int (length msg) \<le> MaxInt64 \<Longrightarrow> queue_ok list_btree (one_entry node msg)"
  by (rule queue_reach_ok [OF list_btree_laws one_entry_reach])

text \<open>Two ten-byte messages, the second queued after the first has been sent once.\<close>

definition msg10 :: "byte \<Rightarrow> bytes" where "msg10 c = replicate 10 c"

abbreviation lbA :: limitedBroadcast where
  "lbA \<equiv> mk_lb (MemberlistBroadcast ''a'' (msg10 1) None) 0 1"

lemma len_msg10 [simp]: "length (msg10 c) = 10" by (simp add: msg10_def)

lemma retransmitLimit_nine: "retransmitLimit (log 10) 4 9 = 4"
  by (simp add: retransmitLimit_def)

lemmas queue_eval = GetBroadcasts_def lenLocked_def getTransmitRange_def pick_def deleteItem_def addItem_def tree_def
  list_btree_def os_insert_def os_delete_def os_range_def Less_def mk_lb_def Let_def retransmitLimit_nine Finished_def mult_of_def

definition first_sent :: "limitedBroadcast list tlq" where
  "first_sent = \<lparr>RetransmitMult = 4, tq = Some [lbA\<lparr>transmits := 1\<rparr>], tm = [''a'' \<mapsto> lbA\<lparr>transmits := 1\<rparr>], idGen = 0, finished = []\<rparr>"

lemma first_fetch: "GetBroadcasts list_btree (log 10) None 9 (one_entry ''a'' (msg10 1)) 2 12 = Some ([msg10 1], first_sent)"
  by (simp add: one_entry_eval queue_eval first_sent_def eval_nat_numeral)

definition second_queued :: "limitedBroadcast list tlq" where
  "second_queued = QueueBroadcast list_btree (\<lambda>_ _. False) first_sent (MemberlistBroadcast ''b'' (msg10 2) None)"

lemma second_queued_eval: "second_queued = \<lparr>RetransmitMult = 4,
    tq = Some [mk_lb (MemberlistBroadcast ''b'' (msg10 2) None) 0 1, lbA\<lparr>transmits := 1\<rparr>],
    tm = [''a'' \<mapsto> lbA\<lparr>transmits := 1\<rparr>, ''b'' \<mapsto> mk_lb (MemberlistBroadcast ''b'' (msg10 2) None) 0 1], idGen = 1, finished = []\<rparr>"
  by (simp add: second_queued_def first_sent_def QueueBroadcast_def queueBroadcast_def lazyInit_def next_id_def queue_eval)

lemma second_fetch: "\<exists>q. GetBroadcasts list_btree (log 10) None 9 second_queued 2 12 = Some ([msg10 2], q) \<and>
   items list_btree q = [(mk_lb (MemberlistBroadcast ''b'' (msg10 2) None) 1 1)] \<and>
   tm q ''a'' = Some (lbA\<lparr>transmits := 1\<rparr>) \<and> finished q = []"
  by (simp add: second_queued_eval items_def queue_eval eval_nat_numeral)

section \<open>Properties\<close>

text \<open>
  C19. Every queue the operations can produce is well-formed: its entries are in transmission
  order; each has the length and name of its broadcast and a transmission count that is not negative;
  an entry with a name is the one that the index gives for that name, so no two entries carry the same
  name; and what the index gives for a name carries that name. (That every broadcast in the index is
  still queued does not hold: \<open>GetBroadcasts_loses_on_id_reuse\<close> reaches a queue where one is not.)
\<close>

theorem queue_invariant:
  assumes "btree_laws bt" and "queue_reach bt q"
  shows "sorted_wrt Less (items bt q) \<and>
    (\<forall>x \<in> set (items bt q). msgLen x = int (length (Message (lb_b x))) \<and> 0 \<le> transmits x \<and>
       lb_name x = (case Name_of (lb_b x) of Some n \<Rightarrow> n | None \<Rightarrow> [])) \<and>
    (\<forall>x \<in> set (items bt q). lb_name x \<noteq> [] \<longrightarrow> tm q (lb_name x) = Some x) \<and>
    inj_on lb_name {x \<in> set (items bt q). lb_name x \<noteq> []} \<and>
    (\<forall>n x. tm q n = Some x \<longrightarrow> lb_name x = n)"
proof -
  have ok: "queue_ok bt q" using assms by (rule queue_reach_ok)
  have "inj_on lb_name {x \<in> set (items bt q). lb_name x \<noteq> []}"
    using queue_okD(3) [OF ok] by (intro inj_onI) (metis (mono_tags, lifting) mem_Collect_eq option.inject)
  then show ?thesis
    using ok unfolding queue_ok_def sorted_queue_def entry_ok_def by blast
qed

theorem queue_invariant_witness:
  "tm (one_entry ''n1'' [1, 2]) ''n1'' = Some (mk_lb (MemberlistBroadcast ''n1'' [1, 2] None) 0 1)"
proof -
  let ?x = "mk_lb (MemberlistBroadcast ''n1'' [1, 2] None) 0 1"
  have r: "queue_reach list_btree (one_entry ''n1'' [1, 2])" by (rule one_entry_reach) simp
  have x: "?x \<in> set (items list_btree (one_entry ''n1'' [1, 2]))" by (simp add: one_entry_items)
  have n: "lb_name ?x = ''n1''" by (simp add: mk_lb_def)
  have "lb_name ?x \<noteq> [] \<longrightarrow> tm (one_entry ''n1'' [1, 2]) (lb_name ?x) = Some ?x"
    using queue_invariant [OF list_btree_laws r] x by blast
  then show ?thesis by (simp only: n) simp
qed

text \<open>
  C20. A packet's worth of broadcasts: on a well-formed queue \<open>GetBroadcasts\<close> always returns;
  the messages are those of distinct queued entries, fewest transmissions first; with the
  overhead of each they stay within the byte limit; and no entry left out would still have
  fitted into the room that remains.
\<close>

theorem GetBroadcasts_fills_packet:
  assumes "btree_laws bt" and "queue_ok bt q" and "0 \<le> overhead"
  shows "\<exists>sent q'. GetBroadcasts bt lg gt n q overhead limit = Some (map (Message \<circ> lb_b) sent, q') \<and>
     distinct sent \<and> set sent \<subseteq> set (items bt q) \<and> sorted (map transmits sent) \<and>
     (sent = [] \<or> cost overhead sent \<le> limit) \<and>
     (\<forall>x \<in> set (items bt q) - set sent.
        limit - cost overhead sent - overhead \<le> 0 \<or>
        int (length (Message (lb_b x))) > limit - cost overhead sent - overhead)"
proof (cases "items bt q = []")
  case True
  with GetBroadcasts_empty [OF assms(1,2) True] show ?thesis
    by (intro exI [of _ "[]"] exI [of _ q]) simp
next
  case False
  show ?thesis
  proof (rule GetBroadcasts_result [OF assms False refl, of lg gt n limit])
    fix sent q1 mn mx
    let ?l = "retransmitLimit lg (mult_of gt q) n"
    assume g: "gathered bt ?l overhead limit mx mn 0 q sent q1"
      and rng: "\<forall>x \<in> set (items bt q). mn \<le> transmits x \<and> transmits x \<le> mx"
      and r: "GetBroadcasts bt lg gt n q overhead limit = Some (map (Message \<circ> lb_b) sent,
         foldl (addItem bt) q1 (map bump (filter (\<lambda>x. \<not> transmits x + 1 \<ge> ?l) sent)))"
    show ?thesis
      by (rule exI [of _ sent], rule exI, rule conjI, rule r) (use g rng in \<open>auto simp: gathered_def Let_def\<close>)
  qed
qed

theorem GetBroadcasts_fills_packet_witness:
  "\<exists>sent q'. GetBroadcasts list_btree (log 10) None 9 (one_entry ''n1'' [1, 2]) 2 12 =
        Some (map (Message \<circ> lb_b) sent, q') \<and> (sent = [] \<or> cost 2 sent \<le> 12)"
proof -
  have "queue_ok list_btree (one_entry ''n1'' [1, 2])" by (rule one_entry_ok) simp
  from GetBroadcasts_fills_packet [OF list_btree_laws this, of 2 "log 10" None 9 12]
  obtain sent q' where "GetBroadcasts list_btree (log 10) None 9 (one_entry ''n1'' [1, 2]) 2 12 =
        Some (map (Message \<circ> lb_b) sent, q')" "sent = [] \<or> cost 2 sent \<le> 12" by auto
  then show ?thesis by (intro exI conjI)
qed

text \<open>
  C21. Retransmission bookkeeping: when the entries of the queue have distinct ids, what a call
  of \<open>GetBroadcasts\<close> sent stays queued with its count raised by one, or, once the retransmit
  limit is reached, leaves the queue with its \<open>Finished\<close> callback run; every other entry is
  untouched.
\<close>

theorem GetBroadcasts_retransmits:
  assumes "btree_laws bt" and "queue_ok bt q" and "0 \<le> overhead" and "items bt q \<noteq> []"
    and "distinct (map lb_id (items bt q))" and "tlimit = retransmitLimit lg (mult_of gt q) n"
  shows "\<exists>sent q'. GetBroadcasts bt lg gt n q overhead limit = Some (map (Message \<circ> lb_b) sent, q') \<and>
     set sent \<subseteq> set (items bt q) \<and>
     set (items bt q') = (set (items bt q) - set sent) \<union> bump ` {x \<in> set sent. transmits x + 1 < tlimit} \<and>
     finished q' = finished q @ map lb_b (filter (\<lambda>x. transmits x + 1 \<ge> tlimit) sent)"
proof (rule GetBroadcasts_result [OF assms(1-4,6), of limit])
  fix sent q1 mn mx
  let ?q' = "foldl (addItem bt) q1 (map bump (filter (\<lambda>x. \<not> transmits x + 1 \<ge> tlimit) sent))"
  assume g: "gathered bt tlimit overhead limit mx mn 0 q sent q1"
    and r: "GetBroadcasts bt lg gt n q overhead limit = Some (map (Message \<circ> lb_b) sent, ?q')"
  have "set sent \<subseteq> set (items bt q)" using g by (simp add: gathered_def)
  moreover have "finished ?q' = finished q @ map lb_b (filter (\<lambda>x. transmits x + 1 \<ge> tlimit) sent)"
    by (rule reinsert_ok(2) [OF assms(1,2) g refl])
  moreover have "set (items bt ?q') =
      (set (items bt q) - set sent) \<union> bump ` {x \<in> set sent. transmits x + 1 < tlimit}"
    using reinsert_ok(3) [OF assms(1,2) g refl assms(5)] by (simp only: not_le)
  ultimately show ?thesis using r by (intro exI conjI)
qed

theorem GetBroadcasts_retransmits_witness:
  "\<exists>(sent :: limitedBroadcast list) q'. GetBroadcasts list_btree (log 10) None 9 (one_entry ''n1'' [1, 2]) 2 12 =
        Some (map (Message \<circ> lb_b) sent, q') \<and> finished q' =
          [] @ map lb_b (filter (\<lambda>x. transmits x + 1 \<ge> retransmitLimit (log 10) 4 9) sent)"
proof -
  let ?q = "one_entry ''n1'' [1, 2]"
  have ok: "queue_ok list_btree ?q" by (rule one_entry_ok) simp
  have i: "items list_btree ?q \<noteq> []" "distinct (map lb_id (items list_btree ?q))"
    by (simp_all add: one_entry_items)
  have m: "finished ?q = []" "mult_of None ?q = 4" by (simp_all add: one_entry_eval mult_of_def)
  from GetBroadcasts_retransmits [OF list_btree_laws ok zero_le_numeral i, of "retransmitLimit (log 10) 4 9" "log 10" None 9 "num.Bit0 num.One" 12, unfolded m(2), OF refl]
  obtain sent :: "limitedBroadcast list" and q' where "GetBroadcasts list_btree (log 10) None 9 ?q 2 12 = Some (map (Message \<circ> lb_b) sent, q')"
    "finished q' = finished ?q @ map lb_b (filter (\<lambda>x. transmits x + 1 \<ge> retransmitLimit (log 10) 4 9) sent)"
    by blast
  then show ?thesis unfolding m(1) by (intro exI conjI)
qed

text \<open>
  A new broadcast about a node supersedes the queued one: afterwards the queue holds exactly
  one entry with that name, it carries the new message with no transmission counted, and nothing
  else has been added.
\<close>

theorem QueueBroadcast_supersedes:
  assumes "btree_laws bt" and "queue_ok bt q" and "int (length (Message b)) \<le> MaxInt64"
    and "Name_of b = Some node" and "node \<noteq> []"
  shows "\<exists>lb. {x \<in> set (items bt (QueueBroadcast bt uinv q b)). lb_name x = node} = {lb} \<and>
     lb_b lb = b \<and> transmits lb = 0 \<and>
     set (items bt (QueueBroadcast bt uinv q b)) \<subseteq> insert lb (set (items bt q))"
proof (rule queueBroadcast_ok [OF assms(1-3) order_refl, of uinv, folded QueueBroadcast_def])
  fix lb
  let ?q = "QueueBroadcast bt uinv q b"
  assume lb: "queue_ok bt ?q" "lb_b lb = b" "transmits lb = 0"
    "lb_name lb = (case Name_of b of Some n \<Rightarrow> n | None \<Rightarrow> [])" "lb \<in> set (items bt ?q)"
    "set (items bt ?q) \<subseteq> insert lb (set (items bt q))"
  have n: "lb_name lb = node" using lb(4) assms(4) by simp
  have "x = lb" if "x \<in> set (items bt ?q)" "lb_name x = node" for x
    using queue_okD(3) [OF lb(1) that(1)] queue_okD(3) [OF lb(1) lb(5)] that(2) n assms(5) by simp
  then have "{x \<in> set (items bt ?q). lb_name x = node} = {lb}" using lb(5) n by blast
  with lb show ?thesis by (intro exI [of _ lb] conjI)
qed

theorem QueueBroadcast_supersedes_witness:
  "\<exists>lb. lb_b lb = MemberlistBroadcast ''n1'' [7] None \<and>
     {x \<in> set (items list_btree (QueueBroadcast list_btree (\<lambda>_ _. False) (one_entry ''n1'' [1, 2])
         (MemberlistBroadcast ''n1'' [7] None))). lb_name x = ''n1''} = {lb}"
proof -
  have ok: "queue_ok list_btree (one_entry ''n1'' [1, 2])" by (rule one_entry_ok) simp
  from QueueBroadcast_supersedes [OF list_btree_laws ok, of "MemberlistBroadcast ''n1'' [7] None" "''n1''" "\<lambda>_ _. False"]
  show ?thesis by auto
qed

text \<open>
  \<open>Prune\<close> returns on every well-formed queue that has been used, keeps the \<open>maxRetain\<close>
  entries that are first in transmission order and runs \<open>Finished\<close> for each of the others,
  most transmitted first.
\<close>

theorem Prune_keeps_first:
  assumes "btree_laws bt" and "queue_ok bt q" and "0 \<le> maxRetain" and "tq q = Some t"
  shows "\<exists>q'. Prune bt q maxRetain = Some q' \<and> queue_ok bt q' \<and>
      items bt q' = take (nat maxRetain) (items bt q) \<and>
      finished q' = finished q @ map lb_b (rev (drop (nat maxRetain) (items bt q)))"
  using assms by (rule Prune_result)

theorem Prune_keeps_first_witness:
  "\<exists>q'. Prune list_btree (one_entry ''n1'' [1, 2]) 0 = Some q' \<and>
     finished q' = [MemberlistBroadcast ''n1'' [1, 2] None]"
proof -
  have ok: "queue_ok list_btree (one_entry ''n1'' [1, 2])" by (rule one_entry_ok) simp
  have t: "tq (one_entry ''n1'' [1, 2]) = Some [mk_lb (MemberlistBroadcast ''n1'' [1, 2] None) 0 1]"
    and f: "finished (one_entry ''n1'' [1, 2]) = []" by (simp_all add: one_entry_eval)
  from Prune_keeps_first [OF list_btree_laws ok order_refl t]
  obtain q' where "Prune list_btree (one_entry ''n1'' [1, 2]) 0 = Some q'"
    "finished q' = finished (one_entry ''n1'' [1, 2]) @
       map lb_b (rev (drop (nat 0) (items list_btree (one_entry ''n1'' [1, 2]))))" by blast
  then show ?thesis by (simp add: f one_entry_items mk_lb_def)
qed

text \<open>
  A broadcast can be lost before its retransmissions are spent. Sending the only entry
  empties the tree, which resets the id generator, and the entry is put back with its old id;
  the next broadcast then gets the same id, and once it has been sent as often, with an equal
  length, it replaces the first one in the tree. The first message is gone after one of its four
  transmissions, its \<open>Finished\<close> callback never runs and the name index still points at it.
\<close>

theorem GetBroadcasts_loses_on_id_reuse:
  "\<exists>q1 q2. GetBroadcasts list_btree (log 10) None 9 (one_entry ''a'' (msg10 1)) 2 12 = Some ([msg10 1], q1) \<and>
     GetBroadcasts list_btree (log 10) None 9
       (QueueBroadcast list_btree (\<lambda>_ _. False) q1 (MemberlistBroadcast ''b'' (msg10 2) None)) 2 12 =
       Some ([msg10 2], q2) \<and>
     ''a'' \<notin> lb_name ` set (items list_btree q2) \<and> tm q2 ''a'' \<noteq> None \<and> finished q2 = [] \<and>
     retransmitLimit (log 10) 4 9 = 4"
proof -
  obtain q2 where q2: "GetBroadcasts list_btree (log 10) None 9 second_queued 2 12 = Some ([msg10 2], q2)"
    "items list_btree q2 = [mk_lb (MemberlistBroadcast ''b'' (msg10 2) None) 1 1]"
    "tm q2 ''a'' = Some (lbA\<lparr>transmits := 1\<rparr>)" "finished q2 = []"
    using second_fetch by blast
  have "''a'' \<notin> lb_name ` set (items list_btree q2)" by (simp add: q2(2) mk_lb_def)
  with q2 show ?thesis
    by (intro exI [of _ first_sent] exI [of _ q2] conjI)
      (simp_all only: first_fetch second_queued_def [symmetric] retransmitLimit_nine option.distinct not_False_eq_True)
qed

end
