(* ===== verification/Member_State.thy ===== *)
theory Member_State
  imports Messages Awareness Suspicion Gossip_Queue
begin

text \<open>
  The membership table of \<open>memberlist/state.go\<close> and the broadcasts it sends
  (\<open>memberlist.go\<close>). \<open>m.nodes\<close> and \<open>m.nodeMap\<close> share pointers to \<open>nodeState\<close> objects,
  so the state has an explicit heap of them; likewise the suspicion timers, which keep running
  when they are dropped from \<open>m.nodeTimers\<close>. Calls of the event and conflict delegates are
  recorded in order. Each function below runs under \<open>nodeLock\<close>, so it is one step; the
  callback of a suspicion timer takes the lock twice and is two steps. The clock reading and
  the random number a function draws are arguments.
\<close>

section \<open>State\<close>

text \<open>The configuration the code reads and the code outside the repository it calls.\<close>

record ('t, 'ip) env =
  c_Name :: string
  c_BindPort :: int
  c_ProtocolVersion :: u8
  c_DelegateProtocolMin :: u8
  c_DelegateProtocolMax :: u8
  c_DelegateProtocolVersion :: u8
  c_SuspicionMult :: int
  c_SuspicionMaxTimeoutMult :: int
  c_ProbeInterval :: duration
  c_RetransmitMult :: int
  c_DeadNodeReclaimTime :: duration
  c_GossipToTheDeadTime :: duration
  c_CIDRsAllowed :: "('ip \<Rightarrow> bool) list"
  c_Alive :: "(Node \<Rightarrow> string option) option"
  c_Events :: bool
  c_Conflict :: bool
  x_btree :: "'t btree"
  x_codec :: codec
  x_resolver :: "'ip resolver"
  x_log10 :: "real \<Rightarrow> real"
  x_log :: "real \<Rightarrow> real"

datatype notification =
    NotifyJoin Node
  | NotifyLeave Node
  | NotifyUpdate Node
  | NotifyWeight Node
  | NotifySuspectSateChange Node
  | NotifyConflict Node Node

record susp_timer =
  t_sus :: suspicion
  t_node :: string
  t_change :: time

text \<open>
  \<open>started\<close> lists the suspicion timers whose timeout function has been started but has not
  yet run, \<open>deadq\<close> the dead messages such a function has built and not yet handled.
\<close>

record 't memberlist =
  sequenceNum :: u32
  incarnation :: u32
  numNodes :: u32
  m_shutdown :: bool
  m_leave :: bool
  heap :: "nat \<Rightarrow> nodeState"
  nextRef :: nat
  nodes :: "nat list"
  nodeMap :: "string \<rightharpoonup> nat"
  timers :: "nat \<Rightarrow> susp_timer"
  nextTimer :: nat
  nodeTimers :: "string \<rightharpoonup> nat"
  started :: "nat list"
  deadq :: "dead list"
  m_awareness :: awareness
  probeIndex :: nat
  broadcasts :: "'t tlq"
  notified :: "notification list"

definition hasLeft :: "'t memberlist \<Rightarrow> bool" where
  "hasLeft m \<longleftrightarrow> m_leave m"

definition nextSeqNo :: "'t memberlist \<Rightarrow> u32 \<times> 't memberlist" where
  "nextSeqNo m = (sequenceNum m + 1, m\<lparr>sequenceNum := sequenceNum m + 1\<rparr>)"

definition nextIncarnation :: "'t memberlist \<Rightarrow> u32 \<times> 't memberlist" where
  "nextIncarnation m = (incarnation m + 1, m\<lparr>incarnation := incarnation m + 1\<rparr>)"

definition skipIncarnation :: "u32 \<Rightarrow> 't memberlist \<Rightarrow> u32 \<times> 't memberlist" where
  "skipIncarnation offset m = (incarnation m + offset, m\<lparr>incarnation := incarnation m + offset\<rparr>)"

definition estNumNodes :: "'t memberlist \<Rightarrow> int" where
  "estNumNodes m = uint (numNodes m)"

definition upd_node :: "nat \<Rightarrow> (nodeState \<Rightarrow> nodeState) \<Rightarrow> 't memberlist \<Rightarrow> 't memberlist" where
  "upd_node r f m = m\<lparr>heap := (heap m)(r := f (heap m r))\<rparr>"

definition notify_ev :: "notification \<Rightarrow> 't memberlist \<Rightarrow> 't memberlist" where
  "notify_ev ev m = m\<lparr>notified := notified m @ [ev]\<rparr>"

section \<open>Broadcasting\<close>

definition m_queueBroadcast :: "('t, 'ip) env \<Rightarrow> string \<Rightarrow> bytes \<Rightarrow> nat option \<Rightarrow> 't memberlist \<Rightarrow> 't memberlist" where
  "m_queueBroadcast env nm msg ch m =
     m\<lparr>broadcasts := QueueBroadcast (x_btree env) (\<lambda>_ _. False) (broadcasts m) (MemberlistBroadcast nm msg ch)\<rparr>"

definition encodeBroadcastNotify ::
    "('t, 'ip) env \<Rightarrow> string \<Rightarrow> messageType \<Rightarrow> wire_msg \<Rightarrow> nat option \<Rightarrow> 't memberlist \<Rightarrow> 't memberlist" where
  "encodeBroadcastNotify env nm msgType msg ch m =
     (case encode (x_codec env) msgType msg of
        Inl err \<Rightarrow> m
      | Inr buf \<Rightarrow> m_queueBroadcast env nm buf ch m)"

definition encodeAndBroadcast ::
    "('t, 'ip) env \<Rightarrow> string \<Rightarrow> messageType \<Rightarrow> wire_msg \<Rightarrow> 't memberlist \<Rightarrow> 't memberlist" where
  "encodeAndBroadcast env nm msgType msg m = encodeBroadcastNotify env nm msgType msg None m"

definition encodeWeightMsgAndBroadcast :: "('t, 'ip) env \<Rightarrow> string \<Rightarrow> wire_msg \<Rightarrow> 't memberlist \<Rightarrow> 't memberlist" where
  "encodeWeightMsgAndBroadcast env nm msg m =
     (case encode (x_codec env) weightMsg msg of
        Inl err \<Rightarrow> m
      | Inr buf \<Rightarrow> m\<lparr>broadcasts := QueueBroadcast (x_btree env) (\<lambda>_ _. False) (broadcasts m) (WeightBroadcast nm buf)\<rparr>)"

section \<open>Refutation\<close>

definition versions_of :: "Node \<Rightarrow> u8 list" where
  "versions_of n = [n_PMin n, n_PMax n, n_PCur n, n_DMin n, n_DMax n, n_DCur n]"

definition refute :: "('t, 'ip) env \<Rightarrow> nat \<Rightarrow> u32 \<Rightarrow> 't memberlist \<Rightarrow> 't memberlist" where
  "refute env me accusedInc m =
     (let (inc0, m1) = nextIncarnation m;
          (inc, m2) = (if accusedInc \<ge> inc0 then skipIncarnation (accusedInc - inc0 + 1) m1 else (inc0, m1));
          m3 = upd_node me (\<lambda>s. s\<lparr>s_Incarnation := inc\<rparr>) m2;
          m4 = m3\<lparr>m_awareness := ApplyDelta (m_awareness m3) 1\<rparr>;
          s = heap m4 me;
          a = \<lparr>a_Incarnation = inc, a_Node = s_Name s, a_Addr = s_Addr s, a_Port = s_Port s,
               a_Meta = s_Meta s, a_Vsn = versions_of (s_Node s)\<rparr>
      in encodeAndBroadcast env (s_Addr s) aliveMsg (Alive a) m4)"

section \<open>Alive messages\<close>

text \<open>The filters at the start of \<open>aliveNode\<close>: the message is dropped without any effect.\<close>

definition alive_ignored :: "('t, 'ip) env \<Rightarrow> alive \<Rightarrow> 't memberlist \<Rightarrow> bool" where
  "alive_ignored env a m \<longleftrightarrow>
     (hasLeft m \<and> a_Node a = c_Name env) \<or>
     (length (a_Vsn a) \<ge> 3 \<and> (a_Vsn a ! 0 = 0 \<or> a_Vsn a ! 1 = 0 \<or> a_Vsn a ! 0 > a_Vsn a ! 1)) \<or>
     (case c_Alive env of
        None \<Rightarrow> False
      | Some NotifyAlive \<Rightarrow>
          length (a_Vsn a) < 6 \<or>
          NotifyAlive ((mk_Node (a_Node a) (a_Addr a) (a_Port a) (a_Meta a))
            \<lparr>n_PMin := a_Vsn a ! 0, n_PMax := a_Vsn a ! 1, n_PCur := a_Vsn a ! 2,
             n_DMin := a_Vsn a ! 3, n_DMax := a_Vsn a ! 4, n_DCur := a_Vsn a ! 5\<rparr>) \<noteq> None)"

definition set_versions :: "u8 list \<Rightarrow> Node \<Rightarrow> Node" where
  "set_versions vsn n = n\<lparr>n_PMin := vsn ! 0, n_PMax := vsn ! 1, n_PCur := vsn ! 2,
     n_DMin := vsn ! 3, n_DMax := vsn ! 4, n_DCur := vsn ! 5\<rparr>"

text \<open>
  Finding or creating the entry. \<open>Inl\<close> is an early return; \<open>Inr\<close> gives the entry and
  whether the message may move it to a new address.
\<close>

definition alive_target ::
    "('t, 'ip) env \<Rightarrow> time \<Rightarrow> u32 \<Rightarrow> alive \<Rightarrow> 't memberlist \<Rightarrow> 't memberlist + nat \<times> bool \<times> 't memberlist" where
  "alive_target env now rnd a m =
     (case nodeMap m (a_Node a) of
        None \<Rightarrow>
          if \<not> AddrAllowed (x_resolver env) (c_CIDRsAllowed env) (a_Addr a) then Inl m
          else
            (let n0 = mk_Node (a_Node a) (a_Addr a) (a_Port a) (a_Meta a);
                 n1 = (if length (a_Vsn a) > 5 then set_versions (a_Vsn a) n0 else n0);
                 r = nextRef m;
                 n = length (nodes m);
                 offset = randomOffset n rnd
             in Inr (r, False, m\<lparr>heap := (heap m)(r := NewNodeState n1 StateDead), nextRef := Suc r,
                       nodeMap := (nodeMap m)(a_Node a \<mapsto> r),
                       nodes := swap_at offset n (nodes m @ [r]),
                       numNodes := numNodes m + 1\<rparr>))
      | Some r \<Rightarrow>
          (let s = heap m r in
           if s_Addr s \<noteq> a_Addr a \<or> s_Port s \<noteq> a_Port a then
             if \<not> AddrAllowed (x_resolver env) (c_CIDRsAllowed env) (a_Addr a) then Inl m
             else
               (let canReclaim = (c_DeadNodeReclaimTime env > 0 \<and>
                                  now - s_StateChange s > c_DeadNodeReclaimTime env)
                in if s_State s = StateLeft \<or> (s_State s = StateDead \<and> canReclaim) then Inr (r, True, m)
                   else if c_Conflict env
                   then Inl (notify_ev (NotifyConflict (s_Node s)
                               (mk_Node (a_Node a) (a_Addr a) (a_Port a) (a_Meta a))) m)
                   else Inl m)
           else Inr (r, False, m)))"

definition alive_update :: "time \<Rightarrow> alive \<Rightarrow> nodeState \<Rightarrow> nodeState" where
  "alive_update now a s =
     (let n0 = (if length (a_Vsn a) > 0 then set_versions (a_Vsn a) (s_Node s) else s_Node s);
          s1 = s\<lparr>s_Node := n0\<lparr>n_Meta := a_Meta a, n_Addr := a_Addr a, n_Port := a_Port a\<rparr>,
                 s_Incarnation := a_Incarnation a\<rparr>
      in if s_State s1 \<noteq> StateAlive then s1\<lparr>s_State := StateAlive, s_StateChange := now\<rparr> else s1)"

definition sync_node_state :: "nat \<Rightarrow> 't memberlist \<Rightarrow> 't memberlist" where
  "sync_node_state r m = upd_node r (\<lambda>s. s\<lparr>s_Node := (s_Node s)\<lparr>n_State := s_State s\<rparr>\<rparr>) m"

definition alive_notify ::
    "('t, 'ip) env \<Rightarrow> nat \<Rightarrow> NodeStateType \<Rightarrow> bytes \<Rightarrow> 't memberlist \<Rightarrow> 't memberlist" where
  "alive_notify env r oldState oldMeta m =
     (if \<not> c_Events env then m
      else if oldState = StateDead \<or> oldState = StateLeft then
        (let m1 = sync_node_state r m in notify_ev (NotifyJoin (s_Node (heap m1 r))) m1)
      else if oldState = StateSuspect then
        (let m1 = sync_node_state r m in notify_ev (NotifySuspectSateChange (s_Node (heap m1 r))) m1)
      else if oldMeta \<noteq> s_Meta (heap m r) then notify_ev (NotifyUpdate (s_Node (heap m r))) m
      else m)"

text \<open>
  The rest of \<open>aliveNode\<close> on the entry found. \<open>a.Vsn\<close> is indexed up to 5 as soon as it is
  not empty, so a vector of one to five versions is a panic.
\<close>

definition alive_apply ::
    "('t, 'ip) env \<Rightarrow> time \<Rightarrow> alive \<Rightarrow> nat option \<Rightarrow> bool \<Rightarrow> nat \<Rightarrow> bool \<Rightarrow> 't memberlist \<Rightarrow> 't memberlist option" where
  "alive_apply env now a ch bootstrap r updatesNode m =
     (let s = heap m r; isLocalNode = (s_Name s = c_Name env) in
      if a_Incarnation a \<le> s_Incarnation s \<and> \<not> isLocalNode \<and> \<not> updatesNode then Some m
      else if a_Incarnation a < s_Incarnation s \<and> isLocalNode then Some m
      else
        (let m1 = m\<lparr>nodeTimers := (nodeTimers m)(a_Node a := None)\<rparr>;
             oldState = s_State s; oldMeta = s_Meta s
         in if \<not> bootstrap \<and> isLocalNode then
              if a_Incarnation a = s_Incarnation s \<and> a_Meta a = s_Meta s \<and> a_Vsn a = versions_of (s_Node s)
              then Some m1
              else Some (alive_notify env r oldState oldMeta (refute env r (a_Incarnation a) m1))
            else
              (let m2 = encodeBroadcastNotify env (a_Node a) aliveMsg (Alive a) ch m1 in
               if 0 < length (a_Vsn a) \<and> length (a_Vsn a) < 6 then None
               else Some (alive_notify env r oldState oldMeta (upd_node r (alive_update now a) m2)))))"

definition aliveNode ::
    "('t, 'ip) env \<Rightarrow> time \<Rightarrow> u32 \<Rightarrow> alive \<Rightarrow> nat option \<Rightarrow> bool \<Rightarrow> 't memberlist \<Rightarrow> 't memberlist option" where
  "aliveNode env now rnd a ch bootstrap m =
     (if alive_ignored env a m then Some m
      else
        (case alive_target env now rnd a m of
           Inl m' \<Rightarrow> Some m'
         | Inr (r, updatesNode, m') \<Rightarrow> alive_apply env now a ch bootstrap r updatesNode m'))"

section \<open>Suspect messages\<close>

definition suspicion_k :: "('t, 'ip) env \<Rightarrow> 't memberlist \<Rightarrow> int" where
  "suspicion_k env m =
     (let k = c_SuspicionMult env - 2 in if estNumNodes m - 2 < k then 0 else k)"

definition new_timer :: "('t, 'ip) env \<Rightarrow> time \<Rightarrow> suspect \<Rightarrow> 't memberlist \<Rightarrow> 't memberlist" where
  "new_timer env now s m =
     (let n = estNumNodes m;
          mn = suspicionTimeout (x_log10 env) (c_SuspicionMult env) n (c_ProbeInterval env);
          mx = c_SuspicionMaxTimeoutMult env * mn;
          i = nextTimer m
      in m\<lparr>timers := (timers m)(i := \<lparr>t_sus = newSuspicion now (su_From s) (suspicion_k env m) mn mx,
                                     t_node = su_Node s, t_change = now\<rparr>),
           nextTimer := Suc i,
           nodeTimers := (nodeTimers m)(su_Node s \<mapsto> i)\<rparr>)"

definition suspectNode :: "('t, 'ip) env \<Rightarrow> time \<Rightarrow> suspect \<Rightarrow> 't memberlist \<Rightarrow> 't memberlist" where
  "suspectNode env now s m =
     (case nodeMap m (su_Node s) of
        None \<Rightarrow> m
      | Some r \<Rightarrow>
          if su_Incarnation s < s_Incarnation (heap m r) then m
          else
            (case nodeTimers m (su_Node s) of
               Some i \<Rightarrow>
                 (let (isNew, sus, fire) = Confirm (x_log env) now (t_sus (timers m i)) (su_From s);
                      m1 = m\<lparr>timers := (timers m)(i := (timers m i)\<lparr>t_sus := sus\<rparr>)\<rparr>;
                      m2 = (if fire then m1\<lparr>started := i # started m1\<rparr> else m1)
                  in if isNew then encodeAndBroadcast env (su_Node s) suspectMsg (Suspect s) m2 else m2)
             | None \<Rightarrow>
                 if s_State (heap m r) \<noteq> StateAlive then m
                 else if s_Name (heap m r) = c_Name env then refute env r (su_Incarnation s) m
                 else
                   (let m1 = encodeAndBroadcast env (su_Node s) suspectMsg (Suspect s) m;
                        m2 = upd_node r (\<lambda>t. t\<lparr>s_Incarnation := su_Incarnation s, s_State := StateSuspect,
                                                s_StateChange := now\<rparr>) m1;
                        m3 = new_timer env now s m2
                    in if c_Events env then
                         (let m4 = sync_node_state r m3
                          in notify_ev (NotifySuspectSateChange (s_Node (heap m4 r))) m4)
                       else m3)))"

section \<open>Dead messages and the timeout function\<close>

abbreviation (input) leaveBroadcast :: nat where "leaveBroadcast \<equiv> 0"

definition deadNode :: "('t, 'ip) env \<Rightarrow> time \<Rightarrow> dead \<Rightarrow> 't memberlist \<Rightarrow> 't memberlist" where
  "deadNode env now d m =
     (case nodeMap m (d_Node d) of
        None \<Rightarrow> m
      | Some r \<Rightarrow>
          if d_Incarnation d < s_Incarnation (heap m r) then m
          else
            (let m1 = m\<lparr>nodeTimers := (nodeTimers m)(d_Node d := None)\<rparr> in
             if DeadOrLeft (heap m1 r) then m1
             else if s_Name (heap m1 r) = c_Name env \<and> \<not> hasLeft m1 then refute env r (d_Incarnation d) m1
             else
               (let m2 = (if s_Name (heap m1 r) = c_Name env
                          then encodeBroadcastNotify env (d_Node d) deadMsg (Dead d) (Some leaveBroadcast) m1
                          else encodeAndBroadcast env (d_Node d) deadMsg (Dead d) m1);
                    m3 = upd_node r (\<lambda>t. t\<lparr>s_Incarnation := d_Incarnation d,
                            s_State := (if d_Node d = d_From d then StateLeft else StateDead),
                            s_StateChange := now\<rparr>) m2
                in if c_Events env then notify_ev (NotifyLeave (s_Node (heap m3 r))) m3 else m3)))"

text \<open>
  A timer that reaches its deadline starts its function (\<open>timer_expire\<close>); the function first
  checks under the lock that the node is still in the same suspicion and builds a dead message
  (\<open>timeout_check\<close>), then releases the lock and calls \<open>deadNode\<close> (\<open>timeout_dead\<close>).
\<close>

definition timer_expire :: "time \<Rightarrow> nat \<Rightarrow> 't memberlist \<Rightarrow> 't memberlist option" where
  "timer_expire now i m =
     (if i < nextTimer m then
        (case sus_timer (t_sus (timers m i)) of
           Some deadline \<Rightarrow>
             if deadline \<le> now
             then Some (m\<lparr>timers := (timers m)(i := (timers m i)\<lparr>t_sus := (t_sus (timers m i))\<lparr>sus_timer := None\<rparr>\<rparr>),
                          started := i # started m\<rparr>)
             else None
         | None \<Rightarrow> None)
      else None)"

definition timeout_check :: "('t, 'ip) env \<Rightarrow> nat \<Rightarrow> 't memberlist \<Rightarrow> 't memberlist" where
  "timeout_check env i m =
     (let m1 = m\<lparr>started := remove1 i (started m)\<rparr>; t = timers m i in
      case nodeMap m (t_node t) of
        None \<Rightarrow> m1
      | Some r \<Rightarrow>
          if s_State (heap m r) = StateSuspect \<and> s_StateChange (heap m r) = t_change t
          then m1\<lparr>deadq := \<lparr>d_Incarnation = s_Incarnation (heap m r), d_Node = s_Name (heap m r),
                            d_From = c_Name env\<rparr> # deadq m1\<rparr>
          else m1)"

definition timeout_dead :: "('t, 'ip) env \<Rightarrow> time \<Rightarrow> dead \<Rightarrow> 't memberlist \<Rightarrow> 't memberlist" where
  "timeout_dead env now d m = deadNode env now d (m\<lparr>deadq := remove1 d (deadq m)\<rparr>)"

section \<open>Weight messages\<close>

definition weightNode :: "('t, 'ip) env \<Rightarrow> weight \<Rightarrow> 't memberlist \<Rightarrow> 't memberlist" where
  "weightNode env w m =
     (case nodeMap m (w_Node w) of
        None \<Rightarrow> m
      | Some r \<Rightarrow>
          if w_Incarnation w < s_Incarnation (heap m r) then m
          else if s_State (heap m r) \<noteq> StateAlive \<or> s_Name (heap m r) = c_Name env then m
          else if w_WeightAt w \<le> s_WeightAt (heap m r) then m
          else
            (let m1 = encodeWeightMsgAndBroadcast env (w_Node w) (Weight w) m;
                 old = s_Weight (heap m1 r);
                 m2 = upd_node r (\<lambda>t. t\<lparr>s_Weight := w_Weight w, s_WeightAt := w_WeightAt w\<rparr>) m1
             in if s_Weight (heap m2 r) \<noteq> old \<and> c_Events env then
                  (let m3 = upd_node r (\<lambda>t. t\<lparr>s_Node := (s_Node t)\<lparr>n_Weight := s_Weight t\<rparr>\<rparr>) m2
                   in notify_ev (NotifyWeight (s_Node (heap m3 r))) m3)
                else m2))"

section \<open>Push/pull merging\<close>

text \<open>Each entry is handled with its own clock reading and random number.\<close>

definition merge_one :: "('t, 'ip) env \<Rightarrow> time \<Rightarrow> u32 \<Rightarrow> pushNodeState \<Rightarrow> 't memberlist \<Rightarrow> 't memberlist option" where
  "merge_one env now rnd r m =
     (case p_State r of
        StateAlive \<Rightarrow>
          aliveNode env now rnd \<lparr>a_Incarnation = p_Incarnation r, a_Node = p_Name r, a_Addr = p_Addr r,
            a_Port = p_Port r, a_Meta = p_Meta r, a_Vsn = p_Vsn r\<rparr> None False m
      | StateLeft \<Rightarrow>
          Some (deadNode env now \<lparr>d_Incarnation = p_Incarnation r, d_Node = p_Name r, d_From = p_Name r\<rparr> m)
      | StateDead \<Rightarrow>
          Some (suspectNode env now \<lparr>su_Incarnation = p_Incarnation r, su_Node = p_Name r, su_From = c_Name env\<rparr> m)
      | StateSuspect \<Rightarrow>
          Some (suspectNode env now \<lparr>su_Incarnation = p_Incarnation r, su_Node = p_Name r, su_From = c_Name env\<rparr> m)
      | StateOther _ \<Rightarrow> Some m)"

fun mergeState :: "('t, 'ip) env \<Rightarrow> (pushNodeState \<times> time \<times> u32) list \<Rightarrow> 't memberlist \<Rightarrow> 't memberlist option" where
  "mergeState env [] m = Some m"
| "mergeState env ((r, now, rnd) # remote) m =
     (case merge_one env now rnd r m of None \<Rightarrow> None | Some m' \<Rightarrow> mergeState env remote m')"

end
