(* ===== verification/Node_Lists.thy ===== *)
theory Node_Lists
  imports Member_State
begin

text \<open>
  The node list: \<open>shuffleNodes\<close>, \<open>moveDeadNodes\<close> and \<open>kRandomNodes\<close> of
  \<open>memberlist/util.go\<close>, \<open>resetNodes\<close> of \<open>state.go\<close>, and the read-only views of
  \<open>memberlist.go\<close>. The list holds pointers, so the functions read the nodes through the heap.
  Random numbers are arguments: the positions \<open>rand.Shuffle\<close> draws and the numbers
  \<open>rand.Uint32\<close> returns.
\<close>

section \<open>Operations\<close>

text \<open>
  \<open>rand.Shuffle(n, swap)\<close> calls \<open>swap(i, j)\<close> for \<open>i\<close> from \<open>n - 1\<close> down to \<open>1\<close> with a
  random \<open>j \<le> i\<close>; \<open>draw i\<close> stands for the number drawn.
\<close>

fun shuffle_from :: "nat \<Rightarrow> (nat \<Rightarrow> nat) \<Rightarrow> 'a list \<Rightarrow> 'a list" where
  "shuffle_from 0 draw xs = xs"
| "shuffle_from (Suc i) draw xs =
     (if i = 0 then xs else shuffle_from i draw (swap_at i (draw i mod Suc i) xs))"

definition shuffleNodes :: "(nat \<Rightarrow> nat) \<Rightarrow> 'a list \<Rightarrow> 'a list" where
  "shuffleNodes draw xs = shuffle_from (length xs) draw xs"

definition reapable :: "(nat \<Rightarrow> nodeState) \<Rightarrow> time \<Rightarrow> duration \<Rightarrow> nat \<Rightarrow> bool" where
  "reapable hp now gossipToTheDeadTime r \<longleftrightarrow>
     DeadOrLeft (hp r) \<and> \<not> now - s_StateChange (hp r) \<le> gossipToTheDeadTime"

function moveDead_loop :: "(nat \<Rightarrow> bool) \<Rightarrow> nat \<Rightarrow> nat \<Rightarrow> nat list \<Rightarrow> nat \<times> nat list" where
  "moveDead_loop gone i numDead xs =
     (if i < length xs - numDead then
        if \<not> gone (xs ! i) then moveDead_loop gone (i + 1) numDead xs
        else moveDead_loop gone i (numDead + 1) (swap_at i (length xs - numDead - 1) xs)
      else (length xs - numDead, xs))"
  by pat_completeness auto
termination
  by (relation "measure (\<lambda>(gone, i, numDead, xs). length xs - numDead - i)") auto

definition moveDeadNodes :: "(nat \<Rightarrow> nodeState) \<Rightarrow> time \<Rightarrow> duration \<Rightarrow> nat list \<Rightarrow> nat \<times> nat list" where
  "moveDeadNodes hp now gossipToTheDeadTime xs =
     moveDead_loop (reapable hp now gossipToTheDeadTime) 0 0 xs"

fun kRandom_loop :: "nat \<Rightarrow> (nat \<Rightarrow> nodeState) \<Rightarrow> (nodeState \<Rightarrow> bool) \<Rightarrow> nat list \<Rightarrow> u32 list \<Rightarrow> Node list \<Rightarrow> Node list" where
  "kRandom_loop k hp exclude xs [] kNodes = kNodes"
| "kRandom_loop k hp exclude xs (rnd # rnds) kNodes =
     (if \<not> length kNodes < k then kNodes
      else
        (let state = hp (xs ! randomOffset (length xs) rnd) in
         if exclude state then kRandom_loop k hp exclude xs rnds kNodes
         else if s_Name state \<in> n_Name ` set kNodes then kRandom_loop k hp exclude xs rnds kNodes
         else kRandom_loop k hp exclude xs rnds (kNodes @ [s_Node state])))"

definition kRandomNodes :: "nat \<Rightarrow> (nat \<Rightarrow> nodeState) \<Rightarrow> nat list \<Rightarrow> (nodeState \<Rightarrow> bool) \<Rightarrow> (nat \<Rightarrow> u32) \<Rightarrow> Node list" where
  "kRandomNodes k hp xs exclude rnd = kRandom_loop k hp exclude xs (map rnd [0..<3 * length xs]) []"

definition resetNodes :: "('t, 'ip) env \<Rightarrow> time \<Rightarrow> (nat \<Rightarrow> nat) \<Rightarrow> 't memberlist \<Rightarrow> 't memberlist" where
  "resetNodes env now draw m =
     (let (deadIdx, xs) = moveDeadNodes (heap m) now (c_GossipToTheDeadTime env) (nodes m);
          gone = drop deadIdx xs
      in m\<lparr>nodeMap := foldl (\<lambda>mp r. mp(s_Name (heap m r) := None)) (nodeMap m) gone,
           nodes := shuffleNodes draw (take deadIdx xs),
           numNodes := of_nat deadIdx\<rparr>)"

definition Members :: "'t memberlist \<Rightarrow> Node list" where
  "Members m = map (\<lambda>r. s_Node (heap m r)) (filter (\<lambda>r. \<not> DeadOrLeft (heap m r)) (nodes m))"

definition NumMembers :: "'t memberlist \<Rightarrow> nat" where
  "NumMembers m = length (filter (\<lambda>r. \<not> DeadOrLeft (heap m r)) (nodes m))"

definition anyAlive :: "('t, 'ip) env \<Rightarrow> 't memberlist \<Rightarrow> bool" where
  "anyAlive env m \<longleftrightarrow>
     list_ex (\<lambda>r. \<not> DeadOrLeft (heap m r) \<and> s_Name (heap m r) \<noteq> c_Name env) (nodes m)"

text \<open>\<open>LocalNode\<close> dereferences the map entry without a check.\<close>

definition LocalNode :: "('t, 'ip) env \<Rightarrow> 't memberlist \<Rightarrow> Node option" where
  "LocalNode env m = (case nodeMap m (c_Name env) of None \<Rightarrow> None | Some r \<Rightarrow> Some (s_Node (heap m r)))"

section \<open>Shuffling permutes\<close>

lemma mset_shuffle_from: "n \<le> length xs \<Longrightarrow> mset (shuffle_from n draw xs) = mset xs"
proof (induction n draw xs rule: shuffle_from.induct)
  case (2 i draw xs)
  have j: "draw i mod Suc i < length xs"
    using 2(2) mod_less_divisor [of "Suc i" "draw i"] by linarith
  show ?case using 2 j by (cases "i = 0") simp_all
qed simp

lemma mset_shuffleNodes [simp]: "mset (shuffleNodes draw xs) = mset xs"
  by (simp add: shuffleNodes_def mset_shuffle_from)

lemma set_shuffleNodes [simp]: "set (shuffleNodes draw xs) = set xs"
  by (metis mset_shuffleNodes set_mset_mset)

lemma length_shuffleNodes [simp]: "length (shuffleNodes draw xs) = length xs"
  by (metis mset_shuffleNodes size_mset)

lemma distinct_shuffleNodes [simp]: "distinct (shuffleNodes draw xs) = distinct xs"
  by (metis mset_shuffleNodes mset_eq_imp_distinct_iff)

section \<open>The dead are moved behind the others\<close>

declare moveDead_loop.simps [simp del]

lemma moveDead_loop_spec:
  assumes "moveDead_loop gone i nd xs = (k, ys)" and "i + nd \<le> length xs"
    and "\<forall>j < i. \<not> gone (xs ! j)" and "\<forall>j. length xs - nd \<le> j \<and> j < length xs \<longrightarrow> gone (xs ! j)"
  shows "mset ys = mset xs \<and> k \<le> length xs \<and>
    (\<forall>j < k. \<not> gone (ys ! j)) \<and> (\<forall>j. k \<le> j \<and> j < length xs \<longrightarrow> gone (ys ! j))"
  using assms
proof (induction gone i nd xs rule: moveDead_loop.induct)
  case (1 gone i nd xs)
  show ?case
  proof (cases "i < length xs - nd")
    case False
    then have i: "i = length xs - nd" using 1(4) by linarith
    have "moveDead_loop gone i nd xs = (length xs - nd, xs)"
      using False by (simp add: moveDead_loop.simps [of gone i nd xs])
    then have "k = length xs - nd" "ys = xs" using 1(3) by simp_all
    then show ?thesis using 1(5,6) i by simp
  next
    case True
    show ?thesis
    proof (cases "gone (xs ! i)")
      case False
      have "\<forall>j < i + 1. \<not> gone (xs ! j)" using 1(5) False by (auto simp: less_Suc_eq)
      then show ?thesis
        using 1(1) [OF True False] 1(3,6) True False by (simp add: moveDead_loop.simps [of gone i nd xs])
    next
      case g: True
      let ?e = "length xs - nd - 1"
      let ?xs = "swap_at i ?e xs"
      have e: "?e < length xs" "i \<le> ?e" using True by auto
      have r: "moveDead_loop gone i (nd + 1) ?xs = (k, ys)"
        using 1(3) True g by (simp add: moveDead_loop.simps [of gone i nd xs])
      have nth: "?xs ! j = (if j = i then xs ! ?e else if j = ?e then xs ! i else xs ! j)" if "j < length xs" for j
        using that e by (intro nth_swap_at) auto
      have "\<forall>j < i. \<not> gone (?xs ! j)" using 1(5) e nth by auto
      moreover have "\<forall>j. length ?xs - (nd + 1) \<le> j \<and> j < length ?xs \<longrightarrow> gone (?xs ! j)"
      proof (intro allI impI)
        fix j assume j: "length ?xs - (nd + 1) \<le> j \<and> j < length ?xs"
        show "gone (?xs ! j)"
        proof (cases "j = ?e")
          case True
          then show ?thesis using nth [of j] e(1) g by simp
        next
          case False
          with j have "length xs - nd \<le> j" "j < length xs" "j \<noteq> i" using \<open>i < length xs - nd\<close> by auto
          then show ?thesis using nth [of j] False 1(6) by simp
        qed
      qed
      moreover have "i + (nd + 1) \<le> length ?xs" using True by simp
      ultimately show ?thesis using 1(2) [OF True _ r] g e by simp
    qed
  qed
qed

lemma moveDeadNodes_spec:
  assumes "moveDeadNodes hp now t xs = (k, ys)"
  shows "mset ys = mset xs" "k \<le> length xs" "length ys = length xs"
    "take k ys = filter (\<lambda>r. \<not> reapable hp now t r) ys" "drop k ys = filter (reapable hp now t) ys"
proof -
  let ?g = "reapable hp now t"
  have *: "mset ys = mset xs \<and> k \<le> length xs \<and>
    (\<forall>j < k. \<not> ?g (ys ! j)) \<and> (\<forall>j. k \<le> j \<and> j < length xs \<longrightarrow> ?g (ys ! j))"
    using assms unfolding moveDeadNodes_def by (rule moveDead_loop_spec) auto
  then show "mset ys = mset xs" "k \<le> length xs" by auto
  then show len: "length ys = length xs" by (metis size_mset)
  have t: "\<forall>r \<in> set (take k ys). \<not> ?g r" using * len by (auto simp: in_set_conv_nth)
  have d: "\<forall>r \<in> set (drop k ys). ?g r" using * len by (auto simp: in_set_conv_nth)
  have "filter ?g ys = filter ?g (take k ys) @ filter ?g (drop k ys)"
    "filter (\<lambda>r. \<not> ?g r) ys = filter (\<lambda>r. \<not> ?g r) (take k ys) @ filter (\<lambda>r. \<not> ?g r) (drop k ys)"
    by (metis append_take_drop_id filter_append)+
  with t d show "take k ys = filter (\<lambda>r. \<not> ?g r) ys" "drop k ys = filter ?g ys"
    by (simp_all add: filter_True filter_False)
qed

section \<open>Random choice\<close>

lemma kRandom_loop_spec:
  assumes "xs \<noteq> []" and "length acc \<le> k" and "distinct (map n_Name acc)"
    and "\<forall>n \<in> set acc. \<exists>r \<in> set xs. n = s_Node (hp r) \<and> \<not> exclude (hp r)"
  shows "length (kRandom_loop k hp exclude xs rnds acc) \<le> k \<and>
    distinct (map n_Name (kRandom_loop k hp exclude xs rnds acc)) \<and>
    (\<forall>n \<in> set (kRandom_loop k hp exclude xs rnds acc). \<exists>r \<in> set xs. n = s_Node (hp r) \<and> \<not> exclude (hp r))"
  using assms
proof (induction k hp exclude xs rnds acc rule: kRandom_loop.induct)
  case (2 k hp exclude xs rnd rnds acc)
  let ?i = "randomOffset (length xs) rnd"
  have "xs ! ?i \<in> set xs"
    using 2(4) randomOffset_less [of "length xs" rnd] by (intro nth_mem) auto
  then have m: "\<exists>r \<in> set xs. s_Node (hp (xs ! ?i)) = s_Node (hp r) \<and> \<not> exclude (hp r)"
    if "\<not> exclude (hp (xs ! ?i))" using that by blast
  consider "\<not> length acc < k" | "length acc < k" "exclude (hp (xs ! ?i)) \<or> s_Name (hp (xs ! ?i)) \<in> n_Name ` set acc"
    | "length acc < k" "\<not> exclude (hp (xs ! ?i))" "s_Name (hp (xs ! ?i)) \<notin> n_Name ` set acc" by blast
  then show ?case
  proof cases
    case 1
    then show ?thesis using 2(5-7) by simp
  next
    case c: 2
    then have e: "kRandom_loop k hp exclude xs (rnd # rnds) acc = kRandom_loop k hp exclude xs rnds acc"
      by (auto simp: Let_def)
    show ?thesis
    proof (cases "exclude (hp (xs ! ?i))")
      case True
      show ?thesis unfolding e using c(1) by (intro 2(1) [OF _ refl True 2(4-7)]) simp
    next
      case False
      with c(2) have "s_Name (hp (xs ! ?i)) \<in> n_Name ` set acc" by blast
      then show ?thesis unfolding e using c(1) by (intro 2(2) [OF _ refl False _ 2(4-7)]) simp_all
    qed
  next
    case c: 3
    then have e: "kRandom_loop k hp exclude xs (rnd # rnds) acc =
        kRandom_loop k hp exclude xs rnds (acc @ [s_Node (hp (xs ! ?i))])" by (simp add: Let_def)
    have "distinct (map n_Name (acc @ [s_Node (hp (xs ! ?i))]))" using c(3) 2(6) by simp
    moreover have "\<forall>n \<in> set (acc @ [s_Node (hp (xs ! ?i))]). \<exists>r \<in> set xs. n = s_Node (hp r) \<and> \<not> exclude (hp r)"
      using m [OF c(2)] 2(7) by auto
    ultimately show ?thesis unfolding e using c by (intro 2(3) refl 2(4)) simp_all
  qed
qed auto

lemma kRandomNodes_spec:
  assumes "ns = kRandomNodes k hp xs exclude rnd"
  shows "length ns \<le> k" "distinct (map n_Name ns)"
    "n \<in> set ns \<Longrightarrow> \<exists>r \<in> set xs. n = s_Node (hp r) \<and> \<not> exclude (hp r)"
proof -
  have "length ns \<le> k \<and> distinct (map n_Name ns) \<and>
     (\<forall>n \<in> set ns. \<exists>r \<in> set xs. n = s_Node (hp r) \<and> \<not> exclude (hp r))"
  proof (cases "xs = []")
    case True
    then show ?thesis by (simp add: assms kRandomNodes_def)
  next
    case False
    then show ?thesis unfolding assms kRandomNodes_def by (rule kRandom_loop_spec) simp_all
  qed
  then show "length ns \<le> k" "distinct (map n_Name ns)"
    "n \<in> set ns \<Longrightarrow> \<exists>r \<in> set xs. n = s_Node (hp r) \<and> \<not> exclude (hp r)" by blast+
qed

end
