(* ===== verification/Member_Invariant.thy ===== *)
theory Member_Invariant
  imports Node_Lists
begin

text \<open>
  Invariants of the membership table of \<open>memberlist/state.go\<close>: the node list, the name map
  and the heap agree, and every suspected node is watched by a timer. The first section says
  what the helpers leave unchanged, so that the operations can be treated field by field.
\<close>

section \<open>Frames\<close>

lemma encodeBroadcastNotify_frame [simp, frame_simps]:
  "sequenceNum (encodeBroadcastNotify env nm t msg ch m) = sequenceNum m"
  "incarnation (encodeBroadcastNotify env nm t msg ch m) = incarnation m"
  "numNodes (encodeBroadcastNotify env nm t msg ch m) = numNodes m"
  "m_shutdown (encodeBroadcastNotify env nm t msg ch m) = m_shutdown m"
  "m_leave (encodeBroadcastNotify env nm t msg ch m) = m_leave m"
  "heap (encodeBroadcastNotify env nm t msg ch m) = heap m"
  "nextRef (encodeBroadcastNotify env nm t msg ch m) = nextRef m"
  "nodes (encodeBroadcastNotify env nm t msg ch m) = nodes m"
  "nodeMap (encodeBroadcastNotify env nm t msg ch m) = nodeMap m"
  "timers (encodeBroadcastNotify env nm t msg ch m) = timers m"
  "nextTimer (encodeBroadcastNotify env nm t msg ch m) = nextTimer m"
  "nodeTimers (encodeBroadcastNotify env nm t msg ch m) = nodeTimers m"
  "started (encodeBroadcastNotify env nm t msg ch m) = started m"
  "deadq (encodeBroadcastNotify env nm t msg ch m) = deadq m"
  "m_awareness (encodeBroadcastNotify env nm t msg ch m) = m_awareness m"
  "probeIndex (encodeBroadcastNotify env nm t msg ch m) = probeIndex m"
  "notified (encodeBroadcastNotify env nm t msg ch m) = notified m"
  by (simp_all add: encodeBroadcastNotify_def m_queueBroadcast_def split: sum.splits)

lemma encodeWeight_frame [simp, frame_simps]:
  "incarnation (encodeWeightMsgAndBroadcast env nm msg m) = incarnation m"
  "numNodes (encodeWeightMsgAndBroadcast env nm msg m) = numNodes m"
  "m_leave (encodeWeightMsgAndBroadcast env nm msg m) = m_leave m"
  "heap (encodeWeightMsgAndBroadcast env nm msg m) = heap m"
  "nextRef (encodeWeightMsgAndBroadcast env nm msg m) = nextRef m"
  "nodes (encodeWeightMsgAndBroadcast env nm msg m) = nodes m"
  "nodeMap (encodeWeightMsgAndBroadcast env nm msg m) = nodeMap m"
  "timers (encodeWeightMsgAndBroadcast env nm msg m) = timers m"
  "nextTimer (encodeWeightMsgAndBroadcast env nm msg m) = nextTimer m"
  "nodeTimers (encodeWeightMsgAndBroadcast env nm msg m) = nodeTimers m"
  "started (encodeWeightMsgAndBroadcast env nm msg m) = started m"
  "deadq (encodeWeightMsgAndBroadcast env nm msg m) = deadq m"
  "m_awareness (encodeWeightMsgAndBroadcast env nm msg m) = m_awareness m"
  "notified (encodeWeightMsgAndBroadcast env nm msg m) = notified m"
  by (simp_all add: encodeWeightMsgAndBroadcast_def split: sum.splits)

lemma upd_node_frame [simp, frame_simps]:
  "incarnation (upd_node r f m) = incarnation m" "numNodes (upd_node r f m) = numNodes m"
  "m_leave (upd_node r f m) = m_leave m" "nextRef (upd_node r f m) = nextRef m"
  "nodes (upd_node r f m) = nodes m" "nodeMap (upd_node r f m) = nodeMap m"
  "timers (upd_node r f m) = timers m" "nextTimer (upd_node r f m) = nextTimer m"
  "nodeTimers (upd_node r f m) = nodeTimers m" "started (upd_node r f m) = started m"
  "deadq (upd_node r f m) = deadq m" "m_awareness (upd_node r f m) = m_awareness m"
  "broadcasts (upd_node r f m) = broadcasts m" "notified (upd_node r f m) = notified m"
  "heap (upd_node r f m) = (heap m)(r := f (heap m r))"
  by (simp_all add: upd_node_def)

lemma notify_ev_frame [simp, frame_simps]:
  "incarnation (notify_ev ev m) = incarnation m" "numNodes (notify_ev ev m) = numNodes m"
  "m_leave (notify_ev ev m) = m_leave m" "nextRef (notify_ev ev m) = nextRef m"
  "nodes (notify_ev ev m) = nodes m" "nodeMap (notify_ev ev m) = nodeMap m"
  "timers (notify_ev ev m) = timers m" "nextTimer (notify_ev ev m) = nextTimer m"
  "nodeTimers (notify_ev ev m) = nodeTimers m" "started (notify_ev ev m) = started m"
  "deadq (notify_ev ev m) = deadq m" "m_awareness (notify_ev ev m) = m_awareness m"
  "broadcasts (notify_ev ev m) = broadcasts m" "heap (notify_ev ev m) = heap m"
  "notified (notify_ev ev m) = notified m @ [ev]"
  by (simp_all add: notify_ev_def)

text \<open>What the delegates are told may set \<open>Node.State\<close>, which nothing else reads.\<close>

lemma sync_node_state_frame [simp, frame_simps]:
  "incarnation (sync_node_state r m) = incarnation m" "numNodes (sync_node_state r m) = numNodes m"
  "m_leave (sync_node_state r m) = m_leave m" "nextRef (sync_node_state r m) = nextRef m"
  "nodes (sync_node_state r m) = nodes m" "nodeMap (sync_node_state r m) = nodeMap m"
  "timers (sync_node_state r m) = timers m" "nextTimer (sync_node_state r m) = nextTimer m"
  "nodeTimers (sync_node_state r m) = nodeTimers m" "started (sync_node_state r m) = started m"
  "deadq (sync_node_state r m) = deadq m" "m_awareness (sync_node_state r m) = m_awareness m"
  "broadcasts (sync_node_state r m) = broadcasts m" "notified (sync_node_state r m) = notified m"
  by (simp_all add: sync_node_state_def)

lemma alive_notify_frame [simp, frame_simps]:
  "incarnation (alive_notify env r st me m) = incarnation m" "numNodes (alive_notify env r st me m) = numNodes m"
  "m_leave (alive_notify env r st me m) = m_leave m" "nextRef (alive_notify env r st me m) = nextRef m"
  "nodes (alive_notify env r st me m) = nodes m" "nodeMap (alive_notify env r st me m) = nodeMap m"
  "timers (alive_notify env r st me m) = timers m" "nextTimer (alive_notify env r st me m) = nextTimer m"
  "nodeTimers (alive_notify env r st me m) = nodeTimers m" "started (alive_notify env r st me m) = started m"
  "deadq (alive_notify env r st me m) = deadq m" "m_awareness (alive_notify env r st me m) = m_awareness m"
  "broadcasts (alive_notify env r st me m) = broadcasts m"
  by (simp_all add: alive_notify_def Let_def)

section \<open>The entry of a node\<close>

text \<open>
  What the protocol knows of a node: everything of a \<open>nodeState\<close> but its name, its weight and
  the copy of the state kept for the delegates.
\<close>

record entry =
  e_inc :: u32
  e_state :: NodeStateType
  e_since :: time
  e_addr :: string
  e_port :: u16
  e_meta :: bytes
  e_vsn :: "u8 list"

definition entry_of :: "nodeState \<Rightarrow> entry" where
  "entry_of s = \<lparr>e_inc = s_Incarnation s, e_state = s_State s, e_since = s_StateChange s,
     e_addr = s_Addr s, e_port = s_Port s, e_meta = s_Meta s, e_vsn = versions_of (s_Node s)\<rparr>"

lemma entry_of_simps [simp]:
  "e_inc (entry_of s) = s_Incarnation s" "e_state (entry_of s) = s_State s"
  "e_since (entry_of s) = s_StateChange s" "e_addr (entry_of s) = s_Addr s"
  "e_port (entry_of s) = s_Port s" "e_meta (entry_of s) = s_Meta s" "e_vsn (entry_of s) = versions_of (s_Node s)"
  by (simp_all add: entry_of_def)

text \<open>Two heap objects that agree in name and entry are the same to the protocol.\<close>

definition same_entry :: "nodeState \<Rightarrow> nodeState \<Rightarrow> bool" where
  "same_entry s t \<longleftrightarrow> s_Name s = s_Name t \<and> entry_of s = entry_of t"

lemma same_entry_refl [simp]: "same_entry s s"
  by (simp add: same_entry_def)

lemma same_entryD:
  assumes "same_entry s t"
  shows "s_Name s = s_Name t" "entry_of s = entry_of t" "s_Incarnation s = s_Incarnation t" "s_State s = s_State t"
    "s_StateChange s = s_StateChange t"
proof -
  show n: "s_Name s = s_Name t" and e: "entry_of s = entry_of t" using assms by (simp_all add: same_entry_def)
  show "s_Incarnation s = s_Incarnation t" "s_State s = s_State t" "s_StateChange s = s_StateChange t"
    using arg_cong [OF e, of e_inc] arg_cong [OF e, of e_state] arg_cong [OF e, of e_since] by simp_all
qed

lemma same_entry_sync: "same_entry (heap (sync_node_state r m) x) (heap m x)"
  by (simp add: sync_node_state_def same_entry_def entry_of_def versions_of_def)

lemma same_entry_alive_notify: "same_entry (heap (alive_notify env r st me m) x) (heap m x)"
  by (simp add: alive_notify_def Let_def same_entry_sync)

section \<open>Refutation\<close>

text \<open>The incarnation number \<open>refute\<close> picks.\<close>

definition refuted :: "u32 \<Rightarrow> u32 \<Rightarrow> u32" where
  "refuted cur accused = (if accused \<ge> cur + 1 then accused + 1 else cur + 1)"

lemma refuted_beats: "accused \<noteq> -1 \<Longrightarrow> accused < refuted cur accused"
proof -
  assume "accused \<noteq> -1"
  then have "1 + accused \<noteq> 0" unfolding add_eq_0_iff .
  then have "unat (1 + accused) = Suc (unat accused)" by (rule unatSuc)
  then have "accused < accused + 1" by (simp add: word_less_nat_alt add.commute)
  then show ?thesis by (simp add: refuted_def not_le)
qed

lemma refute_frame [simp, frame_simps]:
  "incarnation (refute env me acc m) = refuted (incarnation m) acc"
  "numNodes (refute env me acc m) = numNodes m" "m_leave (refute env me acc m) = m_leave m"
  "nextRef (refute env me acc m) = nextRef m" "nodes (refute env me acc m) = nodes m"
  "nodeMap (refute env me acc m) = nodeMap m" "timers (refute env me acc m) = timers m"
  "nextTimer (refute env me acc m) = nextTimer m" "nodeTimers (refute env me acc m) = nodeTimers m"
  "started (refute env me acc m) = started m" "deadq (refute env me acc m) = deadq m"
  "notified (refute env me acc m) = notified m"
  "m_awareness (refute env me acc m) = ApplyDelta (m_awareness m) 1"
  "heap (refute env me acc m) = (heap m)(me := (heap m me)\<lparr>s_Incarnation := refuted (incarnation m) acc\<rparr>)"
  by (simp_all add: refute_def nextIncarnation_def skipIncarnation_def Let_def encodeAndBroadcast_def
      refuted_def algebra_simps split: prod.splits if_splits)

section \<open>The invariant\<close>

definition table_ok :: "'t memberlist \<Rightarrow> bool" where
  "table_ok m \<longleftrightarrow> distinct (nodes m) \<and> set (nodes m) = ran (nodeMap m) \<and>
     (\<forall>nm r. nodeMap m nm = Some r \<longrightarrow> s_Name (heap m r) = nm \<and> r < nextRef m) \<and>
     numNodes m = of_nat (length (nodes m))"

lemma table_okD:
  assumes "table_ok m"
  shows "distinct (nodes m)" "set (nodes m) = ran (nodeMap m)" "nodeMap m nm = Some r \<Longrightarrow> s_Name (heap m r) = nm"
    "nodeMap m nm = Some r \<Longrightarrow> r < nextRef m" "numNodes m = of_nat (length (nodes m))"
  using assms by (auto simp: table_ok_def)

lemma table_okI:
  assumes "distinct (nodes m)" "set (nodes m) = ran (nodeMap m)" "numNodes m = of_nat (length (nodes m))"
    "\<And>nm r. nodeMap m nm = Some r \<Longrightarrow> s_Name (heap m r) = nm"
    "\<And>nm r. nodeMap m nm = Some r \<Longrightarrow> r < nextRef m"
  shows "table_ok m"
  using assms by (simp add: table_ok_def)

lemma nodeMap_inj: "table_ok m \<Longrightarrow> nodeMap m a = Some r \<Longrightarrow> nodeMap m b = Some r \<Longrightarrow> a = b"
  using table_okD(3) by metis

text \<open>
  A suspected node is watched when a timer of the suspicion it is in is armed, or its timeout
  function has started, or the dead message it built is about to be handled.
\<close>

definition watched :: "'t memberlist \<Rightarrow> string \<Rightarrow> nodeState \<Rightarrow> bool" where
  "watched m nm s \<longleftrightarrow>
     (\<exists>i < nextTimer m. t_node (timers m i) = nm \<and> t_change (timers m i) = s_StateChange s \<and>
        (sus_timer (t_sus (timers m i)) \<noteq> None \<or> i \<in> set (started m))) \<or>
     (\<exists>d \<in> set (deadq m). d_Node d = nm \<and> d_Incarnation d = s_Incarnation s)"

definition watch_ok :: "('t, 'ip) env \<Rightarrow> 't memberlist \<Rightarrow> bool" where
  "watch_ok env m \<longleftrightarrow>
     (\<forall>nm i. nodeTimers m nm = Some i \<longrightarrow> i < nextTimer m \<and> t_node (timers m i) = nm) \<and>
     (\<forall>nm r. nodeMap m nm = Some r \<longrightarrow> s_State (heap m r) = StateSuspect \<longrightarrow>
        nm \<noteq> c_Name env \<and> watched m nm (heap m r)) \<and>
     nodeTimers m (c_Name env) = None"

lemma watch_okD:
  assumes "watch_ok env m"
  shows "nodeTimers m nm = Some i \<Longrightarrow> i < nextTimer m" "nodeTimers m nm = Some i \<Longrightarrow> t_node (timers m i) = nm"
    "nodeMap m nm = Some r \<Longrightarrow> s_State (heap m r) = StateSuspect \<Longrightarrow> nm \<noteq> c_Name env"
    "nodeMap m nm = Some r \<Longrightarrow> s_State (heap m r) = StateSuspect \<Longrightarrow> watched m nm (heap m r)"
    "nodeTimers m (c_Name env) = None"
  using assms by (auto simp: watch_ok_def)

lemma watch_okI:
  assumes "\<And>nm i. nodeTimers m nm = Some i \<Longrightarrow> i < nextTimer m \<and> t_node (timers m i) = nm"
    and "\<And>nm r. nodeMap m nm = Some r \<Longrightarrow> s_State (heap m r) = StateSuspect \<Longrightarrow>
           nm \<noteq> c_Name env \<and> watched m nm (heap m r)"
    and "nodeTimers m (c_Name env) = None"
  shows "watch_ok env m"
  using assms by (simp add: watch_ok_def)

text \<open>Being watched survives any change that keeps the timers, and only adds to the two queues.\<close>

lemma watched_mono:
  assumes "watched m nm s" and "timers m' = timers m" and "nextTimer m' = nextTimer m"
    and "set (started m) \<subseteq> set (started m')" and "set (deadq m) \<subseteq> set (deadq m')"
    and "s_StateChange s' = s_StateChange s" and "s_Incarnation s' = s_Incarnation s"
  shows "watched m' nm s'"
  using assms unfolding watched_def by (metis subsetD)

definition env_ok :: "('t, 'ip) env \<Rightarrow> bool" where
  "env_ok env \<longleftrightarrow> btree_laws (x_btree env) \<and> codec_laws (x_codec env)"

definition member_ok :: "('t, 'ip) env \<Rightarrow> 't memberlist \<Rightarrow> bool" where
  "member_ok env m \<longleftrightarrow> table_ok m \<and> watch_ok env m \<and> queue_ok (x_btree env) (broadcasts m) \<and>
     awareness_ok (m_awareness m)"

lemma member_okD:
  assumes "member_ok env m"
  shows "table_ok m" "watch_ok env m" "queue_ok (x_btree env) (broadcasts m)" "awareness_ok (m_awareness m)"
  using assms by (simp_all add: member_ok_def)

section \<open>Broadcasts keep the queue well-formed\<close>

lemma queue_ok_encodeBroadcastNotify [inv_intros]:
  assumes "env_ok env" and "queue_ok (x_btree env) (broadcasts m)"
  shows "queue_ok (x_btree env) (broadcasts (encodeBroadcastNotify env nm t msg ch m))"
proof (cases "encode (x_codec env) t msg")
  case (Inr buf)
  then have "int (length (Message (MemberlistBroadcast nm buf ch))) \<le> MaxInt64"
    using encode_length assms(1) by (fastforce simp: env_ok_def)
  then show ?thesis
    using QueueBroadcast_ok [OF _ assms(2)] assms(1)
    by (simp add: encodeBroadcastNotify_def Inr m_queueBroadcast_def env_ok_def del: of_nat_le_iff)
qed (simp add: encodeBroadcastNotify_def assms)

lemma queue_ok_encodeWeight [inv_intros]:
  assumes "env_ok env" and "queue_ok (x_btree env) (broadcasts m)"
  shows "queue_ok (x_btree env) (broadcasts (encodeWeightMsgAndBroadcast env nm msg m))"
proof (cases "encode (x_codec env) weightMsg msg")
  case (Inr buf)
  then have "int (length (Message (WeightBroadcast nm buf))) \<le> MaxInt64"
    using encode_length assms(1) by (fastforce simp: env_ok_def)
  then show ?thesis
    using QueueBroadcast_ok [OF _ assms(2)] assms(1) by (simp add: encodeWeightMsgAndBroadcast_def Inr env_ok_def)
qed (simp add: encodeWeightMsgAndBroadcast_def assms)

lemma queue_ok_refute [inv_intros]:
  assumes "env_ok env" and "queue_ok (x_btree env) (broadcasts m)"
  shows "queue_ok (x_btree env) (broadcasts (refute env me acc m))"
  unfolding refute_def nextIncarnation_def skipIncarnation_def Let_def encodeAndBroadcast_def
  using assms by (auto simp: split: if_splits intro!: queue_ok_encodeBroadcastNotify)

section \<open>Preservation by the handlers\<close>

lemma table_ok_same:
  assumes "table_ok m" and "nodes m' = nodes m" "nodeMap m' = nodeMap m" "numNodes m' = numNodes m"
    "nextRef m' = nextRef m" and "\<And>r. s_Name (heap m' r) = s_Name (heap m r)"
  shows "table_ok m'"
  using assms by (simp add: table_ok_def)

text \<open>
  The watch invariant carries over when the timers are kept and every entry that is suspected
  afterwards was so before, with the same incarnation and time.
\<close>

lemma watch_ok_carry:
  assumes "watch_ok env m" and "timers m' = timers m" "nextTimer m' = nextTimer m"
    and "set (started m) \<subseteq> set (started m')" "set (deadq m) \<subseteq> set (deadq m')"
    and "\<And>nm i. nodeTimers m' nm = Some i \<Longrightarrow> nodeTimers m nm = Some i"
    and "\<And>nm r. nodeMap m' nm = Some r \<Longrightarrow> s_State (heap m' r) = StateSuspect \<Longrightarrow>
       nodeMap m nm = Some r \<and> s_State (heap m r) = StateSuspect \<and>
       s_StateChange (heap m' r) = s_StateChange (heap m r) \<and> s_Incarnation (heap m' r) = s_Incarnation (heap m r)"
  shows "watch_ok env m'"
proof (rule watch_okI)
  fix nm i assume "nodeTimers m' nm = Some i"
  then show "i < nextTimer m' \<and> t_node (timers m' i) = nm"
    using assms(2,3,6) watch_okD(1,2) [OF assms(1)] by metis
next
  fix nm r assume "nodeMap m' nm = Some r" "s_State (heap m' r) = StateSuspect"
  from assms(7) [OF this] have o: "nodeMap m nm = Some r" "s_State (heap m r) = StateSuspect"
    "s_StateChange (heap m' r) = s_StateChange (heap m r)" "s_Incarnation (heap m' r) = s_Incarnation (heap m r)"
    by blast+
  show "nm \<noteq> c_Name env \<and> watched m' nm (heap m' r)"
    using watch_okD(3) [OF assms(1) o(1,2)] watched_mono [OF watch_okD(4) [OF assms(1) o(1,2)] assms(2-5) o(3,4)]
    by blast
next
  show "nodeTimers m' (c_Name env) = None"
    using assms(6) [of "c_Name env"] watch_okD(5) [OF assms(1)] by (cases "nodeTimers m' (c_Name env)") auto
qed

lemma deadNode_cases:
  fixes m :: "'t memberlist"
  obtains (unknown) "nodeMap m (d_Node d) = None" "deadNode env now d m = m"
  | (old) r where "nodeMap m (d_Node d) = Some r" "d_Incarnation d < s_Incarnation (heap m r)" "deadNode env now d m = m"
  | (gone) r where "nodeMap m (d_Node d) = Some r" "\<not> d_Incarnation d < s_Incarnation (heap m r)" "DeadOrLeft (heap m r)"
      "deadNode env now d m = m\<lparr>nodeTimers := (nodeTimers m)(d_Node d := None)\<rparr>"
  | (refuted) r where "nodeMap m (d_Node d) = Some r" "\<not> d_Incarnation d < s_Incarnation (heap m r)"
      "\<not> DeadOrLeft (heap m r)" "s_Name (heap m r) = c_Name env" "\<not> hasLeft m"
      "deadNode env now d m = refute env r (d_Incarnation d) (m\<lparr>nodeTimers := (nodeTimers m)(d_Node d := None)\<rparr>)"
  | (marked) r m1 ch where "nodeMap m (d_Node d) = Some r" "\<not> d_Incarnation d < s_Incarnation (heap m r)"
      "\<not> DeadOrLeft (heap m r)" "s_Name (heap m r) \<noteq> c_Name env \<or> hasLeft m"
      "m1 = upd_node r (\<lambda>t. t\<lparr>s_Incarnation := d_Incarnation d,
          s_State := (if d_Node d = d_From d then StateLeft else StateDead), s_StateChange := now\<rparr>)
        (encodeBroadcastNotify env (d_Node d) deadMsg (Dead d) ch (m\<lparr>nodeTimers := (nodeTimers m)(d_Node d := None)\<rparr>))"
      "deadNode env now d m = (if c_Events env then notify_ev (NotifyLeave (s_Node (heap m1 r))) m1 else m1)"
proof (cases "nodeMap m (d_Node d)")
  case None
  then show ?thesis using unknown by (simp add: deadNode_def)
next
  case (Some r)
  let ?m1 = "m\<lparr>nodeTimers := (nodeTimers m)(d_Node d := None)\<rparr>"
  consider "d_Incarnation d < s_Incarnation (heap m r)"
    | "\<not> d_Incarnation d < s_Incarnation (heap m r)" "DeadOrLeft (heap m r)"
    | "\<not> d_Incarnation d < s_Incarnation (heap m r)" "\<not> DeadOrLeft (heap m r)" "s_Name (heap m r) = c_Name env" "\<not> hasLeft m"
    | "\<not> d_Incarnation d < s_Incarnation (heap m r)" "\<not> DeadOrLeft (heap m r)" "s_Name (heap m r) \<noteq> c_Name env \<or> hasLeft m"
    by blast
  then show ?thesis
  proof cases
    case 1
    with Some show ?thesis by (intro old) (simp_all add: deadNode_def)
  next
    case 2
    with Some show ?thesis by (intro gone) (simp_all add: deadNode_def Let_def)
  next
    case 3
    with Some show ?thesis by (intro refuted) (simp_all add: deadNode_def Let_def hasLeft_def)
  next
    case 4
    with Some show ?thesis
      by (intro marked [of r _ "if s_Name (heap m r) = c_Name env then Some 0 else None"])
        (auto simp add: deadNode_def Let_def hasLeft_def encodeAndBroadcast_def)
  qed
qed

lemma s_Name_simps [simp]:
  "s_Name (s\<lparr>s_Incarnation := i\<rparr>) = s_Name s" "s_Name (s\<lparr>s_State := st\<rparr>) = s_Name s"
  by simp_all

lemma deadNode_table: "table_ok m \<Longrightarrow> table_ok (deadNode env now d m)"
  by (cases rule: deadNode_cases [of m d env now]) (auto elim!: table_ok_same)

lemma deadNode_queue:
  assumes "env_ok env" and "queue_ok (x_btree env) (broadcasts m)"
  shows "queue_ok (x_btree env) (broadcasts (deadNode env now d m))"
  by (cases rule: deadNode_cases [of m d env now])
    (use assms in \<open>auto intro!: queue_ok_refute queue_ok_encodeBroadcastNotify\<close>)

lemma deadNode_awareness: "awareness_ok (m_awareness m) \<Longrightarrow> awareness_ok (m_awareness (deadNode env now d m))"
  by (cases rule: deadNode_cases [of m d env now]) (auto intro: ApplyDelta_ok)

text \<open>
  A dead message may be the very one that watches a node: the invariant is needed for the other
  nodes only, since the message settles the node it is about.
\<close>

lemma deadNode_watch:
  assumes t: "table_ok m"
    and tm: "\<And>nm i. nodeTimers m nm = Some i \<Longrightarrow> i < nextTimer m \<and> t_node (timers m i) = nm"
    and w: "\<And>nm r. nodeMap m nm = Some r \<Longrightarrow> s_State (heap m r) = StateSuspect \<Longrightarrow>
       nm \<noteq> c_Name env \<and> (watched m nm (heap m r) \<or> nm = d_Node d \<and> \<not> d_Incarnation d < s_Incarnation (heap m r))"
    and self: "nodeTimers m (c_Name env) = None"
  shows "watch_ok env (deadNode env now d m)"
proof -
  have settle: "watch_ok env m'"
    if "timers m' = timers m" "nextTimer m' = nextTimer m" "started m' = started m" "deadq m' = deadq m"
      "nodeMap m' = nodeMap m" "\<And>nm i. nodeTimers m' nm = Some i \<Longrightarrow> nodeTimers m nm = Some i"
      "nodeMap m (d_Node d) = Some r" "\<And>x. x \<noteq> r \<Longrightarrow> heap m' x = heap m x" "s_State (heap m' r) \<noteq> StateSuspect"
    for m' r
  proof (rule watch_okI)
    fix nm i assume "nodeTimers m' nm = Some i"
    then show "i < nextTimer m' \<and> t_node (timers m' i) = nm" using tm that(1,2,6) by metis
  next
    fix nm x assume x: "nodeMap m' nm = Some x" "s_State (heap m' x) = StateSuspect"
    then have "x \<noteq> r" using that(9) by blast
    then have "heap m' x = heap m x" "nm \<noteq> d_Node d" using that(5,7,8) x(1) by auto
    then have "nm \<noteq> c_Name env" "watched m nm (heap m x)" using w [of nm x] x that(5) by auto
    then show "nm \<noteq> c_Name env \<and> watched m' nm (heap m' x)"
      using \<open>heap m' x = heap m x\<close> that(1-4) by (simp add: watched_def)
  next
    show "nodeTimers m' (c_Name env) = None"
      using that(6) [of "c_Name env"] self by (cases "nodeTimers m' (c_Name env)") auto
  qed
  show ?thesis
  proof (cases rule: deadNode_cases [of m d env now])
    case unknown
    have "nm \<noteq> d_Node d" if "nodeMap m nm = Some x" for nm x using that unknown(1) by auto
    with w tm self show ?thesis unfolding unknown(2) by (intro watch_okI) blast+
  next
    case (old r)
    have "x = r" if "nodeMap m nm = Some x" "nm = d_Node d" for nm x using that old(1) by auto
    with w tm self old(2) show ?thesis unfolding old(3) by (intro watch_okI) blast+
  next
    case (gone r)
    show ?thesis unfolding gone(4)
      by (rule settle [of _ r]) (use gone(1,3) in \<open>auto simp: DeadOrLeft_def split: if_splits\<close>)
  next
    case (refuted r)
    have "d_Node d = c_Name env" using table_okD(3) [OF t refuted(1)] refuted(4) by simp
    then have "s_State (heap m r) \<noteq> StateSuspect" using w [OF refuted(1)] by auto
    then show ?thesis unfolding refuted(6)
      by (intro settle [of _ r]) (use refuted(1) in \<open>auto split: if_splits\<close>)
  next
    case (marked r m1 ch)
    show ?thesis unfolding marked(6)
      by (rule settle [of _ r]) (use marked(1,5) in \<open>auto split: if_splits\<close>)
  qed
qed

lemma deadNode_ok [inv_intros]:
  assumes "env_ok env" and "member_ok env m"
  shows "member_ok env (deadNode env now d m)"
proof -
  note ok = member_okD [OF assms(2)]
  have "watch_ok env (deadNode env now d m)"
    by (rule deadNode_watch [OF ok(1)]) (use watch_okD [OF ok(2)] in blast)+
  then show ?thesis
    unfolding member_ok_def by (intro conjI deadNode_table deadNode_queue deadNode_awareness ok assms(1))
qed

lemma timeout_dead_ok [inv_intros]:
  assumes "env_ok env" and "member_ok env m"
  shows "member_ok env (timeout_dead env now d m)"
proof -
  let ?m = "m\<lparr>deadq := remove1 d (deadq m)\<rparr>"
  note ok = member_okD [OF assms(2)]
  have t: "table_ok ?m" using ok(1) by (rule table_ok_same) simp_all
  have "watch_ok env (deadNode env now d ?m)"
  proof (rule deadNode_watch [OF t])
    fix nm r assume r: "nodeMap ?m nm = Some r" "s_State (heap ?m r) = StateSuspect"
    then have w: "nm \<noteq> c_Name env" "watched m nm (heap m r)" using watch_okD(3,4) [OF ok(2)] by auto
    show "nm \<noteq> c_Name env \<and> (watched ?m nm (heap ?m r) \<or> nm = d_Node d \<and> \<not> d_Incarnation d < s_Incarnation (heap ?m r))"
    proof (cases "\<exists>d' \<in> set (deadq m). d' \<noteq> d \<and> d_Node d' = nm \<and> d_Incarnation d' = s_Incarnation (heap m r)")
      case True
      then have "watched ?m nm (heap ?m r)" by (auto simp: watched_def in_set_remove1)
      with w(1) show ?thesis by blast
    next
      case False
      with w(2) have "watched ?m nm (heap ?m r) \<or> nm = d_Node d \<and> d_Incarnation d = s_Incarnation (heap m r)"
        by (auto simp: watched_def)
      with w(1) show ?thesis by auto
    qed
  qed (use watch_okD(1,2,5) [OF ok(2)] in auto)
  then show ?thesis
    unfolding member_ok_def timeout_dead_def
    using ok(3,4) by (intro conjI deadNode_table deadNode_queue deadNode_awareness t assms(1)) simp_all
qed

text \<open>Timers: expiry and the check of the timeout function.\<close>

lemma timer_expire_ok [inv_intros]:
  assumes "member_ok env m" and "timer_expire now i m = Some m'"
  shows "member_ok env m'"
proof -
  note ok = member_okD [OF assms(1)]
  let ?t = "(timers m i)\<lparr>t_sus := (t_sus (timers m i))\<lparr>sus_timer := None\<rparr>\<rparr>"
  have m': "m' = m\<lparr>timers := (timers m)(i := ?t), started := i # started m\<rparr>"
    using assms(2) by (auto simp: timer_expire_def split: option.splits if_splits)
  have "watched m' nm s" if "watched m nm s" for nm s
    using that unfolding watched_def m' by (auto split: if_splits)
  moreover have "t_node (timers m' j) = t_node (timers m j)" for j by (simp add: m')
  ultimately have "watch_ok env m'"
    using watch_okD [OF ok(2)] by (intro watch_okI) (auto simp: m')
  moreover have "table_ok m'" using ok(1) by (rule table_ok_same) (simp_all add: m')
  ultimately show ?thesis using ok(3,4) by (simp add: member_ok_def m')
qed

lemma timeout_check_ok [inv_intros]:
  assumes "member_ok env m"
  shows "member_ok env (timeout_check env i m)"
proof -
  note ok = member_okD [OF assms]
  let ?m' = "timeout_check env i m"
  have f: "timers ?m' = timers m" "nextTimer ?m' = nextTimer m" "nodeTimers ?m' = nodeTimers m" "nodeMap ?m' = nodeMap m"
      "heap ?m' = heap m" "nodes ?m' = nodes m" "numNodes ?m' = numNodes m" "nextRef ?m' = nextRef m"
      "broadcasts ?m' = broadcasts m" "m_awareness ?m' = m_awareness m" "started ?m' = remove1 i (started m)"
    by (simp_all add: timeout_check_def Let_def split: option.splits)
  have sub: "set (deadq m) \<subseteq> set (deadq ?m')"
    by (auto simp: timeout_check_def Let_def split: option.splits)
  have "watched ?m' nm (heap m r)"
    if r: "nodeMap m nm = Some r" "s_State (heap m r) = StateSuspect" and w: "watched m nm (heap m r)" for nm r
  proof (cases "t_node (timers m i) = nm \<and> t_change (timers m i) = s_StateChange (heap m r)")
    case True
    then have "\<lparr>d_Incarnation = s_Incarnation (heap m r), d_Node = nm, d_From = c_Name env\<rparr> \<in> set (deadq ?m')"
      using r table_okD(3) [OF ok(1) r(1)] by (simp add: timeout_check_def Let_def)
    then show ?thesis unfolding watched_def by (metis dead.select_convs(1,2))
  next
    case False
    then have "j \<in> set (remove1 i (started m))"
      if "j \<in> set (started m)" "t_node (timers m j) = nm" "t_change (timers m j) = s_StateChange (heap m r)" for j
      using that by (metis in_set_remove1)
    then show ?thesis using w sub unfolding watched_def f by blast
  qed
  then have "watch_ok env ?m'" using watch_okD [OF ok(2)] by (intro watch_okI) (simp_all add: f)
  moreover have "table_ok ?m'" using ok(1) by (rule table_ok_same) (simp_all add: f)
  ultimately show ?thesis using ok(3,4) by (simp add: member_ok_def f)
qed

text \<open>Suspect messages.\<close>

lemma new_timer_frame [simp, frame_simps]:
  "incarnation (new_timer env now s m) = incarnation m" "numNodes (new_timer env now s m) = numNodes m"
  "m_leave (new_timer env now s m) = m_leave m" "heap (new_timer env now s m) = heap m"
  "nextRef (new_timer env now s m) = nextRef m"
  "nodes (new_timer env now s m) = nodes m" "nodeMap (new_timer env now s m) = nodeMap m"
  "started (new_timer env now s m) = started m" "deadq (new_timer env now s m) = deadq m"
  "m_awareness (new_timer env now s m) = m_awareness m" "broadcasts (new_timer env now s m) = broadcasts m"
  "notified (new_timer env now s m) = notified m"
  "nextTimer (new_timer env now s m) = Suc (nextTimer m)"
  "nodeTimers (new_timer env now s m) = (nodeTimers m)(su_Node s \<mapsto> nextTimer m)"
  "i < nextTimer m \<Longrightarrow> timers (new_timer env now s m) i = timers m i"
  "i = nextTimer m \<Longrightarrow> t_node (timers (new_timer env now s m) i) = su_Node s"
  "i = nextTimer m \<Longrightarrow> t_change (timers (new_timer env now s m) i) = now"
  "i = nextTimer m \<Longrightarrow> (sus_timer (t_sus (timers (new_timer env now s m) i)) = None) = False"
  by (simp_all add: new_timer_def newSuspicion_def Let_def)

definition confirm_timer :: "('t, 'ip) env \<Rightarrow> time \<Rightarrow> suspect \<Rightarrow> nat \<Rightarrow> 't memberlist \<Rightarrow> 't memberlist" where
  "confirm_timer env now s i m =
     (let (isNew, sus, fire) = Confirm (x_log env) now (t_sus (timers m i)) (su_From s)
      in m\<lparr>timers := (timers m)(i := (timers m i)\<lparr>t_sus := sus\<rparr>),
           started := (if fire then i # started m else started m)\<rparr>)"

lemma confirm_timer_frame [simp, frame_simps]:
  "incarnation (confirm_timer env now s i m) = incarnation m" "numNodes (confirm_timer env now s i m) = numNodes m"
  "m_leave (confirm_timer env now s i m) = m_leave m" "heap (confirm_timer env now s i m) = heap m"
  "nextRef (confirm_timer env now s i m) = nextRef m"
  "nodes (confirm_timer env now s i m) = nodes m" "nodeMap (confirm_timer env now s i m) = nodeMap m"
  "deadq (confirm_timer env now s i m) = deadq m"
  "m_awareness (confirm_timer env now s i m) = m_awareness m" "broadcasts (confirm_timer env now s i m) = broadcasts m"
  "notified (confirm_timer env now s i m) = notified m"
  "nextTimer (confirm_timer env now s i m) = nextTimer m"
  "nodeTimers (confirm_timer env now s i m) = nodeTimers m"
  "t_node (timers (confirm_timer env now s i m) j) = t_node (timers m j)"
  "t_change (timers (confirm_timer env now s i m) j) = t_change (timers m j)"
  by (simp_all add: confirm_timer_def Let_def split: prod.splits)

text \<open>A confirmation that stops a timer starts its function.\<close>

lemma Confirm_keeps_armed:
  "Confirm lg now s from = (isNew, s', fire) \<Longrightarrow> sus_timer s \<noteq> None \<Longrightarrow> sus_timer s' \<noteq> None \<or> fire"
  by (auto simp: Confirm_def Let_def split: if_splits option.splits)

lemma watched_confirm_timer:
  assumes "watched m nm x"
  shows "watched (confirm_timer env now s i m) nm x"
proof -
  let ?m' = "confirm_timer env now s i m"
  have "sus_timer (t_sus (timers ?m' j)) \<noteq> None \<or> j \<in> set (started ?m')"
    if "sus_timer (t_sus (timers m j)) \<noteq> None \<or> j \<in> set (started m)" for j
    using that Confirm_keeps_armed [of "x_log env" now "t_sus (timers m i)" "su_From s"]
    by (auto simp: confirm_timer_def Let_def split: prod.splits)
  then show ?thesis using assms unfolding watched_def confirm_timer_frame by blast
qed

lemma suspectNode_cases:
  fixes m :: "'t memberlist"
  obtains (ignored) "suspectNode env now s m = m"
  | (confirmed) r i where "nodeMap m (su_Node s) = Some r" "\<not> su_Incarnation s < s_Incarnation (heap m r)"
      "nodeTimers m (su_Node s) = Some i"
      "suspectNode env now s m = confirm_timer env now s i m \<or>
       suspectNode env now s m = encodeBroadcastNotify env (su_Node s) suspectMsg (Suspect s) None (confirm_timer env now s i m)"
  | (refuted) r where "nodeMap m (su_Node s) = Some r" "\<not> su_Incarnation s < s_Incarnation (heap m r)"
      "s_State (heap m r) = StateAlive" "s_Name (heap m r) = c_Name env"
      "suspectNode env now s m = refute env r (su_Incarnation s) m"
  | (suspected) r m1 where "nodeMap m (su_Node s) = Some r" "\<not> su_Incarnation s < s_Incarnation (heap m r)"
      "nodeTimers m (su_Node s) = None" "s_State (heap m r) = StateAlive" "s_Name (heap m r) \<noteq> c_Name env"
      "m1 = new_timer env now s (upd_node r (\<lambda>t. t\<lparr>s_Incarnation := su_Incarnation s, s_State := StateSuspect,
              s_StateChange := now\<rparr>) (encodeBroadcastNotify env (su_Node s) suspectMsg (Suspect s) None m))"
      "suspectNode env now s m = m1 \<or> suspectNode env now s m =
         notify_ev (NotifySuspectSateChange (s_Node (heap (sync_node_state r m1) r))) (sync_node_state r m1)"
proof (cases "nodeMap m (su_Node s)")
  case None
  then show ?thesis using ignored by (simp add: suspectNode_def)
next
  case (Some r)
  consider "su_Incarnation s < s_Incarnation (heap m r)"
    | i where "\<not> su_Incarnation s < s_Incarnation (heap m r)" "nodeTimers m (su_Node s) = Some i"
    | "\<not> su_Incarnation s < s_Incarnation (heap m r)" "nodeTimers m (su_Node s) = None" "s_State (heap m r) \<noteq> StateAlive"
    | "\<not> su_Incarnation s < s_Incarnation (heap m r)" "nodeTimers m (su_Node s) = None" "s_State (heap m r) = StateAlive"
        "s_Name (heap m r) = c_Name env"
    | "\<not> su_Incarnation s < s_Incarnation (heap m r)" "nodeTimers m (su_Node s) = None" "s_State (heap m r) = StateAlive"
        "s_Name (heap m r) \<noteq> c_Name env"
    by blast
  then show ?thesis
  proof cases
    case (2 i)
    with Some show ?thesis
      by (intro confirmed [of r i])
        (simp_all add: suspectNode_def confirm_timer_def Let_def encodeAndBroadcast_def split: prod.splits)
  next
    case 5
    with Some show ?thesis
      by (intro suspected [of r, OF _ _ _ _ _ refl]) (simp_all add: suspectNode_def Let_def encodeAndBroadcast_def)
  qed (use Some ignored refuted in \<open>simp_all add: suspectNode_def\<close>)
qed

lemma suspectNode_table: "table_ok m \<Longrightarrow> table_ok (suspectNode env now s m)"
  by (cases rule: suspectNode_cases [of env now s m]) (auto elim!: table_ok_same simp: same_entryD(1) [OF same_entry_sync])

lemma suspectNode_queue:
  assumes "env_ok env" and "queue_ok (x_btree env) (broadcasts m)"
  shows "queue_ok (x_btree env) (broadcasts (suspectNode env now s m))"
  by (cases rule: suspectNode_cases [of env now s m])
    (use assms in \<open>auto intro!: queue_ok_refute queue_ok_encodeBroadcastNotify\<close>)

lemma suspectNode_awareness: "awareness_ok (m_awareness m) \<Longrightarrow> awareness_ok (m_awareness (suspectNode env now s m))"
  by (cases rule: suspectNode_cases [of env now s m]) (auto intro: ApplyDelta_ok)

text \<open>Two states with the same table and entries that differ at most in what is not watched.\<close>

lemma watch_ok_cong:
  assumes "watch_ok env m" and "timers m' = timers m" "nextTimer m' = nextTimer m" "started m' = started m"
    "deadq m' = deadq m" "nodeTimers m' = nodeTimers m" "nodeMap m' = nodeMap m"
    "\<And>r. same_entry (heap m' r) (heap m r)"
  shows "watch_ok env m'"
  using assms(1) by (rule watch_ok_carry) (use assms(2-7) same_entryD(3-5) [OF assms(8)] in auto)

lemma suspectNode_watch:
  assumes t: "table_ok m" and w: "watch_ok env m"
  shows "watch_ok env (suspectNode env now s m)"
proof (cases rule: suspectNode_cases [of env now s m])
  case ignored
  with w show ?thesis by simp
next
  case (confirmed r i)
  have "watch_ok env (confirm_timer env now s i m)"
    using watch_okD [OF w] by (intro watch_okI) (auto intro: watched_confirm_timer)
  moreover from this have "watch_ok env (encodeBroadcastNotify env (su_Node s) suspectMsg (Suspect s) None (confirm_timer env now s i m))"
    by (rule watch_ok_cong) simp_all
  ultimately show ?thesis using confirmed(4) by metis
next
  case (refuted r)
  then show ?thesis unfolding refuted(5) using w by (intro watch_ok_carry [OF w]) (auto split: if_splits)
next
  case (suspected r m1)
  have nm: "su_Node s \<noteq> c_Name env" using table_okD(3) [OF t suspected(1)] suspected(5) by simp
  have new: "watched m1 (su_Node s) (heap m1 r)"
    unfolding watched_def by (rule disjI1, rule exI [of _ "nextTimer m"]) (simp add: suspected(6))
  have old: "watched m1 nm (heap m x)" if "watched m nm (heap m x)" for nm x
    using that unfolding watched_def suspected(6) by (auto intro: less_SucI)
  have "watch_ok env m1"
  proof (rule watch_okI)
    fix n i assume "nodeTimers m1 n = Some i"
    then show "i < nextTimer m1 \<and> t_node (timers m1 i) = n"
      using watch_okD(1,2) [OF w, of n i] by (auto simp: suspected(6) split: if_splits)
  next
    fix n x assume x: "nodeMap m1 n = Some x" "s_State (heap m1 x) = StateSuspect"
    show "n \<noteq> c_Name env \<and> watched m1 n (heap m1 x)"
    proof (cases "x = r")
      case True
      then have "n = su_Node s" using x(1) nodeMap_inj [OF t _ suspected(1)] by (simp add: suspected(6))
      with nm new True show ?thesis by simp
    next
      case False
      then have h: "heap m1 x = heap m x" by (simp add: suspected(6))
      have "nodeMap m n = Some x" using x(1) by (simp add: suspected(6))
      with x(2) h watch_okD(3,4) [OF w] old show ?thesis by auto
    qed
  next
    show "nodeTimers m1 (c_Name env) = None" using watch_okD(5) [OF w] nm by (simp add: suspected(6))
  qed
  moreover from this have "watch_ok env (notify_ev ev (sync_node_state r m1))" for ev
    by (rule watch_ok_cong) (simp_all add: same_entry_sync)
  ultimately show ?thesis using suspected(7) by metis
qed

lemma suspectNode_ok [inv_intros]:
  assumes "env_ok env" and "member_ok env m"
  shows "member_ok env (suspectNode env now s m)"
  unfolding member_ok_def using member_okD [OF assms(2)] assms(1)
  by (intro conjI suspectNode_table suspectNode_queue suspectNode_awareness suspectNode_watch)

text \<open>Weight messages touch the weight only.\<close>

lemma weightNode_effect:
  shows "nodes (weightNode env w m) = nodes m" "nodeMap (weightNode env w m) = nodeMap m"
    "numNodes (weightNode env w m) = numNodes m" "nextRef (weightNode env w m) = nextRef m"
    "timers (weightNode env w m) = timers m" "nextTimer (weightNode env w m) = nextTimer m"
    "nodeTimers (weightNode env w m) = nodeTimers m" "started (weightNode env w m) = started m"
    "deadq (weightNode env w m) = deadq m" "m_awareness (weightNode env w m) = m_awareness m"
    "same_entry (heap (weightNode env w m) r) (heap m r)"
  by (auto simp: weightNode_def Let_def same_entry_def entry_of_def versions_of_def split: option.splits)

lemma weightNode_ok [inv_intros]:
  assumes "env_ok env" and "member_ok env m"
  shows "member_ok env (weightNode env w m)"
proof -
  note ok = member_okD [OF assms(2)]
  have "table_ok (weightNode env w m)"
    using ok(1) by (rule table_ok_same) (simp_all add: weightNode_effect same_entryD(1) [OF weightNode_effect(11)])
  moreover have "watch_ok env (weightNode env w m)"
    using ok(2) by (rule watch_ok_cong) (simp_all add: weightNode_effect)
  moreover have "queue_ok (x_btree env) (broadcasts (weightNode env w m))"
    using ok(3) assms(1) by (auto simp: weightNode_def Let_def intro!: queue_ok_encodeWeight split: option.splits)
  ultimately show ?thesis using ok(4) by (simp add: member_ok_def weightNode_effect)
qed

text \<open>Alive messages: finding or creating the entry.\<close>

lemma alive_target_Inl: "alive_target env now rnd a m = Inl m' \<Longrightarrow> m' = m \<or> (\<exists>ev. m' = notify_ev ev m)"
  by (auto simp: alive_target_def Let_def split: option.splits if_splits)

lemma alive_target_cases:
  fixes m :: "'t memberlist"
  assumes "alive_target env now rnd a m = Inr (r, u, m')"
  obtains (known) "nodeMap m (a_Node a) = Some r" "m' = m"
      "u \<Longrightarrow> s_State (heap m r) = StateLeft \<or> s_State (heap m r) = StateDead"
      "u \<Longrightarrow> s_Addr (heap m r) \<noteq> a_Addr a \<or> s_Port (heap m r) \<noteq> a_Port a"
      "u \<or> s_Addr (heap m r) = a_Addr a \<and> s_Port (heap m r) = a_Port a"
  | (new) n1 where "nodeMap m (a_Node a) = None" "r = nextRef m" "\<not> u" "n_Name n1 = a_Node a"
      "n_Addr n1 = a_Addr a" "n_Port n1 = a_Port a" "n_Meta n1 = a_Meta a"
      "m' = m\<lparr>heap := (heap m)(r := NewNodeState n1 StateDead), nextRef := Suc r,
              nodeMap := (nodeMap m)(a_Node a \<mapsto> r),
              nodes := swap_at (randomOffset (length (nodes m)) rnd) (length (nodes m)) (nodes m @ [r]),
              numNodes := numNodes m + 1\<rparr>"
proof (cases "nodeMap m (a_Node a)")
  case None
  let ?n0 = "mk_Node (a_Node a) (a_Addr a) (a_Port a) (a_Meta a)"
  let ?n1 = "if length (a_Vsn a) > 5 then set_versions (a_Vsn a) ?n0 else ?n0"
  have "n_Name ?n1 = a_Node a" "n_Addr ?n1 = a_Addr a" "n_Port ?n1 = a_Port a" "n_Meta ?n1 = a_Meta a"
    by (simp_all add: mk_Node_def set_versions_def)
  then show ?thesis using assms None by (intro new [of ?n1]) (auto simp: alive_target_def Let_def split: if_splits)
next
  case (Some x)
  then show ?thesis using assms by (intro known) (auto simp: alive_target_def Let_def split: if_splits)
qed

lemma randomOffset_le: "randomOffset n rnd \<le> n"
  using randomOffset_less [of n rnd] by (cases "n = 0") (auto simp: randomOffset_def)

lemma alive_target_ok:
  assumes ok: "member_ok env m" and r: "alive_target env now rnd a m = Inr (r, u, m')"
  shows "member_ok env m' \<and> nodeMap m' (a_Node a) = Some r"
  using r
proof (cases rule: alive_target_cases)
  case known
  with ok show ?thesis by simp
next
  case (new n1)
  note t = member_okD(1) [OF ok] and w = member_okD(2) [OF ok]
  have fresh: "r \<notin> ran (nodeMap m)" using table_okD(4) [OF t] new(2) by (auto simp: ran_def)
  let ?o = "randomOffset (length (nodes m)) rnd"
  have o: "?o < length (nodes m @ [r])" using randomOffset_le [of "length (nodes m)" rnd] by simp
  have "table_ok m'"
  proof (rule table_okI)
    show "distinct (nodes m')" "set (nodes m') = ran (nodeMap m')" "numNodes m' = of_nat (length (nodes m'))"
      using o fresh new(1) table_okD(1,2,5) [OF t] by (simp_all add: new(8) add.commute)
  next
    fix nm x assume x: "nodeMap m' nm = Some x"
    show "s_Name (heap m' x) = nm" "x < nextRef m'"
      using x table_okD(3,4) [OF t, of nm x] new(2,4) by (auto simp: new(8) NewNodeState_def split: if_splits)
  qed
  moreover have "watch_ok env m'"
    using w
  proof (rule watch_ok_carry)
    fix nm x assume "nodeMap m' nm = Some x" "s_State (heap m' x) = StateSuspect"
    then show "nodeMap m nm = Some x \<and> s_State (heap m x) = StateSuspect \<and>
       s_StateChange (heap m' x) = s_StateChange (heap m x) \<and> s_Incarnation (heap m' x) = s_Incarnation (heap m x)"
      by (auto simp: new(8) NewNodeState_def split: if_splits)
  qed (simp_all add: new(8))
  ultimately show ?thesis using member_okD(3,4) [OF ok] by (simp add: member_ok_def new(8))
qed

lemma alive_apply_cases:
  fixes m :: "'t memberlist"
  assumes "alive_apply env now a ch bootstrap r u m = Some m'"
  obtains (stale) "m' = m"
      "a_Incarnation a \<le> s_Incarnation (heap m r) \<and> s_Name (heap m r) \<noteq> c_Name env \<and> \<not> u \<or>
       a_Incarnation a < s_Incarnation (heap m r) \<and> s_Name (heap m r) = c_Name env"
  | (echo) "m' = m\<lparr>nodeTimers := (nodeTimers m)(a_Node a := None)\<rparr>" "s_Name (heap m r) = c_Name env" "\<not> bootstrap"
      "a_Incarnation a = s_Incarnation (heap m r)"
  | (refuted) "s_Name (heap m r) = c_Name env" "\<not> bootstrap" "\<not> a_Incarnation a < s_Incarnation (heap m r)"
      "m' = alive_notify env r (s_State (heap m r)) (s_Meta (heap m r))
             (refute env r (a_Incarnation a) (m\<lparr>nodeTimers := (nodeTimers m)(a_Node a := None)\<rparr>))"
  | (updated) "bootstrap \<or> s_Name (heap m r) \<noteq> c_Name env" "a_Vsn a = [] \<or> 6 \<le> length (a_Vsn a)"
      "s_Name (heap m r) = c_Name env \<longrightarrow> \<not> a_Incarnation a < s_Incarnation (heap m r)"
      "s_Name (heap m r) \<noteq> c_Name env \<longrightarrow> u \<or> s_Incarnation (heap m r) < a_Incarnation a"
      "m' = alive_notify env r (s_State (heap m r)) (s_Meta (heap m r)) (upd_node r (alive_update now a)
             (encodeBroadcastNotify env (a_Node a) aliveMsg (Alive a) ch (m\<lparr>nodeTimers := (nodeTimers m)(a_Node a := None)\<rparr>)))"
proof -
  let ?s = "heap m r"
  let ?old = "a_Incarnation a \<le> s_Incarnation ?s \<and> s_Name ?s \<noteq> c_Name env \<and> \<not> u"
  let ?less = "a_Incarnation a < s_Incarnation ?s \<and> s_Name ?s = c_Name env"
  let ?self = "\<not> bootstrap \<and> s_Name ?s = c_Name env"
  let ?eq = "a_Incarnation a = s_Incarnation ?s \<and> a_Meta a = s_Meta ?s \<and> a_Vsn a = versions_of (s_Node ?s)"
  let ?short = "0 < length (a_Vsn a) \<and> length (a_Vsn a) < 6"
  consider "?old \<or> ?less" | "\<not> ?old" "\<not> ?less" "?self" "?eq" | "\<not> ?old" "\<not> ?less" "?self" "\<not> ?eq"
    | "\<not> ?old" "\<not> ?less" "\<not> ?self" "?short" | "\<not> ?old" "\<not> ?less" "\<not> ?self" "\<not> ?short" by argo
  then show ?thesis
  proof cases
    case 1
    then have "m' = m"
    proof
      assume ?old then show ?thesis using assms by (simp add: alive_apply_def Let_def)
    next
      assume ?less then show ?thesis using assms by (simp add: alive_apply_def Let_def)
    qed
    with 1 show ?thesis by (intro stale) blast+
  next
    case 2
    then show ?thesis using assms by (intro echo) (simp_all add: alive_apply_def Let_def)
  next
    case 3
    then have "m' = alive_notify env r (s_State (heap m r)) (s_Meta (heap m r))
         (refute env r (a_Incarnation a) (m\<lparr>nodeTimers := (nodeTimers m)(a_Node a := None)\<rparr>))"
      using assms unfolding alive_apply_def Let_def by (simp only: if_False if_True option.inject simp_thms)
    then show ?thesis using 3 by (intro refuted) simp_all
  next
    case 4
    then show ?thesis
      using assms unfolding alive_apply_def Let_def by (simp only: if_False if_True simp_thms option.distinct)
  next
    case 5
    then have "m' = alive_notify env r (s_State (heap m r)) (s_Meta (heap m r)) (upd_node r (alive_update now a)
         (encodeBroadcastNotify env (a_Node a) aliveMsg (Alive a) ch (m\<lparr>nodeTimers := (nodeTimers m)(a_Node a := None)\<rparr>)))"
      using assms unfolding alive_apply_def Let_def by (simp only: if_False option.inject)
    then show ?thesis using 5 by (intro updated) (auto simp: not_le)
  qed
qed

lemma s_Name_alive_update [simp]: "s_Name (alive_update now a s) = s_Name s"
  by (simp add: alive_update_def Let_def set_versions_def)

lemma s_State_alive_update [simp]: "s_State (alive_update now a s) = StateAlive"
  by (simp add: alive_update_def Let_def)

end
