(* ===== verification/Membership.thy ===== *)
theory Membership
  imports Member_Invariant
begin

text \<open>
  The membership protocol as a state machine: the handlers of \<open>memberlist/state.go\<close>, the
  timers and the reaping of dead nodes as steps, the invariant of every reachable state, and
  the promises of the protocol: refutation, suspicion before death, monotone incarnations.
\<close>

section \<open>Alive messages and reaping keep the invariant\<close>

lemma alive_apply_ok:
  assumes e: "env_ok env" and ok: "member_ok env m" and r: "nodeMap m (a_Node a) = Some r"
    and s: "alive_apply env now a ch bootstrap r u m = Some m'"
  shows "member_ok env m'"
  using s
proof (cases rule: alive_apply_cases)
  case stale
  with ok show ?thesis by simp
next
  case echo
  have "table_ok m'" using member_okD(1) [OF ok] by (rule table_ok_same) (simp_all add: echo(1))
  moreover have "watch_ok env m'"
    using member_okD(2) [OF ok] by (rule watch_ok_carry) (auto simp: echo(1) split: if_splits)
  ultimately show ?thesis using member_okD(3,4) [OF ok] by (simp add: member_ok_def echo(1))
next
  case refuted
  have "table_ok m'"
    using member_okD(1) [OF ok] by (rule table_ok_same) (simp_all add: refuted(4) same_entryD(1) [OF same_entry_alive_notify])
  moreover have "watch_ok env m'"
    using member_okD(2) [OF ok]
    by (rule watch_ok_carry)
      (use watch_okD(3) [OF member_okD(2) [OF ok] r] table_okD(3) [OF member_okD(1) [OF ok] r] refuted(1) in
        \<open>auto simp: refuted(4) same_entryD(3-5) [OF same_entry_alive_notify] split: if_splits\<close>)
  moreover have "queue_ok (x_btree env) (broadcasts m')"
    using member_okD(3) [OF ok] e by (simp add: refuted(4) queue_ok_refute)
  ultimately show ?thesis using member_okD(4) [OF ok] by (simp add: member_ok_def refuted(4) ApplyDelta_ok)
next
  case updated
  have "table_ok m'"
    using member_okD(1) [OF ok] by (rule table_ok_same) (simp_all add: updated(5) same_entryD(1) [OF same_entry_alive_notify])
  moreover have "watch_ok env m'"
    using member_okD(2) [OF ok]
    by (rule watch_ok_carry) (auto simp: updated(5) same_entryD(3-5) [OF same_entry_alive_notify] split: if_splits)
  moreover have "queue_ok (x_btree env) (broadcasts m')"
    using member_okD(3) [OF ok] e by (simp add: updated(5) queue_ok_encodeBroadcastNotify)
  ultimately show ?thesis using member_okD(4) [OF ok] by (simp add: member_ok_def updated(5))
qed

lemma member_ok_notify: "member_ok env m \<Longrightarrow> member_ok env (notify_ev ev m)"
  using table_ok_same [of m "notify_ev ev m"] watch_ok_cong [of env m "notify_ev ev m"] by (simp add: member_ok_def)

lemma aliveNode_ok [inv_intros]:
  assumes "env_ok env" and "member_ok env m" and "aliveNode env now rnd a ch bootstrap m = Some m'"
  shows "member_ok env m'"
proof (cases "alive_ignored env a m")
  case True
  with assms show ?thesis by (simp add: aliveNode_def)
next
  case False
  show ?thesis
  proof (cases "alive_target env now rnd a m")
    case (Inl m1)
    then have "m' = m1" using assms(3) False by (simp add: aliveNode_def)
    with alive_target_Inl [OF Inl] assms(2) show ?thesis by (auto intro: member_ok_notify)
  next
    case (Inr p)
    then obtain r u m1 where p: "alive_target env now rnd a m = Inr (r, u, m1)" by (metis surj_pair)
    then have "alive_apply env now a ch bootstrap r u m1 = Some m'" using assms(3) False by (simp add: aliveNode_def)
    with alive_target_ok [OF assms(2) p] alive_apply_ok [OF assms(1)] show ?thesis by blast
  qed
qed

lemma fold_remove_names:
  "foldl (\<lambda>mp r. mp(f r := None)) mp rs = (\<lambda>k. if k \<in> f ` set rs then None else mp k)"
  by (induction rs arbitrary: mp) (auto simp: fun_eq_iff)

lemma resetNodes_effect:
  assumes t: "table_ok m"
  shows "set (nodes (resetNodes env now draw m)) =
           {r \<in> set (nodes m). \<not> reapable (heap m) now (c_GossipToTheDeadTime env) r}"
    and "nodeMap (resetNodes env now draw m) = (\<lambda>nm. case nodeMap m nm of None \<Rightarrow> None
           | Some r \<Rightarrow> if reapable (heap m) now (c_GossipToTheDeadTime env) r then None else Some r)"
    and "distinct (nodes (resetNodes env now draw m))"
    and "numNodes (resetNodes env now draw m) = of_nat (length (nodes (resetNodes env now draw m)))"
    and "heap (resetNodes env now draw m) = heap m" "nextRef (resetNodes env now draw m) = nextRef m"
    "timers (resetNodes env now draw m) = timers m" "nextTimer (resetNodes env now draw m) = nextTimer m"
    "nodeTimers (resetNodes env now draw m) = nodeTimers m" "started (resetNodes env now draw m) = started m"
    "deadq (resetNodes env now draw m) = deadq m" "m_awareness (resetNodes env now draw m) = m_awareness m"
    "broadcasts (resetNodes env now draw m) = broadcasts m" "incarnation (resetNodes env now draw m) = incarnation m"
    "m_leave (resetNodes env now draw m) = m_leave m" "notified (resetNodes env now draw m) = notified m"
proof -
  let ?g = "reapable (heap m) now (c_GossipToTheDeadTime env)"
  let ?m' = "resetNodes env now draw m"
  obtain k xs where kx: "moveDeadNodes (heap m) now (c_GossipToTheDeadTime env) (nodes m) = (k, xs)" by fastforce
  note s = moveDeadNodes_spec [OF kx]
  have set: "set xs = set (nodes m)" using s(1) by (metis set_mset_mset)
  have d: "distinct xs" using s(1) table_okD(1) [OF t] by (metis mset_eq_imp_distinct_iff)
  show "set (nodes ?m') = {r \<in> set (nodes m). \<not> ?g r}" "distinct (nodes ?m')"
    using d by (simp_all add: resetNodes_def kx Let_def s(4) set)
  show "numNodes ?m' = of_nat (length (nodes ?m'))"
    using s(2,3) by (simp add: resetNodes_def kx Let_def)
  have "nodeMap ?m' nm = (case nodeMap m nm of None \<Rightarrow> None | Some r \<Rightarrow> if ?g r then None else Some r)" for nm
  proof (cases "nodeMap m nm")
    case None
    then show ?thesis by (auto simp: resetNodes_def kx Let_def fold_remove_names)
  next
    case (Some r)
    have "nm \<in> (\<lambda>r. s_Name (heap m r)) ` set (filter ?g xs) \<longleftrightarrow> ?g r"
    proof
      assume "nm \<in> (\<lambda>r. s_Name (heap m r)) ` set (filter ?g xs)"
      then obtain x where x: "x \<in> set (nodes m)" "?g x" "s_Name (heap m x) = nm" by (auto simp: set)
      then obtain nm' where "nodeMap m nm' = Some x" using table_okD(2) [OF t] by (auto simp: ran_def)
      with x(3) table_okD(3) [OF t] have "nodeMap m nm = Some x" by metis
      with x Some show "?g r" by simp
    next
      assume "?g r"
      moreover have "r \<in> set xs" using Some table_okD(2) [OF t] by (auto simp: set ran_def)
      ultimately show "nm \<in> (\<lambda>r. s_Name (heap m r)) ` set (filter ?g xs)"
        using table_okD(3) [OF t Some] by (auto simp: image_iff)
    qed
    with Some show ?thesis by (simp add: resetNodes_def kx Let_def fold_remove_names s(5))
  qed
  then show "nodeMap ?m' = (\<lambda>nm. case nodeMap m nm of None \<Rightarrow> None | Some r \<Rightarrow> if ?g r then None else Some r)"
    by blast
qed (simp_all add: resetNodes_def Let_def split: prod.splits)

lemma resetNodes_ok [inv_intros]:
  assumes "member_ok env m"
  shows "member_ok env (resetNodes env now draw m)"
proof -
  note ok = member_okD [OF assms]
  note f = resetNodes_effect [OF ok(1)]
  let ?m' = "resetNodes env now draw m"
  have "table_ok ?m'"
  proof (rule table_okI)
    show "set (nodes ?m') = ran (nodeMap ?m')"
      using table_okD(2) [OF ok(1)] by (auto simp: f ran_def split: option.splits if_splits)
  qed (use f(3,4) table_okD(3,4) [OF ok(1)] in \<open>auto simp: f(2,5,6) split: option.splits if_splits\<close>)
  moreover have "watch_ok env ?m'"
    using ok(2) by (rule watch_ok_carry) (auto simp: f(2,5-12) split: option.splits if_splits)
  ultimately show ?thesis using ok(3,4) by (simp add: member_ok_def f(12,13))
qed

section \<open>The state machine\<close>

definition blank_timer :: susp_timer where
  "blank_timer = \<lparr>t_sus = \<lparr>sus_n = 0, sus_k = 0, sus_min = 0, sus_max = 0, sus_start = 0, sus_timer = None,
     sus_confirmations = {}\<rparr>, t_node = [], t_change = 0\<rparr>"

text \<open>The object \<open>NewMemberlist\<close> builds; unallocated heap cells hold zero values.\<close>

definition new_memberlist :: "int \<Rightarrow> 't memberlist" where
  "new_memberlist AwarenessMaxMultiplier =
     \<lparr>sequenceNum = 0, incarnation = 0, numNodes = 0, m_shutdown = False, m_leave = False,
      heap = (\<lambda>_. NewNodeState (mk_Node [] [] 0 []) StateAlive), nextRef = 0, nodes = [], nodeMap = Map.empty,
      timers = (\<lambda>_. blank_timer), nextTimer = 0, nodeTimers = Map.empty, started = [], deadq = [],
      m_awareness = newAwareness AwarenessMaxMultiplier, probeIndex = 0, broadcasts = empty_queue 0, notified = []\<rparr>"

inductive member_step :: "('t, 'ip) env \<Rightarrow> 't memberlist \<Rightarrow> 't memberlist \<Rightarrow> bool" for env where
  alive: "aliveNode env now rnd a ch bootstrap m = Some m' \<Longrightarrow> member_step env m m'"
| suspect: "member_step env m (suspectNode env now s m)"
| dead: "member_step env m (deadNode env now d m)"
| weight: "member_step env m (weightNode env w m)"
| expire: "timer_expire now i m = Some m' \<Longrightarrow> member_step env m m'"
| check: "i \<in> set (started m) \<Longrightarrow> member_step env m (timeout_check env i m)"
| timeout: "d \<in> set (deadq m) \<Longrightarrow> member_step env m (timeout_dead env now d m)"
| reap: "member_step env m (resetNodes env now draw m)"
| health: "member_step env m (m\<lparr>m_awareness := ApplyDelta (m_awareness m) delta\<rparr>)"
| leave: "member_step env m (m\<lparr>m_leave := True\<rparr>)"
| gossip: "0 \<le> overhead \<Longrightarrow>
     GetBroadcasts (x_btree env) (x_log10 env) (Some (c_RetransmitMult env)) (estNumNodes m) (broadcasts m) overhead limit =
       Some (msgs, q) \<Longrightarrow> member_step env m (m\<lparr>broadcasts := q\<rparr>)"
| seqno: "member_step env m (snd (nextSeqNo m))"
| incarn: "member_step env m (snd (nextIncarnation m))"

inductive member_reach :: "('t, 'ip) env \<Rightarrow> int \<Rightarrow> 't memberlist \<Rightarrow> bool" for env mx where
  init: "member_reach env mx (new_memberlist mx)"
| step: "member_reach env mx m \<Longrightarrow> member_step env m m' \<Longrightarrow> member_reach env mx m'"

inductive_cases member_stepE: "member_step env m m'"

lemma member_ok_same:
  assumes "member_ok env m" "nodes m' = nodes m" "nodeMap m' = nodeMap m" "numNodes m' = numNodes m" "nextRef m' = nextRef m"
    "heap m' = heap m" "timers m' = timers m" "nextTimer m' = nextTimer m" "started m' = started m" "deadq m' = deadq m"
    "nodeTimers m' = nodeTimers m" "queue_ok (x_btree env) (broadcasts m')" "awareness_ok (m_awareness m')"
  shows "member_ok env m'"
  using assms table_ok_same [of m m'] watch_ok_cong [of env m m'] by (simp add: member_ok_def)

lemma member_ok_new:
  assumes "env_ok env" and "1 \<le> mx"
  shows "member_ok env (new_memberlist mx)"
proof -
  have "table_ok (new_memberlist mx :: 'a memberlist)" by (simp add: table_ok_def new_memberlist_def)
  moreover have "watch_ok env (new_memberlist mx)" by (simp add: watch_ok_def new_memberlist_def)
  ultimately show ?thesis
    using assms queue_ok_empty [of "x_btree env" 0] newAwareness_ok by (simp add: member_ok_def new_memberlist_def env_ok_def)
qed

lemma member_step_ok:
  assumes e: "env_ok env" and ok: "member_ok env m" and s: "member_step env m m'"
  shows "member_ok env m'"
  using s
proof cases
  case (gossip overhead limit msgs q)
  have "queue_ok (x_btree env) q"
    by (rule GetBroadcasts_ok [OF _ member_okD(3) [OF ok] gossip(2,3)]) (use e in \<open>simp add: env_ok_def\<close>)
  then show ?thesis unfolding gossip(1) using member_okD(4) [OF ok] by (intro member_ok_same [OF ok]) simp_all
next
  case (health delta)
  show ?thesis unfolding health
    using member_okD(3,4) [OF ok] ApplyDelta_ok by (intro member_ok_same [OF ok]) simp_all
next
  case seqno
  show ?thesis unfolding seqno
    using member_okD(3,4) [OF ok] by (intro member_ok_same [OF ok]) (simp_all add: nextSeqNo_def)
next
  case incarn
  show ?thesis unfolding incarn
    using member_okD(3,4) [OF ok] by (intro member_ok_same [OF ok]) (simp_all add: nextIncarnation_def)
next
  case leave
  show ?thesis unfolding leave
    using member_okD(3,4) [OF ok] by (intro member_ok_same [OF ok]) simp_all
qed (use e ok in \<open>auto intro: inv_intros\<close>)

lemma member_reach_ok:
  assumes "env_ok env" and "1 \<le> mx"
  shows "member_reach env mx m \<Longrightarrow> member_ok env m"
  by (induction rule: member_reach.induct) (use assms in \<open>auto intro: member_ok_new member_step_ok\<close>)

section \<open>Protocol rules\<close>

text \<open>Refuting an accusation, whatever kind of message carried it.\<close>

lemma suspect_self:
  assumes "table_ok m" and "watch_ok env m" and "nodeMap m (c_Name env) = Some r" and "su_Node s = c_Name env"
    and "s_State (heap m r) = StateAlive" and "nodeTimers m (c_Name env) = None"
    and "\<not> su_Incarnation s < s_Incarnation (heap m r)"
  shows "suspectNode env now s m = refute env r (su_Incarnation s) m"
  using assms table_okD(3) [OF assms(1,3)] by (simp add: suspectNode_def)

lemma dead_self:
  assumes "table_ok m" and "nodeMap m (c_Name env) = Some r" and "d_Node d = c_Name env"
    and "s_State (heap m r) = StateAlive" and "\<not> hasLeft m" and "\<not> d_Incarnation d < s_Incarnation (heap m r)"
  shows "deadNode env now d m =
     refute env r (d_Incarnation d) (m\<lparr>nodeTimers := (nodeTimers m)(c_Name env := None)\<rparr>)"
  using assms table_okD(3) [OF assms(1,2)] by (simp add: deadNode_def Let_def DeadOrLeft_def hasLeft_def)

text \<open>The alive message a refutation sends.\<close>

definition refutation :: "u32 \<Rightarrow> nodeState \<Rightarrow> alive" where
  "refutation inc s = \<lparr>a_Incarnation = inc, a_Node = s_Name s, a_Addr = s_Addr s, a_Port = s_Port s,
     a_Meta = s_Meta s, a_Vsn = versions_of (s_Node s)\<rparr>"

lemma refute_broadcasts:
  "broadcasts (refute env me acc m) =
     (case encode (x_codec env) aliveMsg (Alive (refutation (refuted (incarnation m) acc) (heap m me))) of
        Inl err \<Rightarrow> broadcasts m
      | Inr buf \<Rightarrow> QueueBroadcast (x_btree env) (\<lambda>_ _. False) (broadcasts m)
                     (MemberlistBroadcast (s_Addr (heap m me)) buf None))"
  by (cases "incarnation m + 1 \<le> acc")
    (simp_all add: refute_def nextIncarnation_def skipIncarnation_def Let_def encodeAndBroadcast_def
      encodeBroadcastNotify_def m_queueBroadcast_def refutation_def refuted_def upd_node_def ac_simps split: sum.splits)

lemma refute_queues_alive:
  assumes "env_ok env" and "queue_ok (x_btree env) (broadcasts m)"
    and "encode (x_codec env) aliveMsg (Alive (refutation (refuted (incarnation m) acc) (heap m me))) = Inr buf"
  shows "\<exists>lb \<in> set (items (x_btree env) (broadcasts (refute env me acc m))).
     Message (lb_b lb) = buf \<and> transmits lb = 0"
proof -
  let ?b = "MemberlistBroadcast (s_Addr (heap m me)) buf None"
  have L: "btree_laws (x_btree env)" "codec_laws (x_codec env)" using assms(1) by (simp_all add: env_ok_def)
  have len: "int (length (Message ?b)) \<le> MaxInt64" using encode_length [OF L(2) assms(3)] by simp
  show ?thesis
  proof (rule queueBroadcast_ok [OF L(1) assms(2) len order_refl, of "\<lambda>_ _. False", folded QueueBroadcast_def])
    fix lb assume "lb_b lb = ?b" "transmits lb = 0"
      "lb \<in> set (items (x_btree env) (QueueBroadcast (x_btree env) (\<lambda>_ _. False) (broadcasts m) ?b))"
    then show ?thesis unfolding refute_broadcasts assms(3) sum.case by (intro bexI [of _ lb]) simp_all
  qed
qed

text \<open>Incarnation numbers of the other nodes.\<close>

definition inc_kept :: "('t, 'ip) env \<Rightarrow> 't memberlist \<Rightarrow> 't memberlist \<Rightarrow> string \<Rightarrow> bool" where
  "inc_kept env m m' nm \<longleftrightarrow>
     (\<forall>r r'. nodeMap m nm = Some r \<longrightarrow> nodeMap m' nm = Some r' \<longrightarrow>
        s_Incarnation (heap m r) \<le> s_Incarnation (heap m' r') \<or>
        s_Addr (heap m r) \<noteq> s_Addr (heap m' r') \<or> s_Port (heap m r) \<noteq> s_Port (heap m' r'))"

lemma inc_kept_same:
  assumes "nodeMap m' = nodeMap m" and "\<And>r. s_Incarnation (heap m r) \<le> s_Incarnation (heap m' r)"
  shows "inc_kept env m m' nm"
  using assms by (auto simp: inc_kept_def)

lemma inc_kept_at:
  assumes "table_ok m" and "nodeMap m' = nodeMap m" and "nodeMap m nm0 = Some r"
    and "\<And>x. x \<noteq> r \<Longrightarrow> s_Incarnation (heap m' x) = s_Incarnation (heap m x)"
    and "nm = nm0 \<Longrightarrow> s_Incarnation (heap m r) \<le> s_Incarnation (heap m' r) \<or>
        s_Addr (heap m r) \<noteq> s_Addr (heap m' r) \<or> s_Port (heap m r) \<noteq> s_Port (heap m' r)"
  shows "inc_kept env m m' nm"
  unfolding inc_kept_def
proof (intro allI impI)
  fix x x' assume "nodeMap m nm = Some x" "nodeMap m' nm = Some x'"
  then have x: "x' = x" "nodeMap m nm = Some x" using assms(2) by auto
  show "s_Incarnation (heap m x) \<le> s_Incarnation (heap m' x') \<or>
        s_Addr (heap m x) \<noteq> s_Addr (heap m' x') \<or> s_Port (heap m x) \<noteq> s_Port (heap m' x')"
  proof (cases "x = r")
    case True
    then have "nm = nm0" using nodeMap_inj [OF assms(1)] x(2) assms(3) by blast
    with assms(5) True x(1) show ?thesis by simp
  next
    case False
    with assms(4) x(1) show ?thesis by simp
  qed
qed

lemma deadNode_inc:
  assumes "table_ok m" and "nm \<noteq> c_Name env"
  shows "inc_kept env m (deadNode env now d m) nm"
proof (cases rule: deadNode_cases [of m d env now])
  case (refuted r)
  have "d_Node d = c_Name env" using table_okD(3) [OF assms(1) refuted(1)] refuted(4) by simp
  with assms(2) show ?thesis unfolding refuted(6)
    by (intro inc_kept_at [OF assms(1) _ refuted(1)]) (auto split: if_splits)
next
  case (marked r m1 ch)
  show ?thesis unfolding marked(6)
    by (rule inc_kept_at [OF assms(1) _ marked(1)]) (use marked(2,5) in \<open>auto split: if_splits\<close>)
qed (auto intro: inc_kept_same)

lemma suspectNode_inc:
  assumes "table_ok m" and "nm \<noteq> c_Name env"
  shows "inc_kept env m (suspectNode env now s m) nm"
proof (cases rule: suspectNode_cases [of env now s m])
  case (refuted r)
  have "su_Node s = c_Name env" using table_okD(3) [OF assms(1) refuted(1)] refuted(4) by simp
  with assms(2) show ?thesis unfolding refuted(5)
    by (intro inc_kept_at [OF assms(1) _ refuted(1)]) (auto split: if_splits)
next
  case (confirmed r i)
  then show ?thesis by (auto intro: inc_kept_same)
next
  case (suspected r m1)
  have "inc_kept env m m1 nm"
    by (rule inc_kept_at [OF assms(1) _ suspected(1)]) (use suspected(2,6) in \<open>auto split: if_splits\<close>)
  moreover have "inc_kept env m (notify_ev ev (sync_node_state r m1)) nm" for ev
    by (rule inc_kept_at [OF assms(1) _ suspected(1)])
      (use suspected(2,6) in \<open>auto simp: same_entryD(3) [OF same_entry_sync] split: if_splits\<close>)
  ultimately show ?thesis using suspected(7) by metis
qed (auto intro: inc_kept_same)

lemma s_Inc_alive_update [simp]: "s_Incarnation (alive_update now a s) = a_Incarnation a"
  and s_Addr_alive_update [simp]: "s_Addr (alive_update now a s) = a_Addr a"
  and s_Port_alive_update [simp]: "s_Port (alive_update now a s) = a_Port a"
  by (simp_all add: alive_update_def Let_def)

lemma same_entry_addr: "same_entry s t \<Longrightarrow> s_Addr s = s_Addr t \<and> s_Port s = s_Port t"
  unfolding same_entry_def entry_of_def by simp

lemma alive_apply_inc:
  assumes "table_ok m" and "nm \<noteq> c_Name env" and "nodeMap m (a_Node a) = Some r"
    and "u \<Longrightarrow> s_Addr (heap m r) \<noteq> a_Addr a \<or> s_Port (heap m r) \<noteq> a_Port a"
    and "alive_apply env now a ch bootstrap r u m = Some m'"
  shows "inc_kept env m m' nm"
  using assms(5)
proof (cases rule: alive_apply_cases)
  case refuted
  have "a_Node a = c_Name env" using table_okD(3) [OF assms(1,3)] refuted(1) by simp
  with assms(2) show ?thesis unfolding refuted(4)
    by (intro inc_kept_at [OF assms(1) _ assms(3)]) (auto simp: same_entryD(3) [OF same_entry_alive_notify] split: if_splits)
next
  case updated
  have h: "s_Incarnation (heap m' r) = a_Incarnation a" "s_Addr (heap m' r) = a_Addr a" "s_Port (heap m' r) = a_Port a"
    unfolding updated(5)
    by (simp_all add: same_entryD(3) [OF same_entry_alive_notify] same_entry_addr [OF same_entry_alive_notify])
  have o: "s_Incarnation (heap m' x) = s_Incarnation (heap m x)" if "x \<noteq> r" for x
    unfolding updated(5) using that by (simp add: same_entryD(3) [OF same_entry_alive_notify])
  have mp: "nodeMap m' = nodeMap m" unfolding updated(5) by simp
  show ?thesis
  proof (rule inc_kept_at [OF assms(1) mp assms(3) o])
    assume "nm = a_Node a"
    then have "s_Name (heap m r) \<noteq> c_Name env" using table_okD(3) [OF assms(1,3)] assms(2) by simp
    with updated(4) have "u \<or> s_Incarnation (heap m r) < a_Incarnation a" by blast
    with assms(4) show "s_Incarnation (heap m r) \<le> s_Incarnation (heap m' r) \<or>
        s_Addr (heap m r) \<noteq> s_Addr (heap m' r) \<or> s_Port (heap m r) \<noteq> s_Port (heap m' r)"
      unfolding h by auto
  qed
qed (auto intro: inc_kept_same)

lemma aliveNode_inc:
  assumes t: "table_ok m" and ok: "member_ok env m" and nm: "nm \<noteq> c_Name env"
    and s: "aliveNode env now rnd a ch bootstrap m = Some m'"
  shows "inc_kept env m m' nm"
proof (cases "alive_ignored env a m")
  case True
  with s show ?thesis by (simp add: aliveNode_def inc_kept_def)
next
  case False
  show ?thesis
  proof (cases "alive_target env now rnd a m")
    case (Inl m1)
    then have "m' = m1" using s False by (simp add: aliveNode_def)
    with alive_target_Inl [OF Inl] show ?thesis by (auto intro: inc_kept_same)
  next
    case (Inr p)
    then obtain r u m1 where p: "alive_target env now rnd a m = Inr (r, u, m1)" by (metis surj_pair)
    then have s1: "alive_apply env now a ch bootstrap r u m1 = Some m'" using s False by (simp add: aliveNode_def)
    have ok1: "table_ok m1" and r: "nodeMap m1 (a_Node a) = Some r"
      using alive_target_ok [OF ok p] member_okD(1) by blast+
    from p show ?thesis
    proof (cases rule: alive_target_cases)
      case known
      show ?thesis using alive_apply_inc [OF t nm known(1,4)] s1 known(2) by blast
    next
      case (new n1)
      have k: "inc_kept env m1 m' nm" using alive_apply_inc [OF ok1 nm r] s1 new(3) by blast
      show ?thesis
      proof (cases "nm = a_Node a")
        case True
        then show ?thesis using new(1) by (simp add: inc_kept_def)
      next
        case False
        have h: "heap m1 x = heap m x" if "nodeMap m nm = Some x" for x
          using that table_okD(4) [OF t that] new(2,8) by simp
        have "nodeMap m1 nm = nodeMap m nm" using False by (simp add: new(8))
        with k h show ?thesis by (auto simp: inc_kept_def)
      qed
    qed
  qed
qed

lemma resetNodes_inc: "table_ok m \<Longrightarrow> inc_kept env m (resetNodes env now draw m) nm"
  by (auto simp: inc_kept_def resetNodes_effect split: option.splits if_splits)

lemma member_step_inc:
  assumes ok: "member_ok env m" and nm: "nm \<noteq> c_Name env" and s: "member_step env m m'"
  shows "inc_kept env m m' nm"
proof -
  note t = member_okD(1) [OF ok]
  have td: "table_ok (m\<lparr>deadq := q\<rparr>)" for q using t by (rule table_ok_same) simp_all
  from s show ?thesis
  proof cases
    case (timeout d now)
    have "inc_kept env (m\<lparr>deadq := remove1 d (deadq m)\<rparr>) m' nm"
      unfolding timeout(1) timeout_dead_def by (rule deadNode_inc [OF td nm])
    then show ?thesis by (simp add: inc_kept_def)
  next
    case (weight w)
    then show ?thesis by (auto simp: inc_kept_def weightNode_effect same_entryD(3) [OF weightNode_effect(11)])
  next
    case (check i)
    then show ?thesis by (auto simp: inc_kept_def timeout_check_def Let_def split: option.splits)
  next
    case (expire now i)
    then show ?thesis by (auto simp: inc_kept_def timer_expire_def split: option.splits if_splits)
  qed (use t ok nm in \<open>auto simp: nextSeqNo_def nextIncarnation_def intro: deadNode_inc suspectNode_inc aliveNode_inc
      resetNodes_inc inc_kept_same\<close>)
qed

section \<open>A small cluster, for evaluation\<close>

definition demo_env :: "wire_msg list \<Rightarrow> (limitedBroadcast list, nat) env" where
  "demo_env ms = \<lparr>c_Name = ''me'', c_BindPort = 7946, c_ProtocolVersion = 2, c_DelegateProtocolMin = 0,
     c_DelegateProtocolMax = 0, c_DelegateProtocolVersion = 0, c_SuspicionMult = 4, c_SuspicionMaxTimeoutMult = 6,
     c_ProbeInterval = 1000000000, c_RetransmitMult = 4, c_DeadNodeReclaimTime = 0,
     c_GossipToTheDeadTime = 30000000000, c_CIDRsAllowed = [], c_Alive = None, c_Events = True, c_Conflict = False,
     x_btree = list_btree, x_codec = table_codec ms,
     x_resolver = \<lparr>ParseIP = (\<lambda>_. None), LookupIP = (\<lambda>_. Inl ''no such host'')\<rparr>,
     x_log10 = log 10, x_log = ln\<rparr>"

lemma demo_env_simps [simp]:
  "c_Name (demo_env ms) = ''me''" "c_CIDRsAllowed (demo_env ms) = []" "c_Alive (demo_env ms) = None"
  "c_Events (demo_env ms)" "x_codec (demo_env ms) = table_codec ms" "x_btree (demo_env ms) = list_btree"
  "c_SuspicionMult (demo_env ms) = 4" "c_GossipToTheDeadTime (demo_env ms) = 30000000000"
  by (simp_all add: demo_env_def)

lemma demo_env_ok: "env_ok (demo_env ms)"
  by (simp add: env_ok_def list_btree_laws table_codec_laws)

definition hello :: "string \<Rightarrow> u32 \<Rightarrow> alive" where
  "hello nm inc = \<lparr>a_Incarnation = inc, a_Node = nm, a_Addr = ''10.0.0.1'', a_Port = 7946, a_Meta = [], a_Vsn = []\<rparr>"

lemma hello_simps [simp]:
  "a_Incarnation (hello nm inc) = inc" "a_Node (hello nm inc) = nm" "a_Addr (hello nm inc) = ''10.0.0.1''"
  "a_Port (hello nm inc) = 7946" "a_Meta (hello nm inc) = []" "a_Vsn (hello nm inc) = []"
  by (simp_all add: hello_def)

text \<open>A first alive message about an unknown node that is not the local one, or at bootstrap.\<close>

lemma refutation_same: "same_entry s t \<Longrightarrow> refutation i s = refutation i t"
  unfolding same_entry_def entry_of_def refutation_def by simp

lemma hello_joins:
  assumes "nodeMap m nm = None" and "nm = ''me'' \<longrightarrow> bootstrap \<and> \<not> m_leave m" and "0 < inc"
  shows "\<exists>m'. aliveNode (demo_env ms) now 0 (hello nm inc) None bootstrap m = Some m' \<and>
     nodeMap m' = (nodeMap m)(nm \<mapsto> nextRef m) \<and> s_Incarnation (heap m' (nextRef m)) = inc \<and>
     s_State (heap m' (nextRef m)) = StateAlive \<and> s_Name (heap m' (nextRef m)) = nm \<and>
     nodeTimers m' = (nodeTimers m)(nm := None) \<and> m_leave m' = m_leave m \<and> incarnation m' = incarnation m \<and>
     nextRef m' = Suc (nextRef m) \<and> numNodes m' = numNodes m + 1 \<and>
     (\<forall>i. refutation i (heap m' (nextRef m)) = (hello nm i)\<lparr>a_Vsn := [0, 0, 0, 0, 0, 0]\<rparr>) \<and>
     (\<forall>r. r \<noteq> nextRef m \<longrightarrow> same_entry (heap m' r) (heap m r))"
proof -
  let ?env = "demo_env ms" and ?r = "nextRef m" and ?a = "hello nm inc"
  have ig: "\<not> alive_ignored ?env ?a m" using assms(2) by (auto simp: alive_ignored_def hasLeft_def)
  obtain m1 where tg: "alive_target ?env now 0 ?a m = Inr (?r, False, m1)"
    and m1: "heap m1 ?r = NewNodeState (mk_Node nm ''10.0.0.1'' 7946 []) StateDead" "\<And>r. r \<noteq> ?r \<Longrightarrow> heap m1 r = heap m r"
      "nodeMap m1 = (nodeMap m)(nm \<mapsto> ?r)" "nodeTimers m1 = nodeTimers m" "m_leave m1 = m_leave m"
      "incarnation m1 = incarnation m" "nextRef m1 = Suc ?r" "numNodes m1 = numNodes m + 1"
    using assms(1) by (simp add: alive_target_def AddrAllowed_def IPMustBeChecked_def Let_def)
  let ?m2 = "upd_node ?r (alive_update now ?a) (encodeBroadcastNotify ?env nm aliveMsg (Alive ?a) None
               (m1\<lparr>nodeTimers := (nodeTimers m1)(nm := None)\<rparr>))"
  have z: "s_Incarnation (heap m1 ?r) = 0" "s_Name (heap m1 ?r) = nm" using m1(1) by (simp_all add: NewNodeState_def mk_Node_def)
  have "alive_apply ?env now ?a None bootstrap ?r False m1 =
      Some (alive_notify ?env ?r (s_State (heap m1 ?r)) (s_Meta (heap m1 ?r)) ?m2)"
    using assms(2,3) z by (auto simp: alive_apply_def Let_def)
  then have "aliveNode ?env now 0 ?a None bootstrap m =
      Some (alive_notify ?env ?r (s_State (heap m1 ?r)) (s_Meta (heap m1 ?r)) ?m2)"
    using ig tg by (simp add: aliveNode_def)
  moreover have "same_entry (heap (alive_notify ?env ?r st me ?m2) r) (heap m r)" if "r \<noteq> ?r" for st me r
  proof -
    have "heap ?m2 r = heap m r" using that m1(2) by simp
    then show ?thesis using same_entry_alive_notify [of ?env ?r st me ?m2 r] by simp
  qed
  moreover have "refutation i (heap (alive_notify ?env ?r st me ?m2) ?r) = (hello nm i)\<lparr>a_Vsn := [0, 0, 0, 0, 0, 0]\<rparr>" for st me i
    unfolding refutation_same [OF same_entry_alive_notify]
    by (simp add: m1(1) refutation_def alive_update_def NewNodeState_def mk_Node_def versions_of_def hello_def)
  ultimately show ?thesis
    using z m1(3-8) by (intro exI conjI) (assumption | simp add: same_entryD [OF same_entry_alive_notify])+
qed

text \<open>The local node and one peer, both alive; then the peer suspected.\<close>

lemma demo_two:
  "\<exists>m. member_reach (demo_env ms) 8 m \<and> nodeMap m = [''me'' \<mapsto> 0, ''n1'' \<mapsto> 1] \<and>
     s_State (heap m 0) = StateAlive \<and> s_Incarnation (heap m 0) = 1 \<and> s_Name (heap m 0) = ''me'' \<and>
     s_State (heap m 1) = StateAlive \<and> s_Incarnation (heap m 1) = 1 \<and> s_Name (heap m 1) = ''n1'' \<and>
     nodeTimers m = Map.empty \<and> \<not> m_leave m \<and> incarnation m = 0 \<and>
     refutation 6 (heap m 0) = (hello ''me'' 6)\<lparr>a_Vsn := [0, 0, 0, 0, 0, 0]\<rparr>"
proof -
  let ?m0 = "new_memberlist 8 :: limitedBroadcast list memberlist"
  have n0: "nodeMap ?m0 ''me'' = None" "\<not> m_leave ?m0" "nextRef ?m0 = 0" "nodeTimers ?m0 = Map.empty" "incarnation ?m0 = 0"
    "nodeMap ?m0 = Map.empty" by (simp_all add: new_memberlist_def)
  obtain m1 where m1: "aliveNode (demo_env ms) 0 0 (hello ''me'' 1) None True ?m0 = Some m1"
    "nodeMap m1 = [''me'' \<mapsto> 0]" "s_Incarnation (heap m1 0) = 1" "s_State (heap m1 0) = StateAlive"
    "s_Name (heap m1 0) = ''me''" "nodeTimers m1 = Map.empty" "m_leave m1 = m_leave ?m0" "incarnation m1 = 0" "nextRef m1 = 1"
    "refutation 6 (heap m1 0) = (hello ''me'' 6)\<lparr>a_Vsn := [0, 0, 0, 0, 0, 0]\<rparr>"
    using hello_joins [OF n0(1), of True 1 ms 0] n0(2-6) by (auto simp: fun_eq_iff)
  have n1: "nodeMap m1 ''n1'' = None" by (simp add: m1(2))
  obtain m2 where m2: "aliveNode (demo_env ms) 1 0 (hello ''n1'' 1) None False m1 = Some m2"
    "nodeMap m2 = [''me'' \<mapsto> 0, ''n1'' \<mapsto> 1]" "s_Incarnation (heap m2 1) = 1" "s_State (heap m2 1) = StateAlive"
    "s_Name (heap m2 1) = ''n1''" "nodeTimers m2 = Map.empty" "m_leave m2 = m_leave m1" "incarnation m2 = 0"
    "same_entry (heap m2 0) (heap m1 0)"
    using hello_joins [OF n1, of False 1 ms 1] m1(2,6-9) by (auto simp: fun_eq_iff)
  have "member_reach (demo_env ms) 8 m2"
    by (rule member_reach.step [OF member_reach.step [OF member_reach.init]]) (rule member_step.alive, rule m1 m2)+
  then show ?thesis
    using m2 m1(3-5,7,10) n0(2) same_entryD [OF m2(9)] refutation_same [OF m2(9)] by (intro exI [of _ m2]) simp
qed

definition doubt :: "string \<Rightarrow> u32 \<Rightarrow> suspect" where
  "doubt nm inc = \<lparr>su_Incarnation = inc, su_Node = nm, su_From = ''n2''\<rparr>"

lemma demo_suspected:
  "\<exists>m i deadline. member_reach (demo_env ms) 8 m \<and> nodeMap m ''n1'' = Some 1 \<and> s_State (heap m 1) = StateSuspect \<and>
     i < nextTimer m \<and> t_node (timers m i) = ''n1'' \<and> t_change (timers m i) = s_StateChange (heap m 1) \<and>
     sus_timer (t_sus (timers m i)) = Some deadline \<and> s_Incarnation (heap m 1) = 1"
proof -
  obtain m where m: "member_reach (demo_env ms) 8 m" "nodeMap m = [''me'' \<mapsto> 0, ''n1'' \<mapsto> 1]"
    "s_State (heap m 1) = StateAlive" "s_Incarnation (heap m 1) = 1" "s_Name (heap m 1) = ''n1''" "nodeTimers m = Map.empty"
    using demo_two by blast
  let ?s = "doubt ''n1'' 1"
  let ?m = "suspectNode (demo_env ms) 5 ?s m"
  have r: "member_reach (demo_env ms) 8 ?m" using m(1) by (rule member_reach.step) (rule member_step.suspect)
  let ?m1 = "new_timer (demo_env ms) 5 ?s (upd_node 1 (\<lambda>t. t\<lparr>s_Incarnation := su_Incarnation ?s, s_State := StateSuspect,
              s_StateChange := 5\<rparr>) (encodeBroadcastNotify (demo_env ms) (su_Node ?s) suspectMsg (Suspect ?s) None m))"
  have e: "?m = notify_ev (NotifySuspectSateChange (s_Node (heap (sync_node_state 1 ?m1) 1))) (sync_node_state 1 ?m1)"
    using m(2-6) by (simp add: suspectNode_def doubt_def encodeAndBroadcast_def Let_def)
  obtain dl where dl: "sus_timer (t_sus (timers ?m1 (nextTimer m))) = Some dl" by fastforce
  have "t_node (timers ?m1 (nextTimer m)) = ''n1''" "t_change (timers ?m1 (nextTimer m)) = 5"
    "nextTimer ?m1 = Suc (nextTimer m)" "nodeMap ?m1 ''n1'' = Some 1" "s_State (heap ?m1 1) = StateSuspect"
    "s_StateChange (heap ?m1 1) = 5" "s_Incarnation (heap ?m1 1) = 1"
    using m(2) by (simp_all add: doubt_def)
  with dl have "nodeMap ?m ''n1'' = Some 1 \<and> s_State (heap ?m 1) = StateSuspect \<and>
     nextTimer m < nextTimer ?m \<and> t_node (timers ?m (nextTimer m)) = ''n1'' \<and>
     t_change (timers ?m (nextTimer m)) = s_StateChange (heap ?m 1) \<and> sus_timer (t_sus (timers ?m (nextTimer m))) = Some dl \<and>
     s_Incarnation (heap ?m 1) = 1"
    unfolding e notify_ev_frame sync_node_state_frame same_entryD(3-5) [OF same_entry_sync] by simp
  with r show ?thesis by blast
qed

section \<open>Properties\<close>

text \<open>
  C1. In every reachable state the membership table is consistent: the node list holds each
  known node once, the name map is exactly the map from the names of the listed nodes to them,
  and the size estimate is the length of the list (as a 32-bit number).
\<close>

theorem membership_table_consistent:
  assumes "env_ok env" and "1 \<le> mx" and "member_reach env mx m"
  shows "distinct (nodes m) \<and> distinct (map (\<lambda>r. s_Name (heap m r)) (nodes m)) \<and>
     (\<forall>nm r. nodeMap m nm = Some r \<longleftrightarrow> r \<in> set (nodes m) \<and> s_Name (heap m r) = nm) \<and>
     numNodes m = of_nat (length (nodes m))"
proof -
  have t: "table_ok m" using member_reach_ok [OF assms] member_okD(1) by blast
  have mem: "r \<in> set (nodes m) \<longleftrightarrow> nodeMap m (s_Name (heap m r)) = Some r" for r
    using table_okD(2,3) [OF t] by (auto simp: ran_def)
  then have "nodeMap m nm = Some r \<longleftrightarrow> r \<in> set (nodes m) \<and> s_Name (heap m r) = nm" for nm r
    using table_okD(3) [OF t] by metis
  moreover have "inj_on (\<lambda>r. s_Name (heap m r)) (set (nodes m))"
    using mem by (intro inj_onI) (metis option.inject)
  ultimately show ?thesis using table_okD(1,5) [OF t] by (simp add: distinct_map)
qed

theorem membership_table_consistent_witness:
  "\<exists>m. member_reach (demo_env []) 8 m \<and> nodeMap m ''n1'' = Some 1 \<and> 1 \<in> set (nodes m)"
proof -
  obtain m where m: "member_reach (demo_env []) 8 m" "nodeMap m = [''me'' \<mapsto> 0, ''n1'' \<mapsto> 1]" using demo_two by blast
  have "\<forall>nm r. nodeMap m nm = Some r \<longleftrightarrow> r \<in> set (nodes m) \<and> s_Name (heap m r) = nm"
    using membership_table_consistent [OF demo_env_ok _ m(1)] by simp
  then have "1 \<in> set (nodes m)" using m(2) by (metis fun_upd_same)
  with m show ?thesis by (intro exI [of _ m]) simp
qed

text \<open>
  C2. No suspicion is forgotten: in every reachable state a node in state suspect is not the
  local node, and it is watched: a timer of this very suspicion is armed, or its timeout
  function has been started, or the dead message it built for this incarnation is about to be
  handled.
\<close>

theorem suspects_are_watched:
  assumes "env_ok env" and "1 \<le> mx" and "member_reach env mx m"
    and "nodeMap m nm = Some r" and "s_State (heap m r) = StateSuspect"
  shows "nm \<noteq> c_Name env \<and>
     ((\<exists>i < nextTimer m. t_node (timers m i) = nm \<and> t_change (timers m i) = s_StateChange (heap m r) \<and>
         (sus_timer (t_sus (timers m i)) \<noteq> None \<or> i \<in> set (started m))) \<or>
      (\<exists>d \<in> set (deadq m). d_Node d = nm \<and> d_Incarnation d = s_Incarnation (heap m r)))"
proof -
  have "watch_ok env m" using member_reach_ok [OF assms(1-3)] member_okD(2) by blast
  from watch_okD(3,4) [OF this assms(4,5)] show ?thesis by (simp add: watched_def)
qed

theorem suspects_are_watched_witness:
  "\<exists>m r. member_reach (demo_env []) 8 m \<and> nodeMap m ''n1'' = Some r \<and> s_State (heap m r) = StateSuspect \<and>
     ''n1'' \<noteq> c_Name (demo_env [])"
proof -
  obtain m where m: "member_reach (demo_env []) 8 m" "nodeMap m ''n1'' = Some 1" "s_State (heap m 1) = StateSuspect"
    using demo_suspected by blast
  have "1 \<le> (8::int)" by simp
  from suspects_are_watched [OF demo_env_ok this m, THEN conjunct1] m show ?thesis by blast
qed

text \<open>
  C5. An unrefuted suspicion ends in death: when the timer of a suspicion reaches its deadline,
  its function builds the dead message, and handling it marks the node dead, at its incarnation,
  and notifies the event delegate.
\<close>

theorem suspicion_timeout_kills:
  assumes "member_ok env m" and "nodeMap m nm = Some r" and "s_State (heap m r) = StateSuspect"
    and "i < nextTimer m" and "t_node (timers m i) = nm" and "t_change (timers m i) = s_StateChange (heap m r)"
    and "sus_timer (t_sus (timers m i)) = Some deadline" and "deadline \<le> now"
  shows "\<exists>m1 d. timer_expire now i m = Some m1 \<and> deadq (timeout_check env i m1) = d # deadq m \<and>
     s_State (heap (timeout_dead env now' d (timeout_check env i m1)) r) = StateDead \<and>
     s_Incarnation (heap (timeout_dead env now' d (timeout_check env i m1)) r) = s_Incarnation (heap m r) \<and>
     (c_Events env \<longrightarrow> notified (timeout_dead env now' d (timeout_check env i m1)) = notified m @ [NotifyLeave (s_Node (heap m r))])"
proof -
  have t: "table_ok m" and ne: "nm \<noteq> c_Name env"
    using member_okD(1,2) [OF assms(1)] watch_okD(3) assms(2,3) by blast+
  have name: "s_Name (heap m r) = nm" by (rule table_okD(3) [OF t assms(2)])
  let ?m1 = "m\<lparr>timers := (timers m)(i := (timers m i)\<lparr>t_sus := (t_sus (timers m i))\<lparr>sus_timer := None\<rparr>\<rparr>),
               started := i # started m\<rparr>"
  let ?d = "\<lparr>d_Incarnation = s_Incarnation (heap m r), d_Node = nm, d_From = c_Name env\<rparr>"
  let ?m2 = "timeout_check env i ?m1"
  have e: "timer_expire now i m = Some ?m1" using assms(4,7,8) by (simp add: timer_expire_def)
  have c: "deadq ?m2 = ?d # deadq m" "nodeMap ?m2 = nodeMap m" "heap ?m2 = heap m" "notified ?m2 = notified m"
    using assms(2,3,5,6) name by (simp_all add: timeout_check_def Let_def)
  have "\<not> DeadOrLeft (heap m r)" using assms(3) by (simp add: DeadOrLeft_def)
  then have "s_State (heap (timeout_dead env now' ?d ?m2) r) = StateDead \<and>
     s_Incarnation (heap (timeout_dead env now' ?d ?m2) r) = s_Incarnation (heap m r) \<and>
     (c_Events env \<longrightarrow> notified (timeout_dead env now' ?d ?m2) = notified m @ [NotifyLeave (s_Node (heap m r))])"
    using c(2-4) assms(2) name ne
    by (simp add: timeout_dead_def deadNode_def Let_def encodeAndBroadcast_def)
  with e c(1) show ?thesis by blast
qed

theorem suspicion_timeout_kills_witness:
  "\<exists>m m1 i now d. member_reach (demo_env []) 8 m \<and> nodeMap m ''n1'' = Some 1 \<and> timer_expire now i m = Some m1 \<and>
     s_State (heap (timeout_dead (demo_env []) now d (timeout_check (demo_env []) i m1)) 1) = StateDead"
proof -
  obtain m i dl where m: "member_reach (demo_env []) 8 m" and h: "nodeMap m ''n1'' = Some 1" "s_State (heap m 1) = StateSuspect"
     "i < nextTimer m" "t_node (timers m i) = ''n1''" "t_change (timers m i) = s_StateChange (heap m 1)"
     "sus_timer (t_sus (timers m i)) = Some dl"
    using demo_suspected by blast
  have "member_ok (demo_env []) m" by (rule member_reach_ok [OF demo_env_ok _ m]) simp
  from suspicion_timeout_kills [OF this h order_refl, of dl] m h(1) show ?thesis by blast
qed

text \<open>A newer alive message about another node that is suspected.\<close>

lemma alive_ends_suspicion:
  assumes "nodeMap m nm = Some r" and "s_State (heap m r) = StateSuspect" and "s_Name (heap m r) = nm" and "nm \<noteq> c_Name env"
    and "a_Node a = nm" and "a_Addr a = s_Addr (heap m r)" and "a_Port a = s_Port (heap m r)"
    and "s_Incarnation (heap m r) < a_Incarnation a" and "\<not> alive_ignored env a m"
    and "aliveNode env now rnd a ch bootstrap m = Some m1"
  shows "s_State (heap m1 r) = StateAlive" "s_Incarnation (heap m1 r) = a_Incarnation a" "nodeMap m1 = nodeMap m"
    "timers m1 = timers m" "nodeTimers m1 nm = None" "nextTimer m1 = nextTimer m"
proof -
  have "alive_apply env now a ch bootstrap r False m = Some m1"
    using assms by (simp add: aliveNode_def alive_target_def)
  then have m1: "m1 = alive_notify env r (s_State (heap m r)) (s_Meta (heap m r)) (upd_node r (alive_update now a)
      (encodeBroadcastNotify env (a_Node a) aliveMsg (Alive a) ch (m\<lparr>nodeTimers := (nodeTimers m)(a_Node a := None)\<rparr>)))"
    by (cases rule: alive_apply_cases) (use assms in auto)
  show "s_State (heap m1 r) = StateAlive" "s_Incarnation (heap m1 r) = a_Incarnation a" "nodeMap m1 = nodeMap m"
    "timers m1 = timers m" "nodeTimers m1 nm = None" "nextTimer m1 = nextTimer m"
    unfolding m1 same_entryD(3,4) [OF same_entry_alive_notify] using assms(2,5) by (simp_all add: alive_update_def Let_def)
qed

text \<open>
  C6. A suspicion that is refuted kills nobody. When the suspected node's newer alive message (accepted
  by the alive delegate, from the address it is known at) arrives, the node is alive at the new incarnation, and it
  stays so wherever the timer of the suspicion was: if the timer fires afterwards, or its function had
  started but not looked at the table, the function finds nothing to do; if it had already built its dead
  message, handling that message changes nothing but the list of messages to handle.
\<close>

theorem refuted_suspicion_harmless:
  assumes ok: "member_ok env m" and entry: "nodeMap m nm = Some r" "s_State (heap m r) = StateSuspect"
    and timer: "t_node (timers m i) = nm" "t_change (timers m i) = s_StateChange (heap m r)"
    and newer: "a_Node a = nm" "a_Addr a = s_Addr (heap m r)" "a_Port a = s_Port (heap m r)"
      "s_Incarnation (heap m r) < a_Incarnation a" "\<not> alive_ignored env a m"
    and m1: "aliveNode env now rnd a ch bootstrap m = Some m1"
    and m1': "aliveNode env now rnd a ch bootstrap (timeout_check env i m) = Some m1'"
  shows "s_State (heap m1 r) = StateAlive \<and> s_Incarnation (heap m1 r) = a_Incarnation a \<and> nodeTimers m1 nm = None \<and>
    (\<forall>now' m2. timer_expire now' i m1 = Some m2 \<longrightarrow>
       heap m2 = heap m1 \<and> timeout_check env i m2 = m2\<lparr>started := remove1 i (started m2)\<rparr>) \<and>
    timeout_check env i m1 = m1\<lparr>started := remove1 i (started m1)\<rparr> \<and>
    (\<exists>d. deadq (timeout_check env i m) = d # deadq m \<and> s_State (heap m1' r) = StateAlive \<and>
       timeout_dead env now'' d m1' = m1'\<lparr>deadq := remove1 d (deadq m1')\<rparr>)"
proof -
  have ne: "nm \<noteq> c_Name env"
    using member_okD(2) [OF ok] watch_okD(3) entry by blast
  have name: "s_Name (heap m r) = nm"
    by (rule table_okD(3) [OF member_okD(1) [OF ok] entry(1)])
  note A = alive_ends_suspicion [OF entry name ne newer m1]
  let ?m = "timeout_check env i m" and ?d = "\<lparr>d_Incarnation = s_Incarnation (heap m r), d_Node = nm, d_From = c_Name env\<rparr>"
  have c: "nodeMap ?m = nodeMap m" "heap ?m = heap m" "m_leave ?m = m_leave m" "deadq ?m = ?d # deadq m"
    using entry timer name by (simp_all add: timeout_check_def Let_def)
  have "\<not> alive_ignored env a ?m"
    using newer(5) c(3) by (simp add: alive_ignored_def hasLeft_def)
  then have B: "s_State (heap m1' r) = StateAlive" "s_Incarnation (heap m1' r) = a_Incarnation a" "nodeMap m1' = nodeMap m"
    using alive_ends_suspicion [of ?m nm r env a now rnd ch bootstrap m1'] c entry name ne newer m1' by simp_all
  have "timeout_dead env now'' ?d m1' = m1'\<lparr>deadq := remove1 ?d (deadq m1')\<rparr>"
    using B entry(1) newer(4) by (simp add: timeout_dead_def deadNode_def)
  moreover have "timeout_check env i m1 = m1\<lparr>started := remove1 i (started m1)\<rparr>"
    using A timer entry(1) by (simp add: timeout_check_def Let_def)
  moreover have "heap m2 = heap m1 \<and> timeout_check env i m2 = m2\<lparr>started := remove1 i (started m2)\<rparr>"
    if "timer_expire now' i m1 = Some m2" for now' m2
    using that A timer entry(1) by (auto simp: timer_expire_def timeout_check_def Let_def split: if_splits option.splits)
  ultimately show ?thesis
    using A B c(4) by blast
qed

theorem refuted_suspicion_harmless_witness:
  "\<exists>m i m1 m2 now. member_reach (demo_env []) 8 m \<and> s_State (heap m 1) = StateSuspect \<and>
     aliveNode (demo_env []) 6 0 ((hello ''n1'' 2)\<lparr>a_Addr := s_Addr (heap m 1), a_Port := s_Port (heap m 1)\<rparr>) None False m = Some m1 \<and>
     timer_expire now i m1 = Some m2 \<and> timeout_check (demo_env []) i m2 = m2\<lparr>started := remove1 i (started m2)\<rparr> \<and>
     s_State (heap m2 1) = StateAlive"
proof -
  obtain m i dl where m: "member_reach (demo_env []) 8 m" and h: "nodeMap m ''n1'' = Some 1" "s_State (heap m 1) = StateSuspect"
     "i < nextTimer m" "t_node (timers m i) = ''n1''" "t_change (timers m i) = s_StateChange (heap m 1)"
     "sus_timer (t_sus (timers m i)) = Some dl" "s_Incarnation (heap m 1) = 1"
    using demo_suspected by blast
  have ok: "member_ok (demo_env []) m" by (rule member_reach_ok [OF demo_env_ok _ m]) simp
  let ?a = "(hello ''n1'' 2)\<lparr>a_Addr := s_Addr (heap m 1), a_Port := s_Port (heap m 1)\<rparr>"
  have some: "\<exists>m'. aliveNode (demo_env []) 6 0 ?a None False x = Some m'" for x
    by (auto simp: aliveNode_def alive_apply_def Let_def split: sum.split)
  obtain m1 m1' where m1: "aliveNode (demo_env []) 6 0 ?a None False m = Some m1"
    "aliveNode (demo_env []) 6 0 ?a None False (timeout_check (demo_env []) i m) = Some m1'"
    using some by blast
  have n: "\<not> alive_ignored (demo_env []) ?a m" by (simp add: alive_ignored_def)
  have nm: "s_Name (heap m 1) = ''n1''" by (rule table_okD(3) [OF member_okD(1) [OF ok] h(1)])
  have "i < nextTimer m1" "sus_timer (t_sus (timers m1 i)) = Some dl"
    using alive_ends_suspicion(4,6) [OF h(1,2) nm _ _ _ _ _ n m1(1)] h by simp_all
  then obtain m2 where m2: "timer_expire dl i m1 = Some m2" by (simp add: timer_expire_def)
  from refuted_suspicion_harmless [OF ok h(1,2,4,5) _ _ _ _ n m1] m2 h(7)
  have "s_State (heap m1 1) = StateAlive" "heap m2 = heap m1" "timeout_check (demo_env []) i m2 = m2\<lparr>started := remove1 i (started m2)\<rparr>"
    by simp_all
  then show ?thesis using m h(2) m1(1) m2 by metis
qed

text \<open>
  C3. Accusations are refuted: a suspect or dead message about the local node that is not out
  of date leaves it alive (unless it is leaving), gives it an incarnation number above the
  accused one, the same that the member list continues from, lowers the health score by one
  step, and queues an alive message with that incarnation for broadcast. (The highest number
  of 32 bits cannot be exceeded.)
\<close>

theorem accusation_refuted:
  assumes "env_ok env" and "member_ok env m" and "nodeMap m (c_Name env) = Some r"
    and "s_State (heap m r) = StateAlive" and "\<not> hasLeft m"
    and "s_Incarnation (heap m r) \<le> accused" and "accused \<noteq> -1"
    and "m' = suspectNode env now \<lparr>su_Incarnation = accused, su_Node = c_Name env, su_From = from\<rparr> m \<or>
         m' = deadNode env now \<lparr>d_Incarnation = accused, d_Node = c_Name env, d_From = from\<rparr> m"
    and "encode (x_codec env) aliveMsg (Alive (refutation (incarnation m') (heap m r))) = Inr buf"
  shows "s_State (heap m' r) = StateAlive \<and> accused < s_Incarnation (heap m' r) \<and>
     s_Incarnation (heap m' r) = incarnation m' \<and> m_awareness m' = ApplyDelta (m_awareness m) 1 \<and>
     (\<exists>lb \<in> set (items (x_btree env) (broadcasts m')). Message (lb_b lb) = buf \<and> transmits lb = 0)"
proof -
  note ok = member_okD [OF assms(2)]
  let ?m = "m\<lparr>nodeTimers := (nodeTimers m)(c_Name env := None)\<rparr>"
  have "nodeTimers m (c_Name env) = None" by (rule watch_okD(5) [OF ok(2)])
  then have m: "?m = m" by (simp add: fun_upd_idem)
  have m': "m' = refute env r accused m"
    using assms(8) suspect_self [OF ok(1,2) assms(3) _ assms(4) \<open>nodeTimers m (c_Name env) = None\<close>]
      dead_self [OF ok(1) assms(3) _ assms(4,5)] assms(6) by (auto simp: m not_less)
  have "encode (x_codec env) aliveMsg (Alive (refutation (refuted (incarnation m) accused) (heap m r))) = Inr buf"
    using assms(9) by (simp add: m')
  from refute_queues_alive [OF assms(1) ok(3) this] show ?thesis
    using refuted_beats [OF assms(7)] assms(4) by (simp add: m')
qed

theorem accusation_refuted_witness:
  "\<exists>m. member_reach (demo_env [Alive ((hello ''me'' 6)\<lparr>a_Vsn := [0, 0, 0, 0, 0, 0]\<rparr>)]) 8 m \<and>
     (let m' = deadNode (demo_env [Alive ((hello ''me'' 6)\<lparr>a_Vsn := [0, 0, 0, 0, 0, 0]\<rparr>)]) 9
          \<lparr>d_Incarnation = 5, d_Node = ''me'', d_From = ''n1''\<rparr> m
      in s_State (heap m' 0) = StateAlive \<and> 5 < s_Incarnation (heap m' 0) \<and>
        (\<exists>lb \<in> set (items list_btree (broadcasts m')). Message (lb_b lb) = [aliveMsg, 0]))"
proof -
  let ?a = "(hello ''me'' 6)\<lparr>a_Vsn := [0, 0, 0, 0, 0, 0]\<rparr>"
  let ?env = "demo_env [Alive ?a]" and ?d = "\<lparr>d_Incarnation = 5, d_Node = ''me'', d_From = ''n1''\<rparr>"
  obtain m where m: "member_reach ?env 8 m" "nodeMap m = [''me'' \<mapsto> 0, ''n1'' \<mapsto> 1]" "s_State (heap m 0) = StateAlive"
    "s_Incarnation (heap m 0) = 1" "s_Name (heap m 0) = ''me''" "\<not> m_leave m" "incarnation m = 0" "refutation 6 (heap m 0) = ?a"
    using demo_two [of "[Alive ?a]"] by blast
  have ok: "member_ok ?env m" by (rule member_reach_ok [OF demo_env_ok _ m(1)]) simp
  have inc: "incarnation (deadNode ?env 9 ?d m) = 6"
    using m(2-7) by (simp add: deadNode_def DeadOrLeft_def hasLeft_def Let_def refuted_def)
  have enc: "encode (x_codec ?env) aliveMsg (Alive (refutation (incarnation (deadNode ?env 9 ?d m)) (heap m 0))) = Inr [aliveMsg, 0]"
    unfolding inc m(8) by (simp add: encode_def table_codec_def)
  have d: "c_Name ?env = ''me''" by simp
  show ?thesis
    using accusation_refuted [OF demo_env_ok ok, unfolded d, of 0 5 _ 9 "''n1''", OF _ m(3) _ _ _ disjI2 [OF refl] enc] m(1,2,4,6)
    by (intro exI [of _ m]) (auto simp: hasLeft_def Let_def)
qed

text \<open>
  The exception of the last property is real: an accusation at the highest incarnation
  number makes the refutation wrap around to zero, so the alive message it broadcasts is older
  than the accusation and every other node ignores it.
\<close>

theorem refutation_wraps:
  "s_Incarnation (heap (refute env me (-1) m) me) = 0 \<and>
   (aliveNode env now rnd (refutation 0 s) ch False m2 = Some m3 \<longrightarrow>
    nodeMap m2 (s_Name s) = Some r2 \<longrightarrow> s_Name (heap m2 r2) \<noteq> c_Name env \<longrightarrow>
    s_Addr (heap m2 r2) = s_Addr s \<longrightarrow> s_Port (heap m2 r2) = s_Port s \<longrightarrow> m3 = m2)"
  by (auto simp: refuted_def refutation_def aliveNode_def alive_target_def alive_apply_def Let_def split: if_splits)

theorem refutation_wraps_witness:
  "\<exists>m m3. nodeMap m ''n1'' = Some 1 \<and>
     aliveNode (demo_env []) 9 0 (refutation 0 (heap m 1)) None False m = Some m3 \<and> m3 = m"
proof -
  obtain m where m: "member_reach (demo_env []) 8 m" "nodeMap m = [''me'' \<mapsto> 0, ''n1'' \<mapsto> 1]" "s_Name (heap m 1) = ''n1''"
    "s_Incarnation (heap m 1) = 1" using demo_two by blast
  let ?s = "heap m 1"
  obtain m3 where m3: "aliveNode (demo_env []) 9 0 (refutation 0 ?s) None False m = Some m3"
    using m(2-4) by (auto simp: aliveNode_def alive_target_def alive_apply_def refutation_def Let_def split: if_splits)
  from refutation_wraps [of "demo_env []" 1 m 9 0 ?s None m m3 1] m3 m(2,3) show ?thesis
    by (intro exI [of _ m] exI [of _ m3]) simp
qed

text \<open>
  C4. What the list believes about another node never goes back: across every step of the
  protocol the incarnation number of a node that stays in the table does not decrease, unless
  the name was taken over from another address.
\<close>

theorem incarnation_monotone:
  assumes "env_ok env" and "1 \<le> mx" and "member_reach env mx m" and "member_step env m m'" and "nm \<noteq> c_Name env"
    and "nodeMap m nm = Some r" and "nodeMap m' nm = Some r'"
    and "s_Addr (heap m r) = s_Addr (heap m' r')" and "s_Port (heap m r) = s_Port (heap m' r')"
  shows "s_Incarnation (heap m r) \<le> s_Incarnation (heap m' r')"
  using member_step_inc [OF member_reach_ok [OF assms(1-3)] assms(5,4)] assms(6-9) by (auto simp: inc_kept_def)

theorem incarnation_monotone_witness:
  "\<exists>m. nodeMap m ''n1'' = Some 1 \<and>
     s_Incarnation (heap m 1) \<le> s_Incarnation (heap (m\<lparr>m_leave := True\<rparr> :: limitedBroadcast list memberlist) 1)"
proof -
  obtain m where m: "member_reach (demo_env []) 8 m" "nodeMap m = [''me'' \<mapsto> 0, ''n1'' \<mapsto> 1]" using demo_two by blast
  let ?m' = "m\<lparr>m_leave := True\<rparr>"
  have s: "member_step (demo_env []) m ?m'" by (rule member_step.leave)
  have "s_Incarnation (heap m 1) \<le> s_Incarnation (heap ?m' 1)"
    by (rule incarnation_monotone [OF demo_env_ok _ m(1) s, of "''n1''"]) (simp_all add: m(2))
  with m(2) show ?thesis by (intro exI [of _ m]) simp
qed

text \<open>
  C28. When an alive message is handled without a panic, and a message that panics: a message
  whose version vector is empty or complete is always handled; one with one to five versions
  about a node not seen before, with no alive delegate and no allow list, kills the process.
\<close>

theorem aliveNode_total_or_panics:
  "(a_Vsn a = [] \<or> 6 \<le> length (a_Vsn a) \<longrightarrow> (\<exists>m'. aliveNode env now rnd a ch bootstrap m = Some m')) \<and>
   (0 < length (a_Vsn a) \<longrightarrow> length (a_Vsn a) < 6 \<longrightarrow> \<not> alive_ignored env a m \<longrightarrow>
    nodeMap m (a_Node a) = None \<longrightarrow> c_CIDRsAllowed env = [] \<longrightarrow> a_Node a \<noteq> c_Name env \<longrightarrow> 0 < a_Incarnation a \<longrightarrow>
    aliveNode env now rnd a ch bootstrap m = None)"
proof (intro conjI impI)
  assume v: "a_Vsn a = [] \<or> 6 \<le> length (a_Vsn a)"
  have "\<exists>m''. alive_apply env now a ch bootstrap r u m' = Some m''" for r u m'
    using v unfolding alive_apply_def Let_def by auto
  then show "\<exists>m'. aliveNode env now rnd a ch bootstrap m = Some m'"
    unfolding aliveNode_def by (auto split: sum.split)
next
  assume h: "0 < length (a_Vsn a)" "length (a_Vsn a) < 6" "\<not> alive_ignored env a m" "nodeMap m (a_Node a) = None"
    "c_CIDRsAllowed env = []" "a_Node a \<noteq> c_Name env" "0 < a_Incarnation a"
  then obtain r m1 where t: "alive_target env now rnd a m = Inr (r, False, m1)"
    and n: "s_Name (heap m1 r) = a_Node a" "s_Incarnation (heap m1 r) = 0"
    by (auto simp: alive_target_def Let_def AddrAllowed_def IPMustBeChecked_def NewNodeState_def mk_Node_def set_versions_def)
  have "alive_apply env now a ch bootstrap r False m1 = None"
    using h(1,2,6,7) n by (simp add: alive_apply_def Let_def)
  then show "aliveNode env now rnd a ch bootstrap m = None" using h(3) t by (simp add: aliveNode_def)
qed

theorem aliveNode_total_or_panics_witness:
  "aliveNode (demo_env []) 0 0 ((hello ''n1'' 1)\<lparr>a_Vsn := [1, 2]\<rparr>) None False (new_memberlist 8) = None"
  using aliveNode_total_or_panics [of "(hello ''n1'' 1)\<lparr>a_Vsn := [1, 2]\<rparr>" "demo_env []" 0 0 None False "new_memberlist 8"]
  by (simp add: alive_ignored_def hasLeft_def new_memberlist_def hello_def)

text \<open>Weight messages about a known, alive, remote node.\<close>

lemma weightNode_at:
  assumes "nodeMap m (w_Node w) = Some r" and "s_State (heap m r) = StateAlive" and "s_Name (heap m r) \<noteq> c_Name env"
    and "s_Incarnation (heap m r) \<le> w_Incarnation w"
  shows "s_WeightAt (heap (weightNode env w m) r) = max (s_WeightAt (heap m r)) (w_WeightAt w)"
    and "s_Weight (heap (weightNode env w m) r) =
           (if s_WeightAt (heap m r) < w_WeightAt w then w_Weight w else s_Weight (heap m r))"
proof -
  have n: "(w_Incarnation w < s_Incarnation (heap m r)) = False" using assms(4) by (simp add: not_less)
  show "s_WeightAt (heap (weightNode env w m) r) = max (s_WeightAt (heap m r)) (w_WeightAt w)"
    "s_Weight (heap (weightNode env w m) r) =
       (if s_WeightAt (heap m r) < w_WeightAt w then w_Weight w else s_Weight (heap m r))"
    using assms(1-3) by (simp_all add: weightNode_def Let_def n max_def)
qed

text \<open>
  Node weights converge: the weight kept for a node is the one with the latest timestamp,
  so two weight messages give the same result in either order, and a repeated one changes nothing.
\<close>

theorem weight_last_writer_wins:
  assumes "nodeMap m nm = Some r" and "s_State (heap m r) = StateAlive" and "s_Name (heap m r) \<noteq> c_Name env"
    and "w_Node w1 = nm" and "w_Node w2 = nm" and "w_WeightAt w1 \<noteq> w_WeightAt w2"
    and "s_Incarnation (heap m r) \<le> w_Incarnation w1" and "s_Incarnation (heap m r) \<le> w_Incarnation w2"
    and "m12 = weightNode env w2 (weightNode env w1 m)" and "m21 = weightNode env w1 (weightNode env w2 m)"
  shows "s_Weight (heap m12 r) = s_Weight (heap m21 r) \<and> s_WeightAt (heap m12 r) = s_WeightAt (heap m21 r) \<and>
     s_WeightAt (heap m12 r) = Max {s_WeightAt (heap m r), w_WeightAt w1, w_WeightAt w2} \<and>
     weightNode env w2 m12 = m12"
proof -
  note kept = weightNode_effect(2) same_entryD(1,3,4) [OF weightNode_effect(11)]
  have one: "nodeMap (weightNode env w m) nm = Some r" "s_State (heap (weightNode env w m) r) = StateAlive"
    "s_Name (heap (weightNode env w m) r) \<noteq> c_Name env"
    "s_Incarnation (heap (weightNode env w m) r) = s_Incarnation (heap m r)" for w
    using assms(1-3) by (simp_all add: kept)
  note w1 = weightNode_at [of m w1 r env] and w2 = weightNode_at [of m w2 r env]
  note w12 = weightNode_at [of "weightNode env w1 m" w2 r env] and w21 = weightNode_at [of "weightNode env w2 m" w1 r env]
  have at12: "s_WeightAt (heap m12 r) = max (max (s_WeightAt (heap m r)) (w_WeightAt w1)) (w_WeightAt w2)"
    using w12(1) w1(1) one [of w1] assms by simp
  have "w_WeightAt w2 \<le> s_WeightAt (heap m12 r)" "nodeMap m12 nm = Some r" using at12 assms(1,9) by (simp_all add: kept)
  then have "weightNode env w2 m12 = m12" using assms(5) by (simp add: weightNode_def)
  moreover have "s_Weight (heap m12 r) = s_Weight (heap m21 r)" "s_WeightAt (heap m12 r) = s_WeightAt (heap m21 r)"
    using w1 w2 w12 w21 one [of w1] one [of w2] assms by (auto simp: max_def split: if_splits)
  ultimately show ?thesis using at12 by (auto simp: max.assoc)
qed

definition load :: "int \<Rightarrow> int \<Rightarrow> weight" where
  "load v stamp = \<lparr>w_Incarnation = 1, w_Node = ''n1'', w_From = ''n1'', w_Weight = v, w_WeightAt = stamp\<rparr>"

theorem weight_last_writer_wins_witness:
  "\<exists>m. nodeMap m ''n1'' = Some 1 \<and> s_Weight (heap (weightNode (demo_env []) (load 3 10) (weightNode (demo_env []) (load 7 20) m)) 1) =
     s_Weight (heap (weightNode (demo_env []) (load 7 20) (weightNode (demo_env []) (load 3 10) m)) 1)"
proof -
  obtain m :: "limitedBroadcast list memberlist" where m: "nodeMap m = [''me'' \<mapsto> 0, ''n1'' \<mapsto> 1]"
    "s_State (heap m 1) = StateAlive" "s_Name (heap m 1) = ''n1''" "s_Incarnation (heap m 1) = 1"
    using demo_two by blast
  have "s_Weight (heap (weightNode (demo_env []) (load 3 10) (weightNode (demo_env []) (load 7 20) m)) 1) =
     s_Weight (heap (weightNode (demo_env []) (load 7 20) (weightNode (demo_env []) (load 3 10) m)) 1)"
    by (rule weight_last_writer_wins [THEN conjunct1, of m "''n1''" 1 "demo_env []" "load 7 20" "load 3 10"])
      (simp_all add: m load_def del: One_nat_def)
  with m(1) show ?thesis by (intro exI [of _ m]) simp
qed

text \<open>
  Anti-entropy does not kill: merging a remote entry that says dead or suspect never
  panics, and no node of the table changes state except from alive to suspect.
\<close>

theorem merge_dead_only_suspects:
  assumes "member_ok env m" and "p_State p = StateDead \<or> p_State p = StateSuspect" and "nodeMap m nm = Some r"
  shows "\<exists>m'. merge_one env now rnd p m = Some m' \<and> nodeMap m' nm = Some r \<and>
     (s_State (heap m' r) = s_State (heap m r) \<or>
      s_State (heap m r) = StateAlive \<and> s_State (heap m' r) = StateSuspect \<and> nm = p_Name p)"
proof -
  note t = member_okD(1) [OF assms(1)]
  let ?s = "\<lparr>su_Incarnation = p_Incarnation p, su_Node = p_Name p, su_From = c_Name env\<rparr>"
  have e: "merge_one env now rnd p m = Some (suspectNode env now ?s m)" using assms(2) by (auto simp: merge_one_def)
  have "nodeMap (suspectNode env now ?s m) nm = Some r \<and>
     (s_State (heap (suspectNode env now ?s m) r) = s_State (heap m r) \<or>
      s_State (heap m r) = StateAlive \<and> s_State (heap (suspectNode env now ?s m) r) = StateSuspect \<and> nm = p_Name p)"
  proof (cases rule: suspectNode_cases [of env now ?s m])
    case (suspected x m1)
    have "nodeMap m (p_Name p) = Some x" using suspected(1) by simp
    then have nm: "r = x \<Longrightarrow> nm = p_Name p" using nodeMap_inj [OF t assms(3)] by blast
    have "nodeMap m1 nm = Some r" "s_State (heap m1 r) = (if r = x then StateSuspect else s_State (heap m r))"
      by (simp_all add: suspected(6) assms(3))
    then show ?thesis
      using suspected(4,7) nm by (auto simp: same_entryD(4) [OF same_entry_sync] split: if_splits)
  qed (use assms(3) in auto)
  with e show ?thesis by blast
qed

theorem merge_dead_only_suspects_witness:
  "\<exists>m m' :: limitedBroadcast list memberlist. nodeMap m ''me'' = Some 0 \<and> merge_one (demo_env []) 9 0
     \<lparr>p_Name = ''me'', p_Addr = [], p_Port = 0, p_Meta = [], p_Incarnation = 3, p_State = StateDead, p_Vsn = []\<rparr> m = Some m' \<and>
     (s_State (heap m' 0) = StateAlive \<or> s_State (heap m' 0) = StateSuspect)"
proof -
  obtain m where m: "member_reach (demo_env []) 8 m" "nodeMap m = [''me'' \<mapsto> 0, ''n1'' \<mapsto> 1]" "s_State (heap m 0) = StateAlive"
    using demo_two by blast
  have ok: "member_ok (demo_env []) m" by (rule member_reach_ok [OF demo_env_ok _ m(1)]) simp
  let ?p = "\<lparr>p_Name = ''me'', p_Addr = [], p_Port = 0, p_Meta = [], p_Incarnation = 3, p_State = StateDead, p_Vsn = []\<rparr>"
  have "nodeMap m ''me'' = Some 0" by (simp add: m(2))
  from merge_dead_only_suspects [OF ok _ this, of ?p 9 0] this m(3) show ?thesis by fastforce
qed

text \<open>
  C29. Reaping is exact: \<open>resetNodes\<close> keeps precisely the nodes that are not dead or left for
  longer than the gossip-to-the-dead interval, drops the others from the list and the map alike,
  and corrects the size estimate.
\<close>

theorem resetNodes_reaps:
  assumes "member_ok env m" and "m' = resetNodes env now draw m"
  shows "(nodeMap m' nm = Some r \<longleftrightarrow> nodeMap m nm = Some r \<and>
       \<not> (DeadOrLeft (heap m r) \<and> now - s_StateChange (heap m r) > c_GossipToTheDeadTime env)) \<and>
     distinct (nodes m') \<and>
     set (nodes m') = {r \<in> set (nodes m). \<not> (DeadOrLeft (heap m r) \<and> now - s_StateChange (heap m r) > c_GossipToTheDeadTime env)} \<and>
     numNodes m' = of_nat (length (nodes m'))"
proof -
  note t = member_okD(1) [OF assms(1)]
  have "nodeMap m' nm = Some r \<longleftrightarrow> nodeMap m nm = Some r \<and>
       \<not> (DeadOrLeft (heap m r) \<and> now - s_StateChange (heap m r) > c_GossipToTheDeadTime env)"
    unfolding assms(2) resetNodes_effect(2) [OF t] by (auto simp: reapable_def split: option.splits if_splits)
  moreover have "set (nodes m') = {r \<in> set (nodes m). \<not> (DeadOrLeft (heap m r) \<and> now - s_StateChange (heap m r) > c_GossipToTheDeadTime env)}"
    unfolding assms(2) resetNodes_effect(1) [OF t] by (simp add: reapable_def not_le)
  ultimately show ?thesis
    using resetNodes_effect(3,4) [OF t, of env now draw] unfolding assms(2) by blast
qed

theorem resetNodes_reaps_witness:
  "\<exists>m. nodeMap (resetNodes (demo_env []) 9 (\<lambda>i. i) m) ''n1'' = Some 1"
proof -
  obtain m where m: "member_reach (demo_env []) 8 m" "nodeMap m = [''me'' \<mapsto> 0, ''n1'' \<mapsto> 1]" "s_State (heap m 1) = StateAlive"
    using demo_two by blast
  have ok: "member_ok (demo_env []) m" by (rule member_reach_ok [OF demo_env_ok _ m(1)]) simp
  from resetNodes_reaps [OF ok refl, of 9 "\<lambda>i. i" "''n1''" 1] m(2,3) show ?thesis
    by (intro exI [of _ m]) (simp add: DeadOrLeft_def)
qed

end
