(* ===== verification/Protocol_Check.thy ===== *)
theory Protocol_Check
  imports Membership
begin

text \<open>
  \<open>verifyProtocol\<close> of \<open>memberlist/state.go\<close>: before a remote state is merged, the protocol
  and delegate versions every node speaks are compared with what every live node understands.
  The four loops are folds; reading a version past the end of a vector is a panic. The texts of
  the errors leave out the numbers.
\<close>

section \<open>Definitions\<close>

record version_range =
  maxpmin :: u8
  minpmax :: u8
  maxdmin :: u8
  mindmax :: u8

definition narrow :: "u8 \<Rightarrow> u8 \<Rightarrow> u8 \<Rightarrow> u8 \<Rightarrow> version_range \<Rightarrow> version_range" where
  "narrow pmin pmax dmin dmax v =
     \<lparr>maxpmin = (if pmin > maxpmin v then pmin else maxpmin v),
      minpmax = (if pmax < minpmax v then pmax else minpmax v),
      maxdmin = (if dmin > maxdmin v then dmin else maxdmin v),
      mindmax = (if dmax < mindmax v then dmax else mindmax v)\<rparr>"

fun range_remote :: "pushNodeState list \<Rightarrow> version_range \<Rightarrow> version_range option" where
  "range_remote [] v = Some v"
| "range_remote (rn # remote) v =
     (if p_State rn \<noteq> StateAlive then range_remote remote v
      else if p_Vsn rn = [] then range_remote remote v
      else
        (case (idx (p_Vsn rn) 0, idx (p_Vsn rn) 1, idx (p_Vsn rn) 3, idx (p_Vsn rn) 4) of
           (Some pmin, Some pmax, Some dmin, Some dmax) \<Rightarrow> range_remote remote (narrow pmin pmax dmin dmax v)
         | _ \<Rightarrow> None))"

fun range_local :: "nodeState list \<Rightarrow> version_range \<Rightarrow> version_range" where
  "range_local [] v = v"
| "range_local (s # ns) v =
     (if s_State s \<noteq> StateAlive then range_local ns v
      else range_local ns (narrow (n_PMin (s_Node s)) (n_PMax (s_Node s)) (n_DMin (s_Node s)) (n_DMax (s_Node s)) v))"

definition speaks_ok :: "version_range \<Rightarrow> u8 \<Rightarrow> u8 \<Rightarrow> unit result" where
  "speaks_ok v nPCur nDCur =
     (if nPCur < maxpmin v \<or> nPCur > minpmax v then Inl ''protocol version is incompatible''
      else if nDCur < maxdmin v \<or> nDCur > mindmax v then Inl ''delegate protocol version is incompatible''
      else Inr ())"

fun check_remote :: "version_range \<Rightarrow> pushNodeState list \<Rightarrow> unit result option" where
  "check_remote v [] = Some (Inr ())"
| "check_remote v (n # remote) =
     (if p_Vsn n = [] then
        (case speaks_ok v 0 0 of Inl err \<Rightarrow> Some (Inl err) | Inr _ \<Rightarrow> check_remote v remote)
      else
        (case (idx (p_Vsn n) 2, idx (p_Vsn n) 5) of
           (Some nPCur, Some nDCur) \<Rightarrow>
             (case speaks_ok v nPCur nDCur of Inl err \<Rightarrow> Some (Inl err) | Inr _ \<Rightarrow> check_remote v remote)
         | _ \<Rightarrow> None))"

fun check_local :: "version_range \<Rightarrow> nodeState list \<Rightarrow> unit result" where
  "check_local v [] = Inr ()"
| "check_local v (s # ns) =
     (case speaks_ok v (n_PCur (s_Node s)) (n_DCur (s_Node s)) of Inl err \<Rightarrow> Inl err | Inr _ \<Rightarrow> check_local v ns)"

definition verifyProtocol :: "'t memberlist \<Rightarrow> pushNodeState list \<Rightarrow> unit result option" where
  "verifyProtocol m remote =
     (let ns = map (heap m) (nodes m) in
      case range_remote remote \<lparr>maxpmin = 0, minpmax = 255, maxdmin = 0, mindmax = 255\<rparr> of
        None \<Rightarrow> None
      | Some v0 \<Rightarrow>
          (let v = range_local ns v0 in
           case check_remote v remote of
             None \<Rightarrow> None
           | Some (Inl err) \<Rightarrow> Some (Inl err)
           | Some (Inr _) \<Rightarrow> Some (check_local v ns)))"

section \<open>What a version range admits\<close>

text \<open>A node is a pair of speaking and understood versions, for the protocol and the delegate.\<close>

definition admits :: "version_range \<Rightarrow> u8 \<Rightarrow> u8 \<Rightarrow> bool" where
  "admits v p d \<longleftrightarrow> maxpmin v \<le> p \<and> p \<le> minpmax v \<and> maxdmin v \<le> d \<and> d \<le> mindmax v"

lemma speaks_ok_iff: "speaks_ok v p d = Inr () \<longleftrightarrow> admits v p d"
  by (auto simp: speaks_ok_def admits_def not_less)

lemma admits_narrow:
  "admits (narrow pmin pmax dmin dmax v) p d \<longleftrightarrow> admits v p d \<and> pmin \<le> p \<and> p \<le> pmax \<and> dmin \<le> d \<and> d \<le> dmax"
  by (auto simp: admits_def narrow_def)

definition full_vsn :: "pushNodeState \<Rightarrow> bool" where
  "full_vsn n \<longleftrightarrow> p_Vsn n = [] \<or> 6 \<le> length (p_Vsn n)"

definition understood_remote :: "pushNodeState \<Rightarrow> u8 \<Rightarrow> u8 \<Rightarrow> bool" where
  "understood_remote n p d \<longleftrightarrow> p_State n \<noteq> StateAlive \<or> p_Vsn n = [] \<or>
     p_Vsn n ! 0 \<le> p \<and> p \<le> p_Vsn n ! 1 \<and> p_Vsn n ! 3 \<le> d \<and> d \<le> p_Vsn n ! 4"

definition understood_local :: "nodeState \<Rightarrow> u8 \<Rightarrow> u8 \<Rightarrow> bool" where
  "understood_local s p d \<longleftrightarrow> s_State s \<noteq> StateAlive \<or>
     n_PMin (s_Node s) \<le> p \<and> p \<le> n_PMax (s_Node s) \<and> n_DMin (s_Node s) \<le> d \<and> d \<le> n_DMax (s_Node s)"

definition spoken_remote :: "pushNodeState \<Rightarrow> u8 \<times> u8" where
  "spoken_remote n = (if p_Vsn n = [] then (0, 0) else (p_Vsn n ! 2, p_Vsn n ! 5))"

definition spoken_local :: "nodeState \<Rightarrow> u8 \<times> u8" where
  "spoken_local s = (n_PCur (s_Node s), n_DCur (s_Node s))"

lemma range_remote_admits:
  "\<forall>n \<in> set remote. full_vsn n \<Longrightarrow>
   \<exists>v'. range_remote remote v = Some v' \<and>
     (\<forall>p d. admits v' p d \<longleftrightarrow> admits v p d \<and> (\<forall>n \<in> set remote. understood_remote n p d))"
proof (induction remote arbitrary: v)
  case (Cons rn remote)
  show ?case
  proof (cases "p_State rn \<noteq> StateAlive \<or> p_Vsn rn = []")
    case True
    then have "range_remote (rn # remote) v = range_remote remote v" by auto
    then show ?thesis using Cons True by (auto simp: understood_remote_def)
  next
    case False
    let ?w = "narrow (p_Vsn rn ! 0) (p_Vsn rn ! 1) (p_Vsn rn ! 3) (p_Vsn rn ! 4) v"
    have "6 \<le> length (p_Vsn rn)" using Cons.prems False by (simp add: full_vsn_def)
    then have i: "idx (p_Vsn rn) 0 = Some (p_Vsn rn ! 0)" "idx (p_Vsn rn) 1 = Some (p_Vsn rn ! 1)"
      "idx (p_Vsn rn) 3 = Some (p_Vsn rn ! 3)" "idx (p_Vsn rn) 4 = Some (p_Vsn rn ! 4)" by (auto simp: idx_def)
    have "range_remote (rn # remote) v = range_remote remote ?w" using False i by simp
    moreover obtain v' where "range_remote remote ?w = Some v'"
      "\<forall>p d. admits v' p d \<longleftrightarrow> admits ?w p d \<and> (\<forall>n \<in> set remote. understood_remote n p d)"
      using Cons.IH [of ?w] Cons.prems by auto
    ultimately show ?thesis using False by (auto simp: admits_narrow understood_remote_def)
  qed
qed simp

lemma range_local_admits:
  "admits (range_local ns v) p d \<longleftrightarrow> admits v p d \<and> (\<forall>s \<in> set ns. understood_local s p d)"
  by (induction ns v rule: range_local.induct) (auto simp: admits_narrow understood_local_def)

lemma check_local_iff: "check_local v ns = Inr () \<longleftrightarrow> (\<forall>s \<in> set ns. case spoken_local s of (p, d) \<Rightarrow> admits v p d)"
  by (induction v ns rule: check_local.induct) (auto simp: spoken_local_def speaks_ok_iff [symmetric] split: sum.splits)

lemma check_remote_iff:
  "\<forall>n \<in> set remote. full_vsn n \<Longrightarrow>
   \<exists>r. check_remote v remote = Some r \<and> (r = Inr () \<longleftrightarrow> (\<forall>n \<in> set remote. case spoken_remote n of (p, d) \<Rightarrow> admits v p d))"
proof (induction remote)
  case (Cons n remote)
  obtain p d where pd: "spoken_remote n = (p, d)" by fastforce
  have "check_remote v (n # remote) = (case speaks_ok v p d of Inl err \<Rightarrow> Some (Inl err) | Inr _ \<Rightarrow> check_remote v remote)"
  proof (cases "p_Vsn n = []")
    case False
    then have "6 \<le> length (p_Vsn n)" using Cons.prems by (simp add: full_vsn_def)
    then have "idx (p_Vsn n) 2 = Some (p_Vsn n ! 2)" "idx (p_Vsn n) 5 = Some (p_Vsn n ! 5)" by simp_all
    then show ?thesis using False pd by (simp add: spoken_remote_def)
  qed (use pd in \<open>simp add: spoken_remote_def\<close>)
  then show ?case using Cons speaks_ok_iff [of v p d] pd by (auto split: sum.splits)
qed simp

section \<open>Properties\<close>

text \<open>
  C30. The version check is exact: when every remote version vector is empty or complete it does
  not panic, and it accepts exactly when every node, remote or local, speaks a protocol and a
  delegate version that every live node, remote or local, understands.
\<close>

theorem verifyProtocol_exact:
  assumes "\<forall>n \<in> set remote. full_vsn n"
    and "speakers = spoken_remote ` set remote \<union> (\<lambda>r. spoken_local (heap m r)) ` set (nodes m)"
  shows "\<exists>res. verifyProtocol m remote = Some res \<and>
     (res = Inr () \<longleftrightarrow> (\<forall>(p, d) \<in> speakers. (\<forall>n \<in> set remote. understood_remote n p d) \<and>
        (\<forall>r \<in> set (nodes m). understood_local (heap m r) p d)))"
proof -
  let ?start = "\<lparr>maxpmin = 0, minpmax = 255, maxdmin = 0, mindmax = 255\<rparr>"
  obtain v1 where v1: "range_remote remote ?start = Some v1"
    "\<And>p d. admits v1 p d \<longleftrightarrow> admits ?start p d \<and> (\<forall>n \<in> set remote. understood_remote n p d)"
    using range_remote_admits [OF assms(1)] by blast
  let ?v = "range_local (map (heap m) (nodes m)) v1"
  have "p \<le> 255" for p :: u8
  proof -
    have "unat p < 2 ^ LENGTH(8)" by (rule unsigned_less)
    then show ?thesis by (simp add: word_le_nat_alt)
  qed
  then have top: "admits ?start p d" for p d by (simp add: admits_def)
  have v: "admits ?v p d \<longleftrightarrow> (\<forall>n \<in> set remote. understood_remote n p d) \<and>
      (\<forall>r \<in> set (nodes m). understood_local (heap m r) p d)" for p d
    by (simp add: range_local_admits v1(2) top)
  obtain r where r: "check_remote ?v remote = Some r"
    "r = Inr () \<longleftrightarrow> (\<forall>n \<in> set remote. case spoken_remote n of (p, d) \<Rightarrow> admits ?v p d)"
    using check_remote_iff [OF assms(1), of ?v] by (elim exE conjE)
  have "verifyProtocol m remote = Some (case r of Inl e \<Rightarrow> Inl e | Inr _ \<Rightarrow> check_local ?v (map (heap m) (nodes m)))"
    using v1(1) r(1) by (simp add: verifyProtocol_def Let_def split: sum.splits)
  moreover have "((case r of Inl e \<Rightarrow> Inl e | Inr _ \<Rightarrow> check_local ?v (map (heap m) (nodes m))) = Inr ()) \<longleftrightarrow>
      (\<forall>(p, d) \<in> speakers. admits ?v p d)"
  proof -
    have "(\<forall>(p, d) \<in> speakers. admits ?v p d) \<longleftrightarrow> r = Inr () \<and> check_local ?v (map (heap m) (nodes m)) = Inr ()"
      unfolding r(2) check_local_iff assms(2) ball_Un by simp
    then show ?thesis by (cases r) auto
  qed
  ultimately show ?thesis by (simp add: v)
qed

definition peer :: "u8 list \<Rightarrow> pushNodeState" where
  "peer vsn = \<lparr>p_Name = ''n1'', p_Addr = [], p_Port = 0, p_Meta = [], p_Incarnation = 1, p_State = StateAlive, p_Vsn = vsn\<rparr>"

theorem verifyProtocol_exact_witness:
  "verifyProtocol (new_memberlist 8) [peer [1, 5, 2, 0, 0, 0]] = Some (Inr ())"
proof -
  have v: "\<forall>n \<in> set [peer [1, 5, 2, 0, 0, 0]]. full_vsn n" by (simp add: full_vsn_def peer_def)
  have s: "{(2, 0)} = spoken_remote ` set [peer [1, 5, 2, 0, 0, 0]] \<union>
      (\<lambda>r. spoken_local (heap (new_memberlist 8) r)) ` set (nodes (new_memberlist 8))"
    by (simp add: spoken_remote_def peer_def new_memberlist_def)
  from verifyProtocol_exact [OF v s] show ?thesis
    by (simp add: understood_remote_def peer_def new_memberlist_def)
qed

text \<open>
  A version vector that is too short is not rejected: a live remote entry with one to four
  versions makes the check panic.
\<close>

theorem verifyProtocol_short_panics:
  "p_State n = StateAlive \<Longrightarrow> 0 < length (p_Vsn n) \<Longrightarrow> length (p_Vsn n) < 5 \<Longrightarrow> verifyProtocol m (n # remote) = None"
  by (simp add: verifyProtocol_def idx_def)

theorem verifyProtocol_short_panics_witness: "verifyProtocol (new_memberlist 8) [peer [1, 5, 2]] = None"
  by (rule verifyProtocol_short_panics) (simp_all add: peer_def)

end
