(* ===== verification/Packet.thy ===== *)
theory Packet
  imports Protocol_Check Security
begin

text \<open>
  The packet layer of \<open>memberlist/net.go\<close>: sending a message with piggybacked broadcasts,
  compression, checksum and encryption, and receiving it again down to the handler of its type.
  What happens outside is recorded or drawn from streams of the environment: \<open>wire\<close> lists the
  packets handed to the transport, the answers of the transport, of the user delegate and of
  the random source are numbered functions, and \<open>calls\<close> counts how many were used.
\<close>

section \<open>Checksum\<close>

text \<open>\<open>crc32.ChecksumIEEE\<close>: the reflected polynomial, one bit at a time.\<close>

definition crc_bit :: "u32 \<Rightarrow> u32" where
  "crc_bit c = (if odd c then xor (drop_bit 1 c) 0xEDB88320 else drop_bit 1 c)"

definition crc_byte :: "u32 \<Rightarrow> byte \<Rightarrow> u32" where
  "crc_byte c b = (crc_bit ^^ 8) (xor c (ucast b))"

definition ChecksumIEEE :: "bytes \<Rightarrow> u32" where
  "ChecksumIEEE bs = not (foldl crc_byte (not 0) bs)"

section \<open>State\<close>

record ('t, 'ip) netenv =
  ne_env :: "('t, 'ip) env"
  c_UDPBufferSize :: int
  c_GossipVerifyIncoming :: bool
  c_GossipVerifyOutgoing :: bool
  c_EnableCompression :: bool
  c_RequireNodeNames :: bool
  c_HandoffQueueDepth :: int
  c_AckPayload :: "bytes option"
  c_Delegate :: bool
  x_aead :: aead
  x_nonce :: "nat \<Rightarrow> bytes result"
  x_GetBroadcasts :: "nat \<Rightarrow> int \<Rightarrow> int \<Rightarrow> bytes list"
  x_WriteToAddress :: "nat \<Rightarrow> Address \<Rightarrow> bytes \<Rightarrow> unit result"

record msgHandoff =
  h_msgType :: messageType
  h_buf :: bytes
  h_from :: string

text \<open>
  The handler of an ack is either a probe, which waits on its channels, or the relay of an
  indirect ping, which forwards the ack to the node that asked.
\<close>

datatype ackHandler = ProbeChannels | RelayAck u32 Address

record 't netstate =
  core :: "'t memberlist"
  keyring :: "Keyring option"
  advertiseAddr :: string
  advertisePort :: u16
  highPriorityMsgQueue :: "msgHandoff list"
  lowPriorityMsgQueue :: "msgHandoff list"
  handoffCh :: bool
  ackHandlers :: "u32 \<rightharpoonup> ackHandler"
  nackTimers :: "(u32 \<times> u32 \<times> Address) list"
  ackEvents :: "(u32 \<times> bytes \<times> time) list"
  nackEvents :: "u32 list"
  wire :: "(Address \<times> bytes) list"
  userMsgs :: "bytes list"
  calls :: nat

definition EncryptionEnabled :: "'t netstate \<Rightarrow> bool" where
  "EncryptionEnabled st \<longleftrightarrow> (case keyring st of None \<Rightarrow> False | Some k \<Rightarrow> length (GetKeys k) > 0)"

definition encryptionVersion :: "('t, 'ip) netenv \<Rightarrow> u8" where
  "encryptionVersion ne = (if c_ProtocolVersion (ne_env ne) = 1 then 0 else 1)"

abbreviation (input) compoundHeaderOverhead :: int where "compoundHeaderOverhead \<equiv> 2"
abbreviation (input) compoundOverhead :: int where "compoundOverhead \<equiv> 2"
abbreviation (input) userMsgOverhead :: int where "userMsgOverhead \<equiv> 1"

section \<open>Sending\<close>

definition getBroadcasts :: "('t, 'ip) netenv \<Rightarrow> int \<Rightarrow> int \<Rightarrow> 't netstate \<Rightarrow> (bytes list \<times> 't netstate) option" where
  "getBroadcasts ne overhead limit st =
     (let env = ne_env ne; m = core st in
      case GetBroadcasts (x_btree env) (x_log10 env) (Some (c_RetransmitMult env)) (estNumNodes m) (broadcasts m) overhead limit of
        None \<Rightarrow> None
      | Some (toSend, q) \<Rightarrow>
          (let st1 = st\<lparr>core := m\<lparr>broadcasts := q\<rparr>\<rparr> in
           if c_Delegate ne then
             (let bytesUsed = sum_list (map (\<lambda>msg. int (length msg) + overhead) toSend);
                  avail = limit - bytesUsed
              in if avail > overhead + userMsgOverhead then
                   (let usr = x_GetBroadcasts ne (calls st) (overhead + userMsgOverhead) avail
                    in Some (toSend @ map (\<lambda>msg. userMsg # msg) usr, st1\<lparr>calls := Suc (calls st1)\<rparr>))
                 else Some (toSend, st1))
           else Some (toSend, st1)))"

definition compress_packet :: "('t, 'ip) netenv \<Rightarrow> bytes \<Rightarrow> bytes" where
  "compress_packet ne msg =
     (if c_EnableCompression ne then
        (case compressPayload (x_codec (ne_env ne)) msg of
           Inl err \<Rightarrow> msg
         | Inr buf \<Rightarrow> if length buf < length msg then buf else msg)
      else msg)"

definition add_crc :: "Node option \<Rightarrow> bytes \<Rightarrow> bytes" where
  "add_crc nd msg =
     (case nd of
        None \<Rightarrow> msg
      | Some n \<Rightarrow> if n_PMax n \<ge> 5 then hasCrcMsg # put_be32 (ChecksumIEEE msg) @ msg else msg)"

text \<open>
  The destination is looked up by its bare address as if that were its name. An encryption
  ring without a primary key cannot occur here, because encryption is then off.
\<close>

definition rawSendMsgPacket ::
    "('t, 'ip) netenv \<Rightarrow> Address \<Rightarrow> Node option \<Rightarrow> bytes \<Rightarrow> 't netstate \<Rightarrow> unit result \<times> 't netstate" where
  "rawSendMsgPacket ne a nd msg st =
     (if addr_Name a = [] \<and> c_RequireNodeNames ne then (Inl ''memberlist: node names are required by configuration but one was not provided'', st)
      else
        (let msg1 = compress_packet ne msg in
         case (case nd of
                 Some n \<Rightarrow> Inr (Some n)
               | None \<Rightarrow>
                   (case SplitHostPort (addr_Addr a) of
                      Inl err \<Rightarrow> Inl err
                    | Inr (toAddr, _) \<Rightarrow> Inr (map_option (\<lambda>r. s_Node (heap (core st) r)) (nodeMap (core st) toAddr)))) of
           Inl err \<Rightarrow> (Inl err, st)
         | Inr nd1 \<Rightarrow>
             (let msg2 = add_crc nd1 msg1;
                  st1 = st\<lparr>calls := Suc (calls st)\<rparr> in
              case (if EncryptionEnabled st \<and> c_GossipVerifyOutgoing ne then
                      (case keyring st of
                         None \<Rightarrow> Inl ''no keyring''
                       | Some k \<Rightarrow>
                           (case GetPrimaryKey k of
                              None \<Rightarrow> Inl ''no primary key''
                            | Some p \<Rightarrow> encryptPayload (x_aead ne) (x_nonce ne (calls st)) (encryptionVersion ne) p msg2 [] []))
                    else Inr msg2) of
                Inl err \<Rightarrow> (Inl err, st1)
              | Inr msg3 \<Rightarrow>
                  (x_WriteToAddress ne (calls st) a msg3, st1\<lparr>wire := wire st1 @ [(a, msg3)]\<rparr>))))"

text \<open>The room left for other messages in the packet of a message.\<close>

definition packet_room :: "('t, 'ip) netenv \<Rightarrow> bytes \<Rightarrow> 't netstate \<Rightarrow> int option" where
  "packet_room ne msg st =
     (let bytesAvail = c_UDPBufferSize ne - int (length msg) - compoundHeaderOverhead in
      if EncryptionEnabled st \<and> c_GossipVerifyOutgoing ne
      then map_option (\<lambda>ov. bytesAvail - ov) (encryptOverhead (encryptionVersion ne))
      else Some bytesAvail)"

definition sendMsg :: "('t, 'ip) netenv \<Rightarrow> Address \<Rightarrow> bytes \<Rightarrow> 't netstate \<Rightarrow> (unit result \<times> 't netstate) option" where
  "sendMsg ne a msg st =
     (case packet_room ne msg st of
        None \<Rightarrow> None
      | Some bytesAvail \<Rightarrow>
          (case getBroadcasts ne compoundOverhead bytesAvail st of
             None \<Rightarrow> None
           | Some (extra, st1) \<Rightarrow>
               if extra = [] then Some (rawSendMsgPacket ne a None msg st1)
               else Some (rawSendMsgPacket ne a None (makeCompoundMessage (msg # extra)) st1)))"

definition encodeAndSendMsg ::
    "('t, 'ip) netenv \<Rightarrow> Address \<Rightarrow> messageType \<Rightarrow> wire_msg \<Rightarrow> 't netstate \<Rightarrow> (unit result \<times> 't netstate) option" where
  "encodeAndSendMsg ne a msgType msg st =
     (case encode (x_codec (ne_env ne)) msgType msg of
        Inl err \<Rightarrow> Some (Inl err, st)
      | Inr out \<Rightarrow> sendMsg ne a out st)"

section \<open>Acks\<close>

definition setAckHandler :: "u32 \<Rightarrow> ackHandler \<Rightarrow> 't netstate \<Rightarrow> 't netstate" where
  "setAckHandler seqNo h st = st\<lparr>ackHandlers := (ackHandlers st)(seqNo \<mapsto> h)\<rparr>"

text \<open>The reaping timer of a handler fires.\<close>

definition ackTimeout :: "u32 \<Rightarrow> 't netstate \<Rightarrow> 't netstate" where
  "ackTimeout seqNo st = st\<lparr>ackHandlers := (ackHandlers st)(seqNo := None)\<rparr>"

definition invokeAckHandler :: "('t, 'ip) netenv \<Rightarrow> ackResp \<Rightarrow> time \<Rightarrow> 't netstate \<Rightarrow> 't netstate option" where
  "invokeAckHandler ne ack timestamp st =
     (let st1 = st\<lparr>ackHandlers := (ackHandlers st)(ak_SeqNo ack := None)\<rparr> in
      case ackHandlers st (ak_SeqNo ack) of
        None \<Rightarrow> Some st1
      | Some ProbeChannels \<Rightarrow> Some (st1\<lparr>ackEvents := ackEvents st1 @ [(ak_SeqNo ack, ak_Payload ack, timestamp)]\<rparr>)
      | Some (RelayAck indSeqNo a) \<Rightarrow>
          (let st2 = st1\<lparr>nackTimers := filter (\<lambda>(l, _, _). l \<noteq> ak_SeqNo ack) (nackTimers st1)\<rparr>
           in map_option snd (encodeAndSendMsg ne a ackRespMsg (AckResp \<lparr>ak_SeqNo = indSeqNo, ak_Payload = []\<rparr>) st2)))"

definition invokeNackHandler :: "u32 \<Rightarrow> 't netstate \<Rightarrow> 't netstate" where
  "invokeNackHandler seqNo st =
     (case ackHandlers st seqNo of
        Some ProbeChannels \<Rightarrow> st\<lparr>nackEvents := nackEvents st @ [seqNo]\<rparr>
      | _ \<Rightarrow> st)"

text \<open>The timer of an indirect ping fires: the requester is told that no ack was seen.\<close>

definition nackTimeout :: "('t, 'ip) netenv \<Rightarrow> u32 \<times> u32 \<times> Address \<Rightarrow> 't netstate \<Rightarrow> 't netstate option" where
  "nackTimeout ne t st =
     (case t of (localSeqNo, indSeqNo, a) \<Rightarrow>
        map_option snd (encodeAndSendMsg ne a nackRespMsg (NackResp indSeqNo)
          (st\<lparr>nackTimers := remove1 t (nackTimers st)\<rparr>)))"

section \<open>Handlers of the listener\<close>

definition blocked_source :: "('t, 'ip) netenv \<Rightarrow> string \<Rightarrow> bool" where
  "blocked_source ne SourceAddr \<longleftrightarrow>
     IPMustBeChecked (c_CIDRsAllowed (ne_env ne)) \<and> \<not> IsEmpty SourceAddr \<and>
     \<not> AddrAllowed (x_resolver (ne_env ne)) (c_CIDRsAllowed (ne_env ne)) SourceAddr"

definition reply_addr :: "string \<Rightarrow> u16 \<Rightarrow> string \<Rightarrow> string" where
  "reply_addr SourceAddr SourcePort from =
     (if length SourceAddr > 0 \<and> SourcePort > 0 then joinHostPort SourceAddr SourcePort else from)"

definition handlePing :: "('t, 'ip) netenv \<Rightarrow> bytes \<Rightarrow> string \<Rightarrow> 't netstate \<Rightarrow> 't netstate option" where
  "handlePing ne buf from st =
     (case decode (x_codec (ne_env ne)) 0 buf of
        Inr (Ping p) \<Rightarrow>
          if pi_Node p \<noteq> [] \<and> pi_Node p \<noteq> c_Name (ne_env ne) then Some st
          else if blocked_source ne (pi_SourceAddr p) then Some st
          else
            (let ack = \<lparr>ak_SeqNo = pi_SeqNo p, ak_Payload = (case c_AckPayload ne of None \<Rightarrow> [] | Some b \<Rightarrow> b)\<rparr>;
                 a = \<lparr>addr_Addr = reply_addr (pi_SourceAddr p) (pi_SourcePort p) from, addr_Name = pi_SourceNode p\<rparr>
             in map_option snd (encodeAndSendMsg ne a ackRespMsg (AckResp ack) st))
      | _ \<Rightarrow> Some st)"

definition handleIndirectPing :: "('t, 'ip) netenv \<Rightarrow> bytes \<Rightarrow> string \<Rightarrow> 't netstate \<Rightarrow> 't netstate option" where
  "handleIndirectPing ne buf from st =
     (case decode (x_codec (ne_env ne)) 1 buf of
        Inr (IndirectPing ind) \<Rightarrow>
          if blocked_source ne (ip_SourceAddr ind) then Some st
          else
            (let port = (if c_ProtocolVersion (ne_env ne) < 2 \<or> ip_Port ind = 0
                         then of_int (c_BindPort (ne_env ne)) else ip_Port ind);
                 (localSeqNo, m1) = nextSeqNo (core st);
                 st1 = st\<lparr>core := m1\<rparr>;
                 p = \<lparr>pi_SeqNo = localSeqNo, pi_Node = ip_Node ind, pi_SourceAddr = advertiseAddr st1,
                      pi_SourcePort = advertisePort st1, pi_SourceNode = c_Name (ne_env ne)\<rparr>;
                 indA = \<lparr>addr_Addr = reply_addr (ip_SourceAddr ind) (ip_SourcePort ind) from, addr_Name = ip_SourceNode ind\<rparr>;
                 st2 = setAckHandler localSeqNo (RelayAck (ip_SeqNo ind) indA) st1;
                 a = \<lparr>addr_Addr = joinHostPort (ip_Target ind) port, addr_Name = ip_Node ind\<rparr>
             in case encodeAndSendMsg ne a pingMsg (Ping p) st2 of
                  None \<Rightarrow> None
                | Some (_, st3) \<Rightarrow>
                    Some (if ip_Nack ind
                          then st3\<lparr>nackTimers := nackTimers st3 @ [(localSeqNo, ip_SeqNo ind, indA)]\<rparr>
                          else st3))
      | _ \<Rightarrow> Some st)"

definition handleAck :: "('t, 'ip) netenv \<Rightarrow> bytes \<Rightarrow> time \<Rightarrow> 't netstate \<Rightarrow> 't netstate option" where
  "handleAck ne buf timestamp st =
     (case decode (x_codec (ne_env ne)) 2 buf of
        Inr (AckResp ack) \<Rightarrow> invokeAckHandler ne ack timestamp st
      | _ \<Rightarrow> Some st)"

definition handleNack :: "('t, 'ip) netenv \<Rightarrow> bytes \<Rightarrow> 't netstate \<Rightarrow> 't netstate option" where
  "handleNack ne buf st =
     (case decode (x_codec (ne_env ne)) 3 buf of
        Inr (NackResp seqNo) \<Rightarrow> Some (invokeNackHandler seqNo st)
      | _ \<Rightarrow> Some st)"

text \<open>Messages about nodes are handed to the packet handler through two bounded queues.\<close>

definition enqueue_handoff :: "('t, 'ip) netenv \<Rightarrow> messageType \<Rightarrow> bytes \<Rightarrow> string \<Rightarrow> 't netstate \<Rightarrow> 't netstate" where
  "enqueue_handoff ne msgType buf from st =
     (let h = \<lparr>h_msgType = msgType, h_buf = buf, h_from = from\<rparr>;
          st1 = (if msgType = aliveMsg then
                   if int (length (highPriorityMsgQueue st)) \<ge> c_HandoffQueueDepth ne then st
                   else st\<lparr>highPriorityMsgQueue := highPriorityMsgQueue st @ [h]\<rparr>
                 else
                   if int (length (lowPriorityMsgQueue st)) \<ge> c_HandoffQueueDepth ne then st
                   else st\<lparr>lowPriorityMsgQueue := lowPriorityMsgQueue st @ [h]\<rparr>)
      in st1\<lparr>handoffCh := True\<rparr>)"

text \<open>
  \<open>handleCommand\<close> calls itself on the parts of a compound message and on what a compressed
  message unpacks to, which may again be a compressed message of any size. The fuel bounds the
  depth of that recursion; running out of it is \<open>None\<close>.
\<close>

fun handleCommand :: "('t, 'ip) netenv \<Rightarrow> nat \<Rightarrow> bytes \<Rightarrow> string \<Rightarrow> time \<Rightarrow> 't netstate \<Rightarrow> 't netstate option"
  and handleParts :: "('t, 'ip) netenv \<Rightarrow> nat \<Rightarrow> bytes list \<Rightarrow> string \<Rightarrow> time \<Rightarrow> 't netstate \<Rightarrow> 't netstate option" where
  "handleCommand ne 0 buf from timestamp st = None"
| "handleCommand ne (Suc fuel) buf from timestamp st =
     (case buf of
        [] \<Rightarrow> Some st
      | msgType # body \<Rightarrow>
          if msgType = compoundMsg then
            (case decodeCompoundMessage body of
               Inl err \<Rightarrow> Some st
             | Inr (trunc, parts) \<Rightarrow> handleParts ne fuel parts from timestamp st)
          else if msgType = compressMsg then
            (case decompressPayload (x_codec (ne_env ne)) body of
               Inl err \<Rightarrow> Some st
             | Inr payload \<Rightarrow> handleCommand ne fuel payload from timestamp st)
          else if msgType = pingMsg then handlePing ne body from st
          else if msgType = indirectPingMsg then handleIndirectPing ne body from st
          else if msgType = ackRespMsg then handleAck ne body timestamp st
          else if msgType = nackRespMsg then handleNack ne body st
          else if msgType \<in> {suspectMsg, aliveMsg, deadMsg, weightMsg, userMsg}
            then Some (enqueue_handoff ne msgType body from st)
          else Some st)"
| "handleParts ne fuel [] from timestamp st = Some st"
| "handleParts ne fuel (part # parts) from timestamp st =
     (case handleCommand ne fuel part from timestamp st of
        None \<Rightarrow> None
      | Some st1 \<Rightarrow> handleParts ne fuel parts from timestamp st1)"

definition check_crc :: "bytes \<Rightarrow> bytes option" where
  "check_crc buf =
     (if length buf \<ge> 5 \<and> hd buf = hasCrcMsg then
        if ChecksumIEEE (drop 5 buf) \<noteq> get_be32 (take 4 (drop 1 buf)) then None else Some (drop 5 buf)
      else Some buf)"

definition ingestPacket :: "('t, 'ip) netenv \<Rightarrow> nat \<Rightarrow> bytes \<Rightarrow> string \<Rightarrow> time \<Rightarrow> 't netstate \<Rightarrow> 't netstate option" where
  "ingestPacket ne fuel buf from timestamp st =
     (if \<not> ensureCanConnect (x_resolver (ne_env ne)) (c_CIDRsAllowed (ne_env ne)) from then Some st
      else
        (case (if EncryptionEnabled st then
                 (case keyring st of
                    None \<Rightarrow> Some (Inr buf)
                  | Some k \<Rightarrow>
                      (case decryptPayload (x_aead ne) (GetKeys k) buf [] of
                         None \<Rightarrow> None
                       | Some (Inl err) \<Rightarrow> if \<not> c_GossipVerifyIncoming ne then Some (Inr buf) else Some (Inl err)
                       | Some (Inr plain) \<Rightarrow> Some (Inr plain)))
               else Some (Inr buf)) of
           None \<Rightarrow> None
         | Some (Inl err) \<Rightarrow> Some st
         | Some (Inr plain) \<Rightarrow>
             (case check_crc plain of
                None \<Rightarrow> Some st
              | Some body \<Rightarrow> handleCommand ne fuel body from timestamp st)))"

section \<open>The packet handler\<close>

definition getNextMessage :: "'t netstate \<Rightarrow> (msgHandoff \<times> 't netstate) option" where
  "getNextMessage st =
     (if highPriorityMsgQueue st \<noteq> [] then
        Some (last (highPriorityMsgQueue st), st\<lparr>highPriorityMsgQueue := butlast (highPriorityMsgQueue st)\<rparr>)
      else if lowPriorityMsgQueue st \<noteq> [] then
        Some (last (lowPriorityMsgQueue st), st\<lparr>lowPriorityMsgQueue := butlast (lowPriorityMsgQueue st)\<rparr>)
      else None)"

definition handleSuspect :: "('t, 'ip) netenv \<Rightarrow> time \<Rightarrow> bytes \<Rightarrow> 't netstate \<Rightarrow> 't netstate" where
  "handleSuspect ne now buf st =
     (case decode (x_codec (ne_env ne)) 5 buf of
        Inr (Suspect s) \<Rightarrow> st\<lparr>core := suspectNode (ne_env ne) now s (core st)\<rparr>
      | _ \<Rightarrow> st)"

definition handleDead :: "('t, 'ip) netenv \<Rightarrow> time \<Rightarrow> bytes \<Rightarrow> 't netstate \<Rightarrow> 't netstate" where
  "handleDead ne now buf st =
     (case decode (x_codec (ne_env ne)) 7 buf of
        Inr (Dead d) \<Rightarrow> st\<lparr>core := deadNode (ne_env ne) now d (core st)\<rparr>
      | _ \<Rightarrow> st)"

definition handleWeight :: "('t, 'ip) netenv \<Rightarrow> bytes \<Rightarrow> 't netstate \<Rightarrow> 't netstate" where
  "handleWeight ne buf st =
     (case decode (x_codec (ne_env ne)) 8 buf of
        Inr (Weight w) \<Rightarrow> st\<lparr>core := weightNode (ne_env ne) w (core st)\<rparr>
      | _ \<Rightarrow> st)"

definition handleAlive :: "('t, 'ip) netenv \<Rightarrow> time \<Rightarrow> u32 \<Rightarrow> bytes \<Rightarrow> string \<Rightarrow> 't netstate \<Rightarrow> 't netstate option" where
  "handleAlive ne now rnd buf from st =
     (if \<not> ensureCanConnect (x_resolver (ne_env ne)) (c_CIDRsAllowed (ne_env ne)) from then Some st
      else
        (case decode (x_codec (ne_env ne)) 6 buf of
           Inr (Alive live) \<Rightarrow>
             if blocked_source ne (a_Addr live) then Some st
             else
               (let live1 = (if c_ProtocolVersion (ne_env ne) < 2 \<or> a_Port live = 0
                             then live\<lparr>a_Port := of_int (c_BindPort (ne_env ne))\<rparr> else live)
                in map_option (\<lambda>m. st\<lparr>core := m\<rparr>) (aliveNode (ne_env ne) now rnd live1 None False (core st)))
         | _ \<Rightarrow> Some st))"

definition handleUser :: "('t, 'ip) netenv \<Rightarrow> bytes \<Rightarrow> 't netstate \<Rightarrow> 't netstate" where
  "handleUser ne buf st = (if c_Delegate ne then st\<lparr>userMsgs := userMsgs st @ [buf]\<rparr> else st)"

definition handle_handoff :: "('t, 'ip) netenv \<Rightarrow> time \<Rightarrow> u32 \<Rightarrow> msgHandoff \<Rightarrow> 't netstate \<Rightarrow> 't netstate option" where
  "handle_handoff ne now rnd h st =
     (if h_msgType h = suspectMsg then Some (handleSuspect ne now (h_buf h) st)
      else if h_msgType h = aliveMsg then handleAlive ne now rnd (h_buf h) (h_from h) st
      else if h_msgType h = deadMsg then Some (handleDead ne now (h_buf h) st)
      else if h_msgType h = weightMsg then Some (handleWeight ne (h_buf h) st)
      else if h_msgType h = userMsg then Some (handleUser ne (h_buf h) st)
      else Some st)"

text \<open>
  One activation of the handler empties both queues. The clock and the random numbers of the
  messages are \<open>now\<close> and \<open>rnd\<close>; no message is added while it runs.
\<close>

function packetHandler :: "('t, 'ip) netenv \<Rightarrow> time \<Rightarrow> (nat \<Rightarrow> u32) \<Rightarrow> 't netstate \<Rightarrow> 't netstate option" where
  "packetHandler ne now rnd st =
     (case getNextMessage st of
        None \<Rightarrow> Some (st\<lparr>handoffCh := False\<rparr>)
      | Some (h, st1) \<Rightarrow>
          (case handle_handoff ne now (rnd (length (highPriorityMsgQueue st) + length (lowPriorityMsgQueue st))) h st1 of
             None \<Rightarrow> None
           | Some st2 \<Rightarrow> packetHandler ne now rnd st2))"
  by pat_completeness auto

lemma handle_handoff_queues:
  "handle_handoff ne now rnd h st = Some st' \<Longrightarrow>
   highPriorityMsgQueue st' = highPriorityMsgQueue st \<and> lowPriorityMsgQueue st' = lowPriorityMsgQueue st"
  by (auto simp: handle_handoff_def handleSuspect_def handleAlive_def handleDead_def handleWeight_def handleUser_def Let_def
      split: if_splits sum.splits wire_msg.splits)

lemma getNextMessage_shrinks:
  "getNextMessage st = Some (h, st') \<Longrightarrow>
   length (highPriorityMsgQueue st') + length (lowPriorityMsgQueue st') <
   length (highPriorityMsgQueue st) + length (lowPriorityMsgQueue st)"
  by (auto simp: getNextMessage_def split: if_splits)

termination packetHandler
  by (relation "measure (\<lambda>(ne, now, rnd, st). length (highPriorityMsgQueue st) + length (lowPriorityMsgQueue st))")
    (auto dest!: handle_handoff_queues getNextMessage_shrinks)

end
