(* ===== verification/Packet_Correct.thy ===== *)
theory Packet_Correct
  imports Packet
begin

text \<open>
  Correctness of the packet layer: what one node sends is what another handles (through
  compression, checksum, encryption and framing), packets respect the configured size up to
  two bytes, the handoff queues stay bounded, and handling a packet keeps the invariant of the
  membership table.
\<close>

section \<open>Fuel\<close>

lemma handleCommand_more_fuel:
  shows "handleCommand ne f buf src ts st = Some r \<Longrightarrow> handleCommand ne (Suc f) buf src ts st = Some r"
    and "handleParts ne f parts src ts st = Some r \<Longrightarrow> handleParts ne (Suc f) parts src ts st = Some r"
proof (induction ne f buf src ts st and ne f parts src ts st arbitrary: r and r
    rule: handleCommand_handleParts.induct)
  case (2 ne fuel buf src ts st)
  show ?case
  proof (cases buf)
    case (Cons t body)
    show ?thesis
    proof (cases "t = compoundMsg \<or> t = compressMsg")
      case False
      then show ?thesis using 2(3) Cons by simp
    next
      case True
      then show ?thesis using 2 Cons by (auto split: sum.splits prod.splits)
    qed
  qed (use 2 in simp)
next
  case (4 ne fuel part parts src ts st)
  then show ?case by (auto split: option.splits)
qed simp_all

lemma handleCommand_fuel_le:
  assumes "handleCommand ne f buf src ts st = Some r" and "f \<le> f'"
  shows "handleCommand ne f' buf src ts st = Some r"
  using assms(2,1)
  by (induction rule: dec_induct) (auto dest: handleCommand_more_fuel(1))

section \<open>The transformations of a packet and their inverses\<close>

lemma check_add_crc:
  assumes "b = [] \<or> hd b \<noteq> hasCrcMsg"
  shows "check_crc (add_crc nd b) = Some b"
proof (cases "\<exists>n. nd = Some n \<and> n_PMax n \<ge> 5")
  case True
  then have "add_crc nd b = hasCrcMsg # put_be32 (ChecksumIEEE b) @ b" by (auto simp: add_crc_def)
  then show ?thesis by (simp add: check_crc_def get_put_be32)
next
  case False
  then have "add_crc nd b = b" by (auto simp: add_crc_def split: option.splits)
  then show ?thesis using assms by (auto simp: check_crc_def)
qed

lemma handle_compressed_packet:
  assumes laws: "codec_laws (x_codec (ne_env ne))" and same: "x_codec (ne_env ne') = x_codec (ne_env ne)"
    and h: "handleCommand ne' fuel msg src ts st = Some r"
  shows "handleCommand ne' (Suc fuel) (compress_packet ne msg) src ts st = Some r"
proof (cases "compress_packet ne msg = msg")
  case True
  then show ?thesis using handleCommand_more_fuel(1) [OF h] by simp
next
  case False
  then obtain buf where buf: "compressPayload (x_codec (ne_env ne)) msg = Inr buf" "compress_packet ne msg = buf"
    by (auto simp: compress_packet_def split: if_splits sum.splits)
  from decompress_compress [OF laws buf(1)]
  have d: "hd buf = compressMsg" "decompressPayload (x_codec (ne_env ne)) (tl buf) = Inr msg" by auto
  have "buf \<noteq> []" using buf(1) by (auto simp: compressPayload_def encode_Inr split: sum.splits)
  then obtain body where b: "buf = compressMsg # body" using d(1) by (cases buf) auto
  then have "handleCommand ne' (Suc fuel) buf src ts st = handleCommand ne' fuel msg src ts st"
    using d(2) by (simp add: same)
  then show ?thesis using h buf(2) by simp
qed

lemma hd_compress_packet:
  assumes "codec_laws (x_codec (ne_env ne))" and "msg \<noteq> []" and "hd msg \<noteq> hasCrcMsg"
  shows "compress_packet ne msg \<noteq> [] \<and> hd (compress_packet ne msg) \<noteq> hasCrcMsg"
proof (cases "compress_packet ne msg = msg")
  case False
  then obtain buf where buf: "compressPayload (x_codec (ne_env ne)) msg = Inr buf" "compress_packet ne msg = buf"
    by (auto simp: compress_packet_def split: if_splits sum.splits)
  then show ?thesis by (auto simp: compressPayload_def encode_Inr split: sum.splits)
qed (use assms in simp)

text \<open>
  When sender and receiver agree on encryption: either the sender's primary key is on the
  receiver's ring and no key before it accepts the sealed packet, or encryption is off at both.
\<close>

definition keys_agree ::
    "('t, 'ip) netenv \<Rightarrow> 't netstate \<Rightarrow> ('t, 'ip) netenv \<Rightarrow> 't netstate \<Rightarrow> bytes \<Rightarrow> bool" where
  "keys_agree ne st ne' st' pkt \<longleftrightarrow>
     (if EncryptionEnabled st \<and> c_GossipVerifyOutgoing ne then
        \<exists>k k' p nonce. keyring st = Some k \<and> keyring st' = Some k' \<and> keyring_ok k \<and> keyring_ok k' \<and>
          GetPrimaryKey k = Some p \<and> p \<in> set (GetKeys k') \<and> x_nonce ne (calls st) = Inr nonce \<and> length nonce = nonceSize \<and>
          (\<forall>q \<in> set (takeWhile (\<lambda>q. q \<noteq> p) (GetKeys k')).
             unseal (x_aead ne) q nonce (drop (versionSize + nonceSize) pkt) [] = None)
      else \<not> EncryptionEnabled st')"

lemma encryptionVersion_le: "encryptionVersion ne \<le> 1"
  by (simp add: encryptionVersion_def)

lemma rawSend_wire:
  assumes "rawSendMsgPacket ne a nd msg st = (res, st1)" and "wire st1 = wire st @ [(a, pkt)]"
  obtains nd' where "if EncryptionEnabled st \<and> c_GossipVerifyOutgoing ne
      then \<exists>k p. keyring st = Some k \<and> GetPrimaryKey k = Some p \<and>
        encryptPayload (x_aead ne) (x_nonce ne (calls st)) (encryptionVersion ne) p (add_crc nd' (compress_packet ne msg)) [] [] = Inr pkt
      else pkt = add_crc nd' (compress_packet ne msg)"
  using assms by (auto simp: rawSendMsgPacket_def Let_def split: if_splits option.splits sum.splits prod.splits)

lemma rawSend_wire_None:
  assumes "rawSendMsgPacket ne a None msg st = (res, st1)" and "wire st1 = wire st @ [(a, pkt)]"
  obtains nd where "nd \<noteq> None \<Longrightarrow> \<exists>h p. SplitHostPort (addr_Addr a) = Inr (h, p) \<and> nodeMap (core st) h \<noteq> None"
    and "if EncryptionEnabled st \<and> c_GossipVerifyOutgoing ne
      then \<exists>k p. keyring st = Some k \<and> GetPrimaryKey k = Some p \<and>
        encryptPayload (x_aead ne) (x_nonce ne (calls st)) (encryptionVersion ne) p (add_crc nd (compress_packet ne msg)) [] [] = Inr pkt
      else pkt = add_crc nd (compress_packet ne msg)"
proof -
  obtain h p where hp: "SplitHostPort (addr_Addr a) = Inr (h, p)"
    using assms by (cases "SplitHostPort (addr_Addr a)") (auto simp: rawSendMsgPacket_def Let_def split: if_splits)
  let ?nd = "map_option (\<lambda>r. s_Node (heap (core st) r)) (nodeMap (core st) h)"
  show thesis
  proof (rule that [of ?nd])
    show "if EncryptionEnabled st \<and> c_GossipVerifyOutgoing ne
      then \<exists>k p. keyring st = Some k \<and> GetPrimaryKey k = Some p \<and>
        encryptPayload (x_aead ne) (x_nonce ne (calls st)) (encryptionVersion ne) p (add_crc ?nd (compress_packet ne msg)) [] [] = Inr pkt
      else pkt = add_crc ?nd (compress_packet ne msg)"
      using assms hp by (auto simp: rawSendMsgPacket_def Let_def split: if_splits option.splits sum.splits)
  qed (use hp in auto)
qed

section \<open>End to end\<close>

lemma ingest_what_was_sent:
  assumes laws: "codec_laws (x_codec (ne_env ne))" "aead_laws (x_aead ne)"
    and same: "x_codec (ne_env ne') = x_codec (ne_env ne)" "x_aead ne' = x_aead ne"
    and sent: "rawSendMsgPacket ne a nd msg st = (res, st1)" "wire st1 = wire st @ [(a, pkt)]"
    and agree: "keys_agree ne st ne' st' pkt"
    and msg: "msg \<noteq> []" "hd msg \<noteq> hasCrcMsg"
    and allowed: "ensureCanConnect (x_resolver (ne_env ne')) (c_CIDRsAllowed (ne_env ne')) src"
    and h: "handleCommand ne' fuel msg src ts st' = Some r"
  shows "ingestPacket ne' (Suc fuel) pkt src ts st' = Some r"
proof -
  let ?c = "compress_packet ne msg"
  obtain nd' where w: "if EncryptionEnabled st \<and> c_GossipVerifyOutgoing ne
      then \<exists>k p. keyring st = Some k \<and> GetPrimaryKey k = Some p \<and>
        encryptPayload (x_aead ne) (x_nonce ne (calls st)) (encryptionVersion ne) p (add_crc nd' ?c) [] [] = Inr pkt
      else pkt = add_crc nd' ?c"
    using rawSend_wire [OF sent] by blast
  have crc: "check_crc (add_crc nd' ?c) = Some ?c"
    using hd_compress_packet [OF laws(1) msg] by (intro check_add_crc) simp
  have cmd: "handleCommand ne' (Suc fuel) ?c src ts st' = Some r"
    by (rule handle_compressed_packet [OF laws(1) same(1) h])
  show ?thesis
  proof (cases "EncryptionEnabled st \<and> c_GossipVerifyOutgoing ne")
    case False
    then have "pkt = add_crc nd' ?c" "\<not> EncryptionEnabled st'" using w agree by (auto simp: keys_agree_def)
    then show ?thesis using crc cmd allowed by (simp add: ingestPacket_def)
  next
    case True
    let ?m = "add_crc nd' ?c" and ?v = "encryptionVersion ne"
    obtain k k' p nonce where k: "keyring st = Some k" "keyring st' = Some k'" "keyring_ok k" "keyring_ok k'"
      "GetPrimaryKey k = Some p" "p \<in> set (GetKeys k')" "x_nonce ne (calls st) = Inr nonce" "length nonce = nonceSize"
      and rej: "\<forall>q \<in> set (takeWhile (\<lambda>q. q \<noteq> p) (GetKeys k')).
             unseal (x_aead ne) q nonce (drop (versionSize + nonceSize) pkt) [] = None"
      using agree True by (auto simp: keys_agree_def)
    have enc: "encryptPayload (x_aead ne) (Inr nonce) ?v p ?m [] [] = Inr pkt" using w True k(1,5,7) by auto
    have "valid_key p" using ring.primary_in [OF k(3,5)] ring.keys_valid [OF k(3)] by blast
    then have pkt: "pkt = ?v # nonce @ seal (x_aead ne) p nonce (padded ?v ?m) []"
      using enc encryptPayload_eq [of p nonce "x_aead ne" ?v ?m "[]" "[]"] k(8) by simp
    then have "drop (versionSize + nonceSize) pkt = seal (x_aead ne) p nonce (padded ?v ?m) []" using k(8) by simp
    with rej have "decryptPayload (x_aead ne) (GetKeys k') pkt [] = Some (Inr ?m)"
      using ring.sealed_readable [OF laws(2) k(3,4,5,6,8) encryptionVersion_le, of ne ?m "[]" "[]"] pkt by simp
    moreover have "EncryptionEnabled st'" using k(2,6) by (auto simp: EncryptionEnabled_def)
    ultimately show ?thesis using crc cmd allowed k(2) by (simp add: ingestPacket_def same(2))
  qed
qed

lemma handle_compound:
  assumes "length msgs \<le> 255" and "\<forall>m \<in> set msgs. length m < 2 ^ 16"
  shows "handleCommand ne (Suc fuel) (makeCompoundMessage msgs) src ts st = handleParts ne fuel msgs src ts st"
proof -
  obtain body where b: "makeCompoundMessage msgs = compoundMsg # body" by (simp add: makeCompoundMessage_def)
  then have "decodeCompoundMessage body = Inr (0, msgs)" using compound_decodes [OF assms] by simp
  then show ?thesis unfolding b by simp
qed

section \<open>Fetching and sending\<close>

lemma getBroadcasts_result:
  assumes e: "env_ok (ne_env ne)" and ok: "member_ok (ne_env ne) (core st)" and ov: "0 \<le> overhead"
  shows "\<exists>extra q n. getBroadcasts ne overhead limit st = Some (extra, st\<lparr>core := core st\<lparr>broadcasts := q\<rparr>, calls := n\<rparr>) \<and>
     queue_ok (x_btree (ne_env ne)) q"
proof -
  let ?e = "ne_env ne" and ?m = "core st"
  let ?G = "GetBroadcasts (x_btree ?e) (x_log10 ?e) (Some (c_RetransmitMult ?e)) (estNumNodes ?m) (broadcasts ?m) overhead limit"
  have q: "btree_laws (x_btree ?e) \<and> queue_ok (x_btree ?e) (broadcasts ?m)"
    using e member_okD(3) [OF ok] by (simp add: env_ok_def)
  from tlq.fetch_total [OF q ov] obtain ms q' where f: "?G = Some (ms, q')" by fastforce
  have q': "queue_ok (x_btree ?e) q'" using tlq.fetch_ok [OF q ov f] by simp
  show ?thesis
  proof (cases "c_Delegate ne \<and> limit - sum_list (map (\<lambda>msg. int (length msg) + overhead) ms) > overhead + userMsgOverhead")
    case True
    then show ?thesis using f q' by (intro exI conjI) (simp add: getBroadcasts_def Let_def, assumption)
  next
    case False
    then have "getBroadcasts ne overhead limit st = Some (ms, st\<lparr>core := core st\<lparr>broadcasts := q'\<rparr>\<rparr>)"
      using f by (auto simp: getBroadcasts_def Let_def)
    then show ?thesis using q' by (intro exI [of _ ms] exI [of _ q'] exI [of _ "calls st"]) simp
  qed
qed

lemma member_ok_fetch: "member_ok env m \<Longrightarrow> queue_ok (x_btree env) q \<Longrightarrow> member_ok env (m\<lparr>broadcasts := q\<rparr>)"
  by (rule member_ok_same [of env m]) (simp_all add: member_okD(4) [of env m])

text \<open>Two network states with the same tables, queues of messages and keys; the broadcasts of the first are well-formed.\<close>

definition sent_only :: "('t, 'ip) env \<Rightarrow> 't netstate \<Rightarrow> 't netstate \<Rightarrow> bool" where
  "sent_only env st st' \<longleftrightarrow>
     (\<exists>q. core st' = core st\<lparr>broadcasts := q\<rparr> \<and> queue_ok (x_btree env) q) \<and>
     highPriorityMsgQueue st' = highPriorityMsgQueue st \<and> lowPriorityMsgQueue st' = lowPriorityMsgQueue st \<and>
     keyring st' = keyring st \<and> ackHandlers st' = ackHandlers st \<and> (\<exists>w. wire st' = wire st @ w)"

lemma sent_only_refl: "member_ok env (core st) \<Longrightarrow> sent_only env st st"
  by (auto simp: sent_only_def dest: member_okD(3) intro!: exI [of _ "broadcasts (core st)"])

lemma sent_only_trans: "sent_only env a b \<Longrightarrow> sent_only env b c \<Longrightarrow> sent_only env a c"
  unfolding sent_only_def by auto

lemma rawSend_state:
  "\<exists>w. wire (snd (rawSendMsgPacket ne a nd msg st)) = wire st @ w"
  "core (snd (rawSendMsgPacket ne a nd msg st)) = core st"
  "highPriorityMsgQueue (snd (rawSendMsgPacket ne a nd msg st)) = highPriorityMsgQueue st"
  "lowPriorityMsgQueue (snd (rawSendMsgPacket ne a nd msg st)) = lowPriorityMsgQueue st"
  "keyring (snd (rawSendMsgPacket ne a nd msg st)) = keyring st"
  "ackHandlers (snd (rawSendMsgPacket ne a nd msg st)) = ackHandlers st"
  by (simp_all add: rawSendMsgPacket_def Let_def split: option.splits sum.splits prod.splits)

lemma rawSend_sent_only: "member_ok env (core st) \<Longrightarrow> sent_only env st (snd (rawSendMsgPacket ne a nd msg st))"
  unfolding sent_only_def rawSend_state(2-) by (intro conjI exI [of _ "broadcasts (core st)"] rawSend_state(1)) (simp_all add: member_okD(3))

lemma encryptOverhead_known: "\<exists>ov. encryptOverhead (encryptionVersion ne) = Some ov"
  by (simp add: encryptionVersion_def encryptOverhead_def)

lemma sendMsg_sent_only:
  assumes e: "env_ok (ne_env ne)" and ok: "member_ok (ne_env ne) (core st)"
  shows "\<exists>res st'. sendMsg ne a msg st = Some (res, st') \<and> sent_only (ne_env ne) st st'"
proof -
  obtain av where ov: "packet_room ne msg st = Some av"
    using encryptOverhead_known [of ne] by (cases "EncryptionEnabled st \<and> c_GossipVerifyOutgoing ne") (auto simp: packet_room_def Let_def)
  obtain extra q n where g: "getBroadcasts ne compoundOverhead av st = Some (extra, st\<lparr>core := core st\<lparr>broadcasts := q\<rparr>, calls := n\<rparr>)"
    and q: "queue_ok (x_btree (ne_env ne)) q"
    using getBroadcasts_result [OF e ok] by (metis zero_le_numeral)
  let ?st1 = "st\<lparr>core := core st\<lparr>broadcasts := q\<rparr>, calls := n\<rparr>"
  let ?msg = "if extra = [] then msg else makeCompoundMessage (msg # extra)"
  have s: "sendMsg ne a msg st = Some (rawSendMsgPacket ne a None ?msg ?st1)"
    using g ov by (auto simp: sendMsg_def)
  have "sent_only (ne_env ne) st ?st1" using q by (auto simp: sent_only_def)
  moreover have "member_ok (ne_env ne) (core ?st1)" using member_ok_fetch [OF ok q] by simp
  ultimately show ?thesis
    using s sent_only_trans [OF _ rawSend_sent_only] by (metis prod.collapse)
qed

lemma encodeAndSendMsg_sent_only:
  assumes "env_ok (ne_env ne)" and "member_ok (ne_env ne) (core st)"
  shows "\<exists>res st'. encodeAndSendMsg ne a t msg st = Some (res, st') \<and> sent_only (ne_env ne) st st'"
  using sendMsg_sent_only [OF assms] sent_only_refl [OF assms(2)] by (simp add: encodeAndSendMsg_def split: sum.splits)

lemma sent_only_ok: "member_ok env (core st) \<Longrightarrow> sent_only env st st' \<Longrightarrow> member_ok env (core st')"
  unfolding sent_only_def using member_ok_fetch by metis

section \<open>The invariant of a node\<close>

definition net_ok :: "('t, 'ip) netenv \<Rightarrow> 't netstate \<Rightarrow> bool" where
  "net_ok ne st \<longleftrightarrow> member_ok (ne_env ne) (core st) \<and>
     int (length (highPriorityMsgQueue st)) \<le> max 0 (c_HandoffQueueDepth ne) \<and>
     int (length (lowPriorityMsgQueue st)) \<le> max 0 (c_HandoffQueueDepth ne)"

lemma net_ok_sent: "net_ok ne st \<Longrightarrow> sent_only (ne_env ne) st st' \<Longrightarrow> net_ok ne st'"
  by (auto simp: net_ok_def intro: sent_only_ok) (auto simp: sent_only_def)

lemma net_ok_core: "net_ok ne st \<Longrightarrow> member_ok (ne_env ne) (core st)"
  by (simp add: net_ok_def)

lemma net_ok_simps [simp]:
  "net_ok ne (st\<lparr>nackTimers := x\<rparr>) = net_ok ne st" "net_ok ne (st\<lparr>ackHandlers := h\<rparr>) = net_ok ne st"
  "net_ok ne (st\<lparr>ackEvents := a\<rparr>) = net_ok ne st" "net_ok ne (st\<lparr>nackEvents := n\<rparr>) = net_ok ne st"
  "net_ok ne (st\<lparr>handoffCh := b\<rparr>) = net_ok ne st"
  by (simp_all add: net_ok_def)

lemma net_ok_enqueue [inv_intros]: "net_ok ne st \<Longrightarrow> net_ok ne (enqueue_handoff ne t buf src st)"
  by (auto simp: net_ok_def enqueue_handoff_def Let_def)

text \<open>Answering a message: encoding and sending succeeds, and the state stays well-formed.\<close>

lemma net_ok_answer:
  assumes "env_ok (ne_env ne)" and "net_ok ne st"
  shows "\<exists>res st'. encodeAndSendMsg ne a t msg st = Some (res, st') \<and> net_ok ne st'"
  using encodeAndSendMsg_sent_only [OF assms(1) net_ok_core [OF assms(2)]] net_ok_sent [OF assms(2)] by blast

lemma handlePing_ok:
  assumes "env_ok (ne_env ne)" and "net_ok ne st"
  shows "\<exists>st'. handlePing ne buf src st = Some st' \<and> net_ok ne st'"
proof -
  have "\<exists>st'. map_option snd (encodeAndSendMsg ne a t msg st) = Some st' \<and> net_ok ne st'" for a t msg
    using net_ok_answer [OF assms, of a t msg] by auto
  then show ?thesis using assms(2) unfolding handlePing_def Let_def by (auto split: sum.split wire_msg.split)
qed

lemma handleIndirectPing_ok:
  assumes e: "env_ok (ne_env ne)" and ok: "net_ok ne st"
  shows "\<exists>st'. handleIndirectPing ne buf src st = Some st' \<and> net_ok ne st'"
proof -
  let ?st1 = "\<lambda>h. setAckHandler (fst (nextSeqNo (core st))) h (st\<lparr>core := snd (nextSeqNo (core st))\<rparr>)"
  have "member_ok (ne_env ne) (snd (nextSeqNo (core st)))"
    by (rule member_step_ok [OF e net_ok_core [OF ok] member_step.seqno])
  then have "net_ok ne (?st1 h)" for h using ok by (simp add: net_ok_def setAckHandler_def)
  note answer = net_ok_answer [OF e this]
  have "\<exists>st'. (case encodeAndSendMsg ne a t msg (?st1 h) of None \<Rightarrow> None
      | Some (r, st3) \<Rightarrow> Some (if b then st3\<lparr>nackTimers := nackTimers st3 @ x\<rparr> else st3)) = Some st' \<and> net_ok ne st'" for a t msg h b x
    using answer [of a t msg h] by auto
  then show ?thesis
    using ok unfolding handleIndirectPing_def Let_def by (auto split: sum.split wire_msg.split prod.split)
qed

lemma handleAck_ok:
  assumes e: "env_ok (ne_env ne)" and ok: "net_ok ne st"
  shows "\<exists>st'. handleAck ne buf ts st = Some st' \<and> net_ok ne st'"
proof -
  let ?st1 = "\<lambda>s. st\<lparr>ackHandlers := (ackHandlers st)(s := None)\<rparr>"
  have 4: "\<exists>st'. map_option snd (encodeAndSendMsg ne a t msg ((?st1 s)\<lparr>nackTimers := tm\<rparr>)) = Some st' \<and> net_ok ne st'" for a t msg s tm
    using net_ok_answer [OF e, of "(?st1 s)\<lparr>nackTimers := tm\<rparr>" a t msg] ok by auto
  have "\<exists>st'. invokeAckHandler ne ack ts st = Some st' \<and> net_ok ne st'" for ack
    using ok 4 unfolding invokeAckHandler_def Let_def by (auto split: option.split ackHandler.split)
  then show ?thesis using ok unfolding handleAck_def by (auto split: sum.split wire_msg.split)
qed

lemma handleNack_ok: "net_ok ne st \<Longrightarrow> \<exists>st'. handleNack ne buf st = Some st' \<and> net_ok ne st'"
  unfolding handleNack_def invokeNackHandler_def
  by (auto split: sum.split wire_msg.split option.split ackHandler.split)

lemma handleCommand_ok:
  assumes e: "env_ok (ne_env ne)"
  shows "net_ok ne st \<Longrightarrow> handleCommand ne fuel buf src ts st = Some st' \<Longrightarrow> net_ok ne st'"
    and "net_ok ne st \<Longrightarrow> handleParts ne fuel parts src ts st = Some st' \<Longrightarrow> net_ok ne st'"
  using e
proof (induction ne fuel buf src ts st and ne fuel parts src ts st arbitrary: st' and st'
    rule: handleCommand_handleParts.induct)
  case (2 ne fuel buf src ts st)
  show ?case
  proof (cases buf)
    case (Cons t body)
    show ?thesis
    proof (cases "t = compoundMsg \<or> t = compressMsg")
      case False
      then show ?thesis
        using 2(3,4) Cons handlePing_ok [OF 2(5,3), of body src] handleIndirectPing_ok [OF 2(5,3), of body src]
          handleAck_ok [OF 2(5,3), of body ts] handleNack_ok [OF 2(3), of body] net_ok_enqueue [OF 2(3)]
        by (auto split: if_splits)
    next
      case True
      then show ?thesis using 2 Cons by (auto split: sum.splits prod.splits if_splits)
    qed
  qed (use 2 in simp)
next
  case (4 ne fuel part parts src ts st)
  then show ?case by (auto split: option.splits)
qed simp_all

text \<open>
  Enough fuel: a message of which fewer than \<open>n\<close> layers of compound and compressed messages can be
  taken off is handled with fuel \<open>n\<close>, whatever it holds.
\<close>

definition unpacks_to :: "codec \<Rightarrow> bytes \<Rightarrow> bytes \<Rightarrow> bool" where
  "unpacks_to c outer inner \<longleftrightarrow>
     (\<exists>body. outer = compressMsg # body \<and> decompressPayload c body = Inr inner) \<or>
     (\<exists>body trunc parts. outer = compoundMsg # body \<and> decodeCompoundMessage body = Inr (trunc, parts) \<and> inner \<in> set parts)"

fun nests_below :: "codec \<Rightarrow> nat \<Rightarrow> bytes \<Rightarrow> bool" where
  "nests_below c 0 buf = False"
| "nests_below c (Suc n) buf = (\<forall>inner. unpacks_to c buf inner \<longrightarrow> nests_below c n inner)"

lemma handleCommand_returns:
  assumes e: "env_ok (ne_env ne)"
  shows "net_ok ne st \<Longrightarrow> nests_below (x_codec (ne_env ne)) fuel buf \<Longrightarrow> \<exists>st'. handleCommand ne fuel buf src ts st = Some st'"
    and "net_ok ne st \<Longrightarrow> (\<forall>part \<in> set parts. nests_below (x_codec (ne_env ne)) fuel part) \<Longrightarrow>
      \<exists>st'. handleParts ne fuel parts src ts st = Some st'"
  using e
proof (induction ne fuel buf src ts st and ne fuel parts src ts st rule: handleCommand_handleParts.induct)
  case (2 ne fuel buf src ts st)
  show ?case
  proof (cases buf)
    case (Cons t body)
    show ?thesis
    proof (cases "t = compoundMsg \<or> t = compressMsg")
      case False
      then show ?thesis
        using Cons handlePing_ok [OF 2(5,3), of body src] handleIndirectPing_ok [OF 2(5,3), of body src]
          handleAck_ok [OF 2(5,3), of body ts] handleNack_ok [OF 2(3), of body]
        by (auto split: if_splits)
    next
      case True
      then show ?thesis using 2 Cons by (auto simp: unpacks_to_def split: sum.splits prod.splits if_splits)
    qed
  qed (use 2 in simp)
next
  case (4 ne fuel part parts src ts st)
  obtain st1 where st1: "handleCommand ne fuel part src ts st = Some st1" using 4 by auto
  show ?case using 4(2) [OF st1 handleCommand_ok(1) [OF 4(5,3) st1]] 4(4,5) st1 by simp
qed simp_all

text \<open>
  The plaintext of a packet: \<open>Some (Inl err)\<close> when it is dropped, \<open>None\<close> when removing the padding panics,
  which takes a packet sealed under an installed key whose padding is wrong.
\<close>

definition opened :: "('t, 'ip) netenv \<Rightarrow> bytes \<Rightarrow> 't netstate \<Rightarrow> bytes result option" where
  "opened ne buf st =
     (case (EncryptionEnabled st, keyring st) of
        (True, Some k) \<Rightarrow>
          map_option (\<lambda>r. case r of Inl err \<Rightarrow> if c_GossipVerifyIncoming ne then Inl err else Inr buf | Inr plain \<Rightarrow> Inr plain)
            (decryptPayload (x_aead ne) (GetKeys k) buf [])
      | _ \<Rightarrow> Some (Inr buf))"

lemma ingestPacket_opened:
  "ingestPacket ne fuel buf src ts st =
     (if \<not> ensureCanConnect (x_resolver (ne_env ne)) (c_CIDRsAllowed (ne_env ne)) src then Some st
      else (case opened ne buf st of
              None \<Rightarrow> None
            | Some (Inl err) \<Rightarrow> Some st
            | Some (Inr plain) \<Rightarrow> (case check_crc plain of None \<Rightarrow> Some st | Some body \<Rightarrow> handleCommand ne fuel body src ts st)))"
  by (auto simp: ingestPacket_def opened_def split: option.split sum.split)

lemma decryptPayload_loop_panics:
  "versionSize + nonceSize \<le> length msg \<Longrightarrow> decryptPayload_loop ae ks vsn msg data = None \<Longrightarrow>
    vsn = 0 \<and> (\<exists>key \<in> set ks. \<exists>plain. decryptMessage ae key msg data = Some (Inr plain) \<and> pkcs7decode plain = None)"
  by (induction ks) (auto simp: decryptMessage_def Let_def split: option.splits sum.splits if_splits)

lemma opened_panics:
  assumes "opened ne buf st = None"
  obtains k key plain where "keyring st = Some k" "key \<in> set (GetKeys k)" "decryptMessage (x_aead ne) key buf [] = Some (Inr plain)"
    "pkcs7decode plain = None"
proof -
  obtain k where k: "keyring st = Some k" "decryptPayload (x_aead ne) (GetKeys k) buf [] = None"
    using assms by (auto simp: opened_def split: bool.splits option.splits)
  then have "decryptPayload_loop (x_aead ne) (GetKeys k) (buf ! 0) buf [] = None" "encryptedLength (buf ! 0) 0 \<le> int (length buf)"
    by (auto simp: decryptPayload_def Let_def split: if_splits)
  moreover from this(2) have "versionSize + nonceSize \<le> length buf"
    by (auto simp: encryptedLength_def Let_def split: if_splits)
  ultimately show ?thesis
    using that k(1) decryptPayload_loop_panics by blast
qed

lemma ingestPacket_returns:
  assumes "env_ok (ne_env ne)" "net_ok ne st" "opened ne buf st \<noteq> None"
    and "\<And>plain body. opened ne buf st = Some (Inr plain) \<Longrightarrow> check_crc plain = Some body \<Longrightarrow> nests_below (x_codec (ne_env ne)) fuel body"
  shows "\<exists>st'. ingestPacket ne fuel buf src ts st = Some st' \<and> net_ok ne st'"
proof -
  have "\<exists>st'. handleCommand ne fuel body src ts st = Some st' \<and> net_ok ne st'"
    if "opened ne buf st = Some (Inr plain)" "check_crc plain = Some body" for plain body
    using handleCommand_returns(1) [OF assms(1,2) assms(4) [OF that]] handleCommand_ok(1) [OF assms(1,2)] by blast
  then show ?thesis
    using assms(2,3) by (auto simp: ingestPacket_opened split: option.splits sum.splits)
qed

lemma ingestPacket_ok:
  assumes "env_ok (ne_env ne)" and "net_ok ne st" and "ingestPacket ne fuel buf src ts st = Some st'"
  shows "net_ok ne st'"
  using assms(2,3) handleCommand_ok(1) [OF assms(1,2)]
  by (auto simp: ingestPacket_def split: if_splits option.splits sum.splits)

lemma handle_handoff_ok:
  assumes e: "env_ok (ne_env ne)" and ok: "net_ok ne st" and h: "handle_handoff ne now rnd h st = Some st'"
  shows "net_ok ne st'"
proof -
  have "member_ok (ne_env ne) (core st')"
    using h e net_ok_core [OF ok]
    by (auto simp: handle_handoff_def handleSuspect_def handleDead_def handleWeight_def handleUser_def handleAlive_def Let_def
        split: if_splits sum.splits wire_msg.splits intro: inv_intros)
  then show ?thesis using ok handle_handoff_queues [OF h] by (simp add: net_ok_def)
qed

lemma getNextMessage_ok: "net_ok ne st \<Longrightarrow> getNextMessage st = Some (h, st') \<Longrightarrow> net_ok ne st'"
  by (auto simp: net_ok_def getNextMessage_def split: if_splits)

lemma packetHandler_ok:
  assumes "env_ok (ne_env ne)"
  shows "net_ok ne st \<Longrightarrow> packetHandler ne now rnd st = Some st' \<Longrightarrow>
    net_ok ne st' \<and> highPriorityMsgQueue st' = [] \<and> lowPriorityMsgQueue st' = []"
  using assms
proof (induction ne now rnd st rule: packetHandler.induct)
  case (1 ne now rnd st)
  show ?case
  proof (cases "getNextMessage st")
    case None
    then have "highPriorityMsgQueue st = []" "lowPriorityMsgQueue st = []" by (simp_all add: getNextMessage_def split: if_splits)
    then show ?thesis using 1(2,3) None by auto
  next
    case (Some x)
    obtain h st1 where x: "x = (h, st1)" by (cases x)
    then have ok1: "net_ok ne st1" using getNextMessage_ok [OF 1(2)] Some by simp
    show ?thesis using 1(3) Some x 1(1) [OF Some x [symmetric]] handle_handoff_ok [OF 1(4) ok1] 1(4)
      by (auto split: option.splits)
  qed
qed

section \<open>Sizes and order\<close>

lemma length_compress_packet: "length (compress_packet ne msg) \<le> length msg"
  by (simp add: compress_packet_def split: sum.split)

lemma length_add_crc: "int (length (add_crc nd msg)) \<le> int (length msg) + (if nd = None then 0 else 5)"
  by (simp add: add_crc_def split: option.split)

definition keys_sound :: "('t, 'ip) netenv \<Rightarrow> 't netstate \<Rightarrow> bool" where
  "keys_sound ne st \<longleftrightarrow> aead_laws (x_aead ne) \<and> (\<forall>k. keyring st = Some k \<longrightarrow> keyring_ok k) \<and>
     (\<forall>i nonce. x_nonce ne i = Inr nonce \<longrightarrow> length nonce = nonceSize)"

lemma encrypted_size:
  assumes "keys_sound ne st" and "keyring st = Some k" and "GetPrimaryKey k = Some p"
    and "encryptPayload (x_aead ne) (x_nonce ne i) (encryptionVersion ne) p m [] [] = Inr pkt"
  shows "\<exists>ov. encryptOverhead (encryptionVersion ne) = Some ov \<and> int (length pkt) \<le> int (length m) + ov"
proof -
  obtain nonce where n: "x_nonce ne i = Inr nonce"
    using assms(4) by (cases "x_nonce ne i") (auto simp: encryptPayload_def Let_def split: if_splits)
  have k: "aead_laws (x_aead ne)" "keyring_ok k" "length nonce = nonceSize" using assms(1,2) n by (auto simp: keys_sound_def)
  have p: "valid_key p" using ring.primary_in [OF k(2) assms(3)] ring.keys_valid [OF k(2)] by blast
  have "int (length pkt) = encryptedLength (encryptionVersion ne) (int (length m))"
    using assms(4) length_encrypted [OF k(1) p k(3), of "encryptionVersion ne" m "[]"] encryptPayload_eq [OF p k(3)]
    by (simp add: n)
  then show ?thesis by (simp add: encryptedLength_def encryptOverhead_def encryptionVersion_def)
qed

text \<open>The user delegate's documented promise: what it returns fits the limit it was given.\<close>

definition delegate_fits :: "('t, 'ip) netenv \<Rightarrow> bool" where
  "delegate_fits ne \<longleftrightarrow> (\<forall>i overhead limit. x_GetBroadcasts ne i overhead limit = [] \<or>
     sum_list (map (\<lambda>m. int (length m) + overhead) (x_GetBroadcasts ne i overhead limit)) \<le> limit)"

lemma getBroadcasts_fits:
  assumes e: "env_ok (ne_env ne)" and ok: "member_ok (ne_env ne) (core st)" and d: "delegate_fits ne"
    and g: "getBroadcasts ne overhead limit st = Some (extra, st1)" and ov: "0 \<le> overhead"
  shows "extra = [] \<or> sum_list (map (\<lambda>m. int (length m) + overhead) extra) \<le> limit"
proof -
  let ?e = "ne_env ne" and ?m = "core st" and ?c = "\<lambda>ms. sum_list (map (\<lambda>m. int (length m) + overhead) ms)"
  let ?G = "GetBroadcasts (x_btree ?e) (x_log10 ?e) (Some (c_RetransmitMult ?e)) (estNumNodes ?m) (broadcasts ?m) overhead limit"
  have q: "btree_laws (x_btree ?e) \<and> queue_ok (x_btree ?e) (broadcasts ?m)"
    using e member_okD(3) [OF ok] by (simp add: env_ok_def)
  from tlq.fetch_total [OF q ov] obtain ms q' where f: "?G = Some (ms, q')" by fastforce
  have ms: "ms = [] \<or> ?c ms \<le> limit" by (rule tlq.fetch_bound [OF q ov f])
  let ?u = "x_GetBroadcasts ne (calls st) (overhead + userMsgOverhead) (limit - ?c ms)"
  have u: "?u = [] \<or> sum_list (map (\<lambda>m. int (length m) + (overhead + userMsgOverhead)) ?u) \<le> limit - ?c ms"
    using d unfolding delegate_fits_def by blast
  have "?c (map ((#) userMsg) us) = sum_list (map (\<lambda>m. int (length m) + (overhead + userMsgOverhead)) us)" for us
    by (induction us) simp_all
  with u ms have "extra = [] \<or> ?c extra \<le> limit" if "extra = ms @ map ((#) userMsg) ?u" using that by auto
  moreover have "extra = ms \<or> extra = ms @ map ((#) userMsg) ?u"
    using g f by (auto simp: getBroadcasts_def Let_def split: if_splits)
  ultimately show ?thesis using ms by blast
qed

fun handle_all :: "('t, 'ip) netenv \<Rightarrow> time \<Rightarrow> (nat \<Rightarrow> u32) \<Rightarrow> msgHandoff list \<Rightarrow> 't netstate \<Rightarrow> 't netstate option" where
  "handle_all ne now rnd [] st = Some st"
| "handle_all ne now rnd (h # hs) st =
     (case handle_handoff ne now (rnd (Suc (length hs))) h st of
        None \<Rightarrow> None
      | Some st1 \<Rightarrow> handle_all ne now rnd hs st1)"

abbreviation set_queues :: "msgHandoff list \<Rightarrow> msgHandoff list \<Rightarrow> 't netstate \<Rightarrow> 't netstate" where
  "set_queues hi lo st \<equiv> st\<lparr>highPriorityMsgQueue := hi, lowPriorityMsgQueue := lo\<rparr>"

lemma handle_handoff_set_queues:
  "handle_handoff ne now r h (set_queues hi lo st) = map_option (set_queues hi lo) (handle_handoff ne now r h st)"
  unfolding handle_handoff_def handleSuspect_def handleAlive_def handleDead_def handleWeight_def handleUser_def Let_def
  by (auto split: sum.split wire_msg.split option.split simp: option.map_comp comp_def intro!: option.map_cong)

lemma handle_all_set_queues:
  "handle_all ne now rnd hs (set_queues hi lo st) = map_option (set_queues hi lo) (handle_all ne now rnd hs st)"
  by (induction hs arbitrary: st) (auto simp: handle_handoff_set_queues split: option.split)

section \<open>A node for evaluation\<close>

definition demo_net :: "wire_msg list \<Rightarrow> int \<Rightarrow> (limitedBroadcast list, nat) netenv" where
  "demo_net ms udp = \<lparr>ne_env = demo_env ms, c_UDPBufferSize = udp, c_GossipVerifyIncoming = True, c_GossipVerifyOutgoing = True,
     c_EnableCompression = True, c_RequireNodeNames = False, c_HandoffQueueDepth = 1024, c_AckPayload = None, c_Delegate = False,
     x_aead = tag_cipher, x_nonce = (\<lambda>i. Inr (replicate 12 (of_nat i))), x_GetBroadcasts = (\<lambda>_ _ _. []),
     x_WriteToAddress = (\<lambda>_ _ _. Inr ())\<rparr>"

definition demo_node :: "limitedBroadcast list memberlist \<Rightarrow> Keyring option \<Rightarrow> limitedBroadcast list netstate" where
  "demo_node m ring = \<lparr>core = m, keyring = ring, advertiseAddr = ''10.0.0.1'', advertisePort = 7946,
     highPriorityMsgQueue = [], lowPriorityMsgQueue = [], handoffCh = False, ackHandlers = Map.empty, nackTimers = [],
     ackEvents = [], nackEvents = [], wire = [], userMsgs = [], calls = 0\<rparr>"

definition demo_ring :: Keyring where
  "demo_ring = \<lparr>keys = [replicate 16 7]\<rparr>"

definition demo_addr :: Address where
  "demo_addr = \<lparr>addr_Addr = ''10.0.0.2:7946'', addr_Name = ''n1''\<rparr>"

definition demo_core :: "limitedBroadcast list memberlist" where
  "demo_core = (new_memberlist 8)\<lparr>broadcasts := one_entry ''a'' (msg10 1)\<rparr>"

lemma demo_core_ok: "member_ok (demo_env ms) demo_core"
  unfolding demo_core_def
  by (rule member_ok_fetch [OF member_ok_new [OF demo_env_ok]]) (simp_all add: one_entry_ok)

lemma demo_net_simps [simp]:
  "ne_env (demo_net ms udp) = demo_env ms" "c_UDPBufferSize (demo_net ms udp) = udp" "\<not> c_Delegate (demo_net ms udp)"
  "c_GossipVerifyOutgoing (demo_net ms udp)" "x_aead (demo_net ms udp) = tag_cipher" "c_HandoffQueueDepth (demo_net ms udp) = 1024"
  "x_nonce (demo_net ms udp) i = Inr (replicate 12 (of_nat i))" "\<not> c_RequireNodeNames (demo_net ms udp)"
  "encryptionVersion (demo_net ms udp) = 1" "compress_packet (demo_net [] udp) = (\<lambda>msg. msg)"
  by (simp_all add: demo_net_def encryptionVersion_def demo_env_def compress_packet_def compressPayload_def encode_def table_codec_def
      fun_eq_iff)

lemma demo_node_simps [simp]:
  "core (demo_node m ring) = m" "keyring (demo_node m ring) = ring" "wire (demo_node m ring) = []" "calls (demo_node m ring) = 0"
  "highPriorityMsgQueue (demo_node m ring) = []" "lowPriorityMsgQueue (demo_node m ring) = []"
  by (simp_all add: demo_node_def)

lemma demo_fetch:
  "\<exists>q. getBroadcasts (demo_net ms udp) 2 12 (demo_node demo_core ring) =
     Some ([msg10 1], (demo_node demo_core ring)\<lparr>core := demo_core\<lparr>broadcasts := q\<rparr>\<rparr>)"
proof -
  have "\<exists>q. GetBroadcasts list_btree (log 10) (Some 4) 0 (one_entry ''a'' (msg10 1)) 2 12 = Some ([msg10 1], q)"
    by (simp add: one_entry_eval queue_eval retransmitLimit_def eval_nat_numeral)
  then show ?thesis
    by (auto simp: getBroadcasts_def Let_def demo_core_def new_memberlist_def estNumNodes_def demo_env_def)
qed

lemma demo_send:
  assumes "packet_room (demo_net [] udp) msg (demo_node demo_core ring) = Some 12"
  shows "\<exists>q. getBroadcasts (demo_net [] udp) 2 12 (demo_node demo_core ring) =
       Some ([msg10 1], (demo_node demo_core ring)\<lparr>core := demo_core\<lparr>broadcasts := q\<rparr>\<rparr>) \<and>
     sendMsg (demo_net [] udp) demo_addr msg (demo_node demo_core ring) =
       Some (rawSendMsgPacket (demo_net [] udp) demo_addr None (makeCompoundMessage [msg, msg10 1])
               ((demo_node demo_core ring)\<lparr>core := demo_core\<lparr>broadcasts := q\<rparr>\<rparr>))"
proof -
  obtain q where g: "getBroadcasts (demo_net [] udp) 2 12 (demo_node demo_core ring) =
       Some ([msg10 1], (demo_node demo_core ring)\<lparr>core := demo_core\<lparr>broadcasts := q\<rparr>\<rparr>)"
    using demo_fetch by blast
  then show ?thesis using assms by (intro exI [of _ q]) (simp add: sendMsg_def)
qed

lemma demo_addr_split: "SplitHostPort (addr_Addr demo_addr) = Inr (''10.0.0.2'', ''7946'')"
  by code_simp

section \<open>Properties\<close>

text \<open>
  C7. Delivery: the packet \<open>sendMsg\<close> hands to the transport (compressed, checksummed,
  encrypted, with other messages piggybacked or not) has at a receiver with the same codec and
  agreeing keys exactly the effect of handling the message and then the piggybacked ones in
  order.
\<close>

theorem packet_delivered:
  assumes "codec_laws (x_codec (ne_env ne))" "aead_laws (x_aead ne)"
    and "x_codec (ne_env ne') = x_codec (ne_env ne)" "x_aead ne' = x_aead ne"
    and room: "packet_room ne msg st = Some avail" and extra: "getBroadcasts ne compoundOverhead avail st = Some (extra, st1)"
    and sent: "sendMsg ne a msg st = Some (res, st2)" and pkt: "wire st2 = wire st1 @ [(a, pkt)]"
    and agree: "keys_agree ne st1 ne' st' pkt" and msg: "msg \<noteq> []" "hd msg \<noteq> hasCrcMsg"
    and small: "length extra < 255" "\<forall>m \<in> set (msg # extra). length m < 2 ^ 16"
    and allowed: "ensureCanConnect (x_resolver (ne_env ne')) (c_CIDRsAllowed (ne_env ne')) src"
    and h: "handleParts ne' fuel (msg # extra) src ts st' = Some r"
  shows "ingestPacket ne' (fuel + 2) pkt src ts st' = Some r"
proof -
  let ?m = "if extra = [] then msg else makeCompoundMessage (msg # extra)"
  have raw: "rawSendMsgPacket ne a None ?m st1 = (res, st2)"
    using sent room extra by (auto simp: sendMsg_def split: if_splits)
  have "handleCommand ne' (Suc fuel) ?m src ts st' = Some r"
  proof (cases "extra = []")
    case True
    then have "handleCommand ne' fuel msg src ts st' = Some r" using h by (simp split: option.splits)
    then show ?thesis using True handleCommand_more_fuel(1) by auto
  next
    case False
    then show ?thesis using handle_compound [of "msg # extra" ne' fuel src ts st'] small h by simp
  qed
  moreover have "?m \<noteq> []" "hd ?m \<noteq> hasCrcMsg" using msg by (simp_all add: makeCompoundMessage_def)
  ultimately show ?thesis
    using ingest_what_was_sent [OF assms(1-4) raw pkt agree _ _ allowed] by simp
qed

theorem packet_delivered_witness:
  "\<exists>pkt res st2. sendMsg (demo_net [] 45) demo_addr [userMsg, 5] (demo_node demo_core (Some demo_ring)) = Some (res, st2) \<and>
     wire st2 = [(demo_addr, pkt)] \<and>
     ingestPacket (demo_net [] 45) (Suc (Suc (Suc 0))) pkt ''10.0.0.1:7946'' 0 (demo_node demo_core (Some demo_ring)) =
       Some (enqueue_handoff (demo_net [] 45) userMsg [5] ''10.0.0.1:7946'' (demo_node demo_core (Some demo_ring)))"
proof -
  let ?ne = "demo_net [] 45" and ?st = "demo_node demo_core (Some demo_ring)" and ?msg = "[userMsg, 5]"
  let ?key = "replicate 16 7 :: bytes" and ?nonce = "replicate 12 0 :: bytes"
  have on: "EncryptionEnabled ?st" by (simp add: EncryptionEnabled_def demo_ring_def GetKeys_def)
  then have room: "packet_room ?ne ?msg ?st = Some 12" by (simp add: packet_room_def encryptOverhead_def)
  have nm: "nodeMap (demo_core\<lparr>broadcasts := q\<rparr>) = Map.empty" for q
    by (simp add: demo_core_def new_memberlist_def)
  have ring: "keyring_ok demo_ring" "GetPrimaryKey demo_ring = Some ?key" "GetKeys demo_ring = [?key]"
    by (simp_all add: demo_ring_def keyring_ok_def valid_key_def GetPrimaryKey_def GetKeys_def)
  have "valid_key ?key" by (simp add: valid_key_def)
  then have enc: "\<exists>pkt. encryptPayload tag_cipher (Inr ?nonce) 1 ?key m [] [] = Inr pkt" for m
    by (simp add: encryptPayload_eq)
  obtain q res st2 pkt where
    f: "getBroadcasts ?ne 2 12 ?st = Some ([msg10 1], ?st\<lparr>core := demo_core\<lparr>broadcasts := q\<rparr>\<rparr>)" (is "_ = Some (_, ?st1)")
    and s: "sendMsg ?ne demo_addr ?msg ?st = Some (res, st2)" "wire st2 = wire ?st @ [(demo_addr, pkt)]"
    using demo_send [OF room] on enc [of "makeCompoundMessage [?msg, msg10 1]"]
    by (auto simp: rawSendMsgPacket_def Let_def demo_addr_split nm EncryptionEnabled_def add_crc_def ring)
  have w: "wire st2 = wire ?st1 @ [(demo_addr, pkt)]" using s(2) by simp
  have agree: "keys_agree ?ne ?st1 ?ne ?st pkt"
    using on ring by (auto simp: keys_agree_def EncryptionEnabled_def)
  have m: "msg10 1 = [1, 1, 1, 1, 1, 1, 1, 1, 1, 1]" by (simp add: msg10_def numeral_eq_Suc)
  have h: "handleParts ?ne (Suc 0) (?msg # [msg10 1]) src 0 ?st = Some (enqueue_handoff ?ne userMsg [5] src ?st)" for src
    unfolding m by (simp add: handleIndirectPing_def decode_def table_codec_def)
  have src: "ensureCanConnect (x_resolver (ne_env ?ne)) (c_CIDRsAllowed (ne_env ?ne)) ''10.0.0.1:7946''"
    by (simp add: ensureCanConnect_def IPMustBeChecked_def)
  have "ingestPacket ?ne (Suc 0 + 2) pkt ''10.0.0.1:7946'' 0 ?st = Some (enqueue_handoff ?ne userMsg [5] ''10.0.0.1:7946'' ?st)"
    by (rule packet_delivered [OF _ _ refl refl room f s(1) w agree _ _ _ _ src h]) (simp_all add: table_codec_laws tag_cipher_laws)
  then show ?thesis using s by auto
qed

text \<open>
  C31. Packet size: a message small enough for a packet of its own is sent in a packet of at most
  \<open>UDPBufferSize\<close> plus two bytes (and five more of checksum when the destination's bare host is
  the name of a node known to speak it), whatever is piggybacked and whether it is encrypted.
  The two bytes are the length entry of the message itself, which \<open>sendMsg\<close> does not count.
\<close>

theorem packet_size_bound:
  assumes e: "env_ok (ne_env ne)" and ok: "member_ok (ne_env ne) (core st)" and d: "delegate_fits ne" and k: "keys_sound ne st"
    and room: "packet_room ne msg st = Some avail" "0 \<le> avail"
    and sent: "sendMsg ne a msg st = Some (res, st2)" and pkt: "wire st2 = wire st @ [(a, pkt)]"
  shows "int (length pkt) \<le> c_UDPBufferSize ne + 2 +
     (if \<exists>h p. SplitHostPort (addr_Addr a) = Inr (h, p) \<and> nodeMap (core st) h \<noteq> None then 5 else 0)"
proof -
  obtain extra q n where g: "getBroadcasts ne compoundOverhead avail st = Some (extra, st\<lparr>core := core st\<lparr>broadcasts := q\<rparr>, calls := n\<rparr>)"
    using getBroadcasts_result [OF e ok] by (metis zero_le_numeral)
  let ?st1 = "st\<lparr>core := core st\<lparr>broadcasts := q\<rparr>, calls := n\<rparr>"
  let ?m = "if extra = [] then msg else makeCompoundMessage (msg # extra)"
  let ?known = "\<exists>h p. SplitHostPort (addr_Addr a) = Inr (h, p) \<and> nodeMap (core st) h \<noteq> None"
  have raw: "rawSendMsgPacket ne a None ?m ?st1 = (res, st2)"
    using sent room(1) g by (auto simp: sendMsg_def split: if_splits)
  have m: "int (length ?m) \<le> int (length msg) + 4 + avail"
    using room(2) getBroadcasts_fits [OF e ok d g] length_makeCompoundMessage [of "msg # extra"] by auto
  have "wire st2 = wire ?st1 @ [(a, pkt)]" using pkt by simp
  from rawSend_wire_None [OF raw this] obtain nd where
    nd0: "nd \<noteq> None \<Longrightarrow> \<exists>h p. SplitHostPort (addr_Addr a) = Inr (h, p) \<and> nodeMap (core ?st1) h \<noteq> None"
    and w0: "if EncryptionEnabled ?st1 \<and> c_GossipVerifyOutgoing ne
      then \<exists>k p. keyring ?st1 = Some k \<and> GetPrimaryKey k = Some p \<and>
        encryptPayload (x_aead ne) (x_nonce ne (calls ?st1)) (encryptionVersion ne) p (add_crc nd (compress_packet ne ?m)) [] [] = Inr pkt
      else pkt = add_crc nd (compress_packet ne ?m)"
    by blast
  have nd: "nd \<noteq> None \<Longrightarrow> ?known" using nd0 by simp
  have "EncryptionEnabled ?st1 = EncryptionEnabled st" "keyring ?st1 = keyring st" by (simp_all add: EncryptionEnabled_def)
  note w = w0 [unfolded this]
  have c: "int (length (add_crc nd (compress_packet ne ?m))) \<le> int (length ?m) + (if ?known then 5 else 0)"
    using length_add_crc [of nd "compress_packet ne ?m"] length_compress_packet [of ne ?m] nd by (auto split: if_splits)
  show ?thesis
  proof (cases "EncryptionEnabled st \<and> c_GossipVerifyOutgoing ne")
    case True
    then obtain k p where "keyring st = Some k" "GetPrimaryKey k = Some p"
      "encryptPayload (x_aead ne) (x_nonce ne n) (encryptionVersion ne) p (add_crc nd (compress_packet ne ?m)) [] [] = Inr pkt"
      using w by auto
    from encrypted_size [OF k this] obtain ov where "encryptOverhead (encryptionVersion ne) = Some ov"
      "int (length pkt) \<le> int (length (add_crc nd (compress_packet ne ?m))) + ov"
      by blast
    then show ?thesis using m c room(1) True by (simp add: packet_room_def Let_def)
  next
    case False
    then have "avail = c_UDPBufferSize ne - int (length msg) - 2" using room(1) by (auto simp: packet_room_def Let_def)
    moreover have "int (length pkt) = int (length (add_crc nd (compress_packet ne ?m)))" using w False by simp
    ultimately show ?thesis using m c by linarith
  qed
qed

theorem packet_size_bound_witness:
  "\<exists>res st2 pkt. sendMsg (demo_net [] 15) demo_addr [userMsg] (demo_node demo_core None) = Some (res, st2) \<and>
     wire st2 = [(demo_addr, pkt)] \<and> int (length pkt) \<le> 15 + 2 \<and> int (length pkt) = 17"
proof -
  let ?ne = "demo_net [] 15" and ?st = "demo_node demo_core None"
  have off: "\<not> EncryptionEnabled ?st" by (simp add: EncryptionEnabled_def)
  then have room: "packet_room ?ne [userMsg] ?st = Some 12" by (simp add: packet_room_def)
  have nm: "nodeMap (demo_core\<lparr>broadcasts := q\<rparr>) = Map.empty" "nodeMap demo_core = Map.empty" for q
    by (simp_all add: demo_core_def new_memberlist_def)
  obtain res st2 where s: "sendMsg ?ne demo_addr [userMsg] ?st = Some (res, st2)"
      "wire st2 = wire ?st @ [(demo_addr, makeCompoundMessage [[userMsg], msg10 1])]"
    using demo_send [OF room] off
    by (auto simp: rawSendMsgPacket_def Let_def demo_addr_split nm EncryptionEnabled_def add_crc_def)
  have "delegate_fits ?ne" "keys_sound ?ne ?st"
    by (simp_all add: delegate_fits_def demo_net_def keys_sound_def tag_cipher_laws)
  from packet_size_bound [OF _ _ this room _ s] have "int (length (makeCompoundMessage [[userMsg], msg10 1])) \<le> 15 + 2"
    using demo_env_ok demo_core_ok by (simp add: nm)
  then show ?thesis using s length_makeCompoundMessage [of "[[userMsg], msg10 1]"] by auto
qed

text \<open>
  C32. One activation of the packet handler handles the queued messages about nodes with the
  alive messages first, each queue from its end, the most recent message first, and leaves both
  queues empty.
\<close>

theorem packetHandler_alive_first:
  "packetHandler ne now rnd st =
     map_option (\<lambda>s. (set_queues [] [] s)\<lparr>handoffCh := False\<rparr>)
       (handle_all ne now rnd (rev (highPriorityMsgQueue st) @ rev (lowPriorityMsgQueue st)) st)"
proof (induction ne now rnd st rule: packetHandler.induct)
  case (1 ne now rnd st)
  let ?hi = "highPriorityMsgQueue st" and ?lo = "lowPriorityMsgQueue st"
  show ?case
  proof (cases "?hi = [] \<and> ?lo = []")
    case True
    then have "set_queues [] [] st = st" by simp
    then show ?thesis using True by (simp add: getNextMessage_def)
  next
    case False
    obtain h hi lo where n: "getNextMessage st = Some (h, set_queues hi lo st)"
      and l: "rev ?hi @ rev ?lo = h # rev hi @ rev lo"
    proof (cases "?hi = []")
      case True
      then have "?lo = butlast ?lo @ [last ?lo]" using False by simp
      then have "rev ?lo = last ?lo # rev (butlast ?lo)" by (metis rev.simps(2) rev_rev_ident rev_swap)
      moreover have "st\<lparr>lowPriorityMsgQueue := butlast ?lo\<rparr> = set_queues [] (butlast ?lo) st" using True by simp
      ultimately show ?thesis using that [where h = "last ?lo" and hi = "[]" and lo = "butlast ?lo"] True False by (simp add: getNextMessage_def)
    next
      case hi: False
      then have "?hi = butlast ?hi @ [last ?hi]" by simp
      then have "rev ?hi = last ?hi # rev (butlast ?hi)" by (metis rev.simps(2) rev_rev_ident rev_swap)
      moreover have "st\<lparr>highPriorityMsgQueue := butlast ?hi\<rparr> = set_queues (butlast ?hi) ?lo st" by simp
      ultimately show ?thesis using that [where h = "last ?hi" and hi = "butlast ?hi" and lo = ?lo] hi by (simp add: getNextMessage_def)
    qed
    have len: "length ?hi + length ?lo = Suc (length (rev hi @ rev lo))"
      using arg_cong [OF l, of length] by simp
    let ?r = "rnd (length ?hi + length ?lo)"
    show ?thesis
    proof (cases "handle_handoff ne now ?r h st")
      case None
      then show ?thesis using n l len by (simp add: handle_handoff_set_queues)
    next
      case (Some s)
      then have q: "handle_handoff ne now ?r h (set_queues hi lo st) = Some (set_queues hi lo s)"
        by (simp add: handle_handoff_set_queues)
      have "packetHandler ne now rnd st = packetHandler ne now rnd (set_queues hi lo s)" using n q by simp
      also have "\<dots> = map_option (\<lambda>s. (set_queues [] [] s)\<lparr>handoffCh := False\<rparr>) (handle_all ne now rnd (rev hi @ rev lo) (set_queues hi lo s))"
        using 1 [OF n refl q] by simp
      also have "\<dots> = map_option (\<lambda>s. (set_queues [] [] s)\<lparr>handoffCh := False\<rparr>) (handle_all ne now rnd (h # rev hi @ rev lo) st)"
        using Some len by (simp add: handle_all_set_queues option.map_comp comp_def)
      finally show ?thesis by (simp only: l)
    qed
  qed
qed

text \<open>The packet handler panics only on an alive message with a version vector that is too short.\<close>

lemma aliveNode_panics: "aliveNode env now rnd a ch bootstrap m = None \<Longrightarrow> a_Vsn a \<noteq> [] \<and> length (a_Vsn a) < 6"
  by (auto simp: aliveNode_def alive_apply_def Let_def split: if_splits sum.splits)

definition short_alive :: "('t, 'ip) netenv \<Rightarrow> msgHandoff \<Rightarrow> bool" where
  "short_alive ne h \<longleftrightarrow> h_msgType h = aliveMsg \<and>
     (\<exists>live. decode (x_codec (ne_env ne)) 6 (h_buf h) = Inr (Alive live) \<and> a_Vsn live \<noteq> [] \<and> length (a_Vsn live) < 6)"

lemma handle_handoff_panics: "handle_handoff ne now rnd h st = None \<Longrightarrow> short_alive ne h"
  by (auto simp: handle_handoff_def handleAlive_def short_alive_def Let_def dest!: aliveNode_panics
      split: if_splits sum.splits wire_msg.splits)

lemma packetHandler_panics:
  "packetHandler ne now rnd st = None \<Longrightarrow> \<exists>h \<in> set (highPriorityMsgQueue st) \<union> set (lowPriorityMsgQueue st). short_alive ne h"
proof (induction ne now rnd st rule: packetHandler.induct)
  case (1 ne now rnd st)
  then obtain h st1 where n: "getNextMessage st = Some (h, st1)"
    by (auto split: option.splits)
  have sub: "h \<in> set (highPriorityMsgQueue st) \<union> set (lowPriorityMsgQueue st)"
    "set (highPriorityMsgQueue st1) \<subseteq> set (highPriorityMsgQueue st)" "set (lowPriorityMsgQueue st1) \<subseteq> set (lowPriorityMsgQueue st)"
    using n by (auto simp: getNextMessage_def dest: in_set_butlastD split: if_splits)
  let ?go = "handle_handoff ne now (rnd (length (highPriorityMsgQueue st) + length (lowPriorityMsgQueue st))) h st1"
  show ?case
  proof (cases ?go)
    case None
    then show ?thesis
      using handle_handoff_panics sub(1) by blast
  next
    case (Some st2)
    then have "packetHandler ne now rnd st2 = None"
      using "1.prems" n by (subst (asm) packetHandler.simps) (simp del: packetHandler.simps)
    then show ?thesis
      using "1.IH" [OF n refl Some] handle_handoff_queues [OF Some] sub(2,3) by auto
  qed
qed

text \<open>
  C8. Whatever packet arrives, the node stays consistent. Unless removing the padding of a packet that
  an installed key opens panics (\<open>opened_panics\<close>), and with fuel above the depth to which its compound and compressed
  messages nest, ingesting a packet returns and keeps the membership table, the suspicion timers
  and the broadcast queue well-formed and both handoff queues within their depth. The packet handler that
  runs then keeps them too and leaves no message behind, or else panics, in which case an alive message
  with a version vector of one to five entries was queued.
\<close>

theorem packets_keep_node_consistent:
  assumes "env_ok (ne_env ne)" and "net_ok ne st" and "opened ne buf st \<noteq> None"
    and "\<And>plain body. opened ne buf st = Some (Inr plain) \<Longrightarrow> check_crc plain = Some body \<Longrightarrow> nests_below (x_codec (ne_env ne)) fuel body"
  shows "\<exists>st1. ingestPacket ne fuel buf src ts st = Some st1 \<and> net_ok ne st1 \<and>
    (case packetHandler ne now rnd st1 of
       Some st2 \<Rightarrow> net_ok ne st2 \<and> highPriorityMsgQueue st2 = [] \<and> lowPriorityMsgQueue st2 = []
     | None \<Rightarrow> \<exists>h \<in> set (highPriorityMsgQueue st1) \<union> set (lowPriorityMsgQueue st1). short_alive ne h)"
proof -
  obtain st1 where st1: "ingestPacket ne fuel buf src ts st = Some st1" "net_ok ne st1"
    using ingestPacket_returns [OF assms(1-3), of fuel src ts] assms(4) by blast
  then show ?thesis
    using packetHandler_ok [OF assms(1) st1(2), of now rnd] packetHandler_panics [of ne now rnd st1]
    by (intro exI [of _ st1]) (auto simp del: packetHandler.simps split: option.split)
qed

theorem packets_keep_node_consistent_witness:
  "\<exists>st1 st2. ingestPacket (demo_net [] 45) (Suc 0) [userMsg, 5] ''10.0.0.1:7946'' 0 (demo_node demo_core None) = Some st1 \<and>
     packetHandler (demo_net [] 45) 0 (\<lambda>_. 0) st1 = Some st2 \<and> net_ok (demo_net [] 45) st2 \<and> lowPriorityMsgQueue st2 = []"
proof -
  let ?ne = "demo_net [] 45" and ?st = "demo_node demo_core None" and ?src = "''10.0.0.1:7946''"
  let ?st1 = "enqueue_handoff ?ne userMsg [5] ?src ?st"
  have i: "ingestPacket ?ne (Suc 0) [userMsg, 5] ?src 0 ?st = Some ?st1"
    by (simp add: ingestPacket_def ensureCanConnect_def IPMustBeChecked_def EncryptionEnabled_def check_crc_def)
  have o: "opened ?ne [userMsg, 5] ?st = Some (Inr [userMsg, 5])" by (simp add: opened_def EncryptionEnabled_def)
  have ok: "net_ok ?ne ?st" by (simp add: net_ok_def demo_core_ok)
  have "\<not> short_alive ?ne \<lparr>h_msgType = userMsg, h_buf = [5], h_from = ?src\<rparr>" by (simp add: short_alive_def)
  then have "\<not> (\<exists>h \<in> set (highPriorityMsgQueue ?st1) \<union> set (lowPriorityMsgQueue ?st1). short_alive ?ne h)"
    by (simp add: enqueue_handoff_def demo_node_def)
  moreover have "nests_below (x_codec (ne_env ?ne)) (Suc 0) body"
    if "opened ?ne [userMsg, 5] ?st = Some (Inr plain)" "check_crc plain = Some body" for plain body
    using that by (auto simp: o check_crc_def unpacks_to_def)
  then have "\<exists>st1. ingestPacket ?ne (Suc 0) [userMsg, 5] ?src 0 ?st = Some st1 \<and> net_ok ?ne st1 \<and>
    (case packetHandler ?ne 0 (\<lambda>_. 0) st1 of
       Some st2 \<Rightarrow> net_ok ?ne st2 \<and> highPriorityMsgQueue st2 = [] \<and> lowPriorityMsgQueue st2 = []
     | None \<Rightarrow> \<exists>h \<in> set (highPriorityMsgQueue st1) \<union> set (lowPriorityMsgQueue st1). short_alive ?ne h)"
    by (intro packets_keep_node_consistent) (use ok o demo_env_ok [of "[]"] in simp_all)
  then obtain st1 where st1: "ingestPacket ?ne (Suc 0) [userMsg, 5] ?src 0 ?st = Some st1"
    "case packetHandler ?ne 0 (\<lambda>_. 0) st1 of
       Some st2 \<Rightarrow> net_ok ?ne st2 \<and> highPriorityMsgQueue st2 = [] \<and> lowPriorityMsgQueue st2 = []
     | None \<Rightarrow> \<exists>h \<in> set (highPriorityMsgQueue st1) \<union> set (lowPriorityMsgQueue st1). short_alive ?ne h"
    by blast
  moreover have "st1 = ?st1" using st1(1) i by simp
  ultimately show ?thesis
    by (cases "packetHandler ?ne 0 (\<lambda>_. 0) st1") (auto simp del: packetHandler.simps)
qed

end
