(* ===== verification/Stream_Conn.thy ===== *)
theory Stream_Conn
  imports Packet_Correct
begin

text \<open>
  The stream side of \<open>memberlist/net.go\<close>: framing a message for a TCP stream (compression,
  encryption with an authenticated length header), reading it back, the push/pull exchange of
  the whole membership table, user messages and the ping fallback, and the handler of an
  incoming connection. A connection is what the peer sends (\<open>conn_in\<close>), the error a read
  gives when that is used up (end of file or the deadline), and what was written so far.
  Dialling, the number of bytes a write accepts and the answers of the delegates come from the
  environment.
\<close>

section \<open>Environment and state\<close>

record conn =
  conn_in :: bytes
  conn_err :: string
  conn_out :: bytes

record ('t, 'ip) strmenv =
  se_net :: "('t, 'ip) netenv"
  c_Merge :: "(Node list \<Rightarrow> string option) option"
  x_LocalState :: "nat \<Rightarrow> bool \<Rightarrow> bytes option"
  x_Dial :: "nat \<Rightarrow> Address \<Rightarrow> conn result"
  x_Write :: "nat \<Rightarrow> bytes \<Rightarrow> nat result"

text \<open>\<open>mergedStates\<close> records the calls of the delegate's \<open>MergeRemoteState\<close>.\<close>

record 't strmstate =
  net :: "'t netstate"
  pushPullReq :: u32
  mergedStates :: "(bytes \<times> bool) list"

abbreviation se_codec :: "('t, 'ip) strmenv \<Rightarrow> codec" where "se_codec se \<equiv> x_codec (ne_env (se_net se))"

text \<open>Sequencing of calls that may return an error or panic.\<close>

definition and_then :: "'a result option \<Rightarrow> ('a \<Rightarrow> 'b result option) \<Rightarrow> 'b result option" where
  "and_then r f = (case r of None \<Rightarrow> None | Some (Inl err) \<Rightarrow> Some (Inl err) | Some (Inr v) \<Rightarrow> f v)"

lemma and_then_simps [simp]:
  "and_then (Some (Inr v)) f = f v" "and_then (Some (Inl err)) f = Some (Inl err)" "and_then None f = None"
  by (simp_all add: and_then_def)

definition errNodeNamesAreRequired :: string where
  "errNodeNamesAreRequired = ''memberlist: node names are required by configuration but one was not provided''"

abbreviation (input) maxPushStateBytes :: nat where "maxPushStateBytes \<equiv> 20971520"
abbreviation (input) maxPushPullRequests :: u32 where "maxPushPullRequests \<equiv> 128"

section \<open>Framing\<close>

text \<open>A ring without a primary key gives \<open>nil\<close>, which is not a legal AES key.\<close>

definition encryptLocalState :: "('t, 'ip) netenv \<Rightarrow> nat \<Rightarrow> Keyring \<Rightarrow> bytes \<Rightarrow> bytes result" where
  "encryptLocalState ne i k sendBuf =
     (let encVsn = encryptionVersion ne;
          encLen = encryptedLength encVsn (int (length sendBuf));
          hdr = encryptMsg # put_be32 (of_int encLen);
          key = (case GetPrimaryKey k of None \<Rightarrow> [] | Some p \<Rightarrow> p)
      in encryptPayload (x_aead ne) (x_nonce ne i) encVsn key sendBuf hdr hdr)"

definition decryptRemoteState :: "('t, 'ip) netenv \<Rightarrow> Keyring \<Rightarrow> string \<Rightarrow> bytes \<Rightarrow> bytes result option" where
  "decryptRemoteState ne k eof inp =
     (if length inp < 4 then Some (Inl eof)
      else
        (let moreBytes = unat (get_be32 (take 4 inp)); rest = drop 4 inp in
         if moreBytes > maxPushStateBytes then Some (Inl ''Remote node state is larger than limit'')
         else if length rest < moreBytes then Some (Inl eof)
         else decryptPayload (x_aead ne) (GetKeys k) (take moreBytes rest) (encryptMsg # take 4 inp)))"

definition stream_frame :: "('t, 'ip) strmenv \<Rightarrow> bytes \<Rightarrow> 't netstate \<Rightarrow> bytes result" where
  "stream_frame se sendBuf st =
     (let ne = se_net se;
          buf = (if c_EnableCompression ne then
                   (case compressPayload (se_codec se) sendBuf of Inl err \<Rightarrow> sendBuf | Inr b \<Rightarrow> b)
                 else sendBuf)
      in if EncryptionEnabled st \<and> c_GossipVerifyOutgoing ne then
           (case keyring st of None \<Rightarrow> Inl ''no keyring'' | Some k \<Rightarrow> encryptLocalState ne (calls st) k buf)
         else Inr buf)"

definition rawSendMsgStream ::
    "('t, 'ip) strmenv \<Rightarrow> bytes \<Rightarrow> conn \<Rightarrow> 't netstate \<Rightarrow> unit result \<times> conn \<times> 't netstate" where
  "rawSendMsgStream se sendBuf c st =
     (let st1 = st\<lparr>calls := Suc (calls st)\<rparr> in
      case stream_frame se sendBuf st of
        Inl err \<Rightarrow> (Inl err, c, st1)
      | Inr buf \<Rightarrow>
          (case x_Write se (calls st) buf of
             Inl err \<Rightarrow> (Inl err, c, st1)
           | Inr n \<Rightarrow>
               (if n \<noteq> length buf then Inl ''only some bytes written'' else Inr (),
                c\<lparr>conn_out := conn_out c @ take n buf\<rparr>, st1)))"

text \<open>
  Reading the type of a message: the first byte of the decrypted and of the decompressed
  payload is indexed without a check, so an empty payload is a panic.
\<close>

definition readStream :: "('t, 'ip) strmenv \<Rightarrow> 't netstate \<Rightarrow> conn \<Rightarrow> (messageType \<times> bytes) result option" where
  "readStream se st c =
     (case conn_in c of
        [] \<Rightarrow> Some (Inl (conn_err c))
      | t # body \<Rightarrow>
          and_then
            (if t = encryptMsg then
               if \<not> EncryptionEnabled st then Some (Inl ''Remote state is encrypted and encryption is not configured'')
               else
                 (case keyring st of
                    None \<Rightarrow> None
                  | Some k \<Rightarrow>
                      and_then (decryptRemoteState (se_net se) k (conn_err c) body)
                        (\<lambda>plain. case plain of [] \<Rightarrow> None | t' # rest \<Rightarrow> Some (Inr (t', rest))))
             else if EncryptionEnabled st \<and> c_GossipVerifyIncoming (se_net se)
               then Some (Inl ''Encryption is configured but remote state is not encrypted'')
             else Some (Inr (t, body)))
            (\<lambda>(msgType, rest).
               if msgType = compressMsg then
                 (case decode (se_codec se) 12 rest of
                    Inl err \<Rightarrow> Some (Inl err)
                  | Inr (Compress z) \<Rightarrow>
                      (case decompressBuffer (se_codec se) z of
                         Inl err \<Rightarrow> Some (Inl err)
                       | Inr decomp \<Rightarrow> (case decomp of [] \<Rightarrow> None | t' # rest' \<Rightarrow> Some (Inr (t', rest'))))
                  | Inr _ \<Rightarrow> Some (Inl ''decode''))
               else Some (Inr (msgType, rest))))"

section \<open>Push and pull\<close>

definition push_state :: "nodeState \<Rightarrow> pushNodeState" where
  "push_state n = \<lparr>p_Name = s_Name n, p_Addr = s_Addr n, p_Port = s_Port n, p_Meta = s_Meta n,
     p_Incarnation = s_Incarnation n, p_State = s_State n, p_Vsn = versions_of (s_Node n)\<rparr>"

fun pack_all :: "codec \<Rightarrow> wire_msg list \<Rightarrow> bytes result" where
  "pack_all c [] = Inr []"
| "pack_all c (m # ms) =
     (case pack c m of
        Inl err \<Rightarrow> Inl err
      | Inr b \<Rightarrow> (case pack_all c ms of Inl err \<Rightarrow> Inl err | Inr bs \<Rightarrow> Inr (b @ bs)))"

definition sendLocalState ::
    "('t, 'ip) strmenv \<Rightarrow> bool \<Rightarrow> conn \<Rightarrow> 't netstate \<Rightarrow> unit result \<times> conn \<times> 't netstate" where
  "sendLocalState se join c st =
     (let localNodes = map (\<lambda>r. push_state (heap (core st) r)) (nodes (core st));
          userData = (if c_Delegate (se_net se) then x_LocalState se (calls st) join else None);
          userBytes = (case userData of None \<Rightarrow> [] | Some b \<Rightarrow> b);
          header = \<lparr>hd_Nodes = int (length localNodes), hd_UserStateLen = int (length userBytes), hd_Join = join\<rparr>;
          st1 = st\<lparr>calls := Suc (calls st)\<rparr>
      in case pack_all (se_codec se) (PushPullHeader header # map PushNodeState localNodes) of
           Inl err \<Rightarrow> (Inl err, c, st1)
         | Inr b \<Rightarrow> rawSendMsgStream se (pushPullMsg # b @ userBytes) c st1)"

fun unpack_nodes :: "codec \<Rightarrow> nat \<Rightarrow> bytes \<Rightarrow> (pushNodeState list \<times> bytes) result" where
  "unpack_nodes c 0 buf = Inr ([], buf)"
| "unpack_nodes c (Suc n) buf =
     (case unpack c 11 buf of
        Inl err \<Rightarrow> Inl err
      | Inr (PushNodeState p, rest) \<Rightarrow>
          (case unpack_nodes c n rest of Inl err \<Rightarrow> Inl err | Inr (ps, rest') \<Rightarrow> Inr (p # ps, rest'))
      | Inr _ \<Rightarrow> Inl ''decode'')"

definition fix_port :: "('t, 'ip) env \<Rightarrow> pushNodeState \<Rightarrow> pushNodeState" where
  "fix_port env p =
     (if c_ProtocolVersion env < 2 \<or> p_Port p = 0 then p\<lparr>p_Port := of_int (c_BindPort env)\<rparr> else p)"

text \<open>A negative number of nodes makes the allocation panic.\<close>

definition readRemoteState ::
    "('t, 'ip) strmenv \<Rightarrow> string \<Rightarrow> bytes \<Rightarrow> (bool \<times> pushNodeState list \<times> bytes option) result option" where
  "readRemoteState se eof buf =
     (case unpack (se_codec se) 9 buf of
        Inl err \<Rightarrow> Some (Inl err)
      | Inr (PushPullHeader h, rest) \<Rightarrow>
          if hd_Nodes h < 0 then None
          else
            (case unpack_nodes (se_codec se) (nat (hd_Nodes h)) rest of
               Inl err \<Rightarrow> Some (Inl err)
             | Inr (ps, rest') \<Rightarrow>
                 (let ps' = map (fix_port (ne_env (se_net se))) ps in
                  if hd_UserStateLen h > 0 then
                    if int (length rest') < hd_UserStateLen h then Some (Inl eof)
                    else Some (Inr (hd_Join h, ps', Some (take (nat (hd_UserStateLen h)) rest')))
                  else Some (Inr (hd_Join h, ps', None))))
      | Inr _ \<Rightarrow> Some (Inl ''decode''))"

definition merge_node :: "pushNodeState \<Rightarrow> Node option" where
  "merge_node n =
     (if length (p_Vsn n) < 6 then None
      else Some (set_versions (p_Vsn n) (mk_Node (p_Name n) (p_Addr n) (p_Port n) (p_Meta n)\<lparr>n_State := p_State n\<rparr>)))"

fun merge_nodes :: "pushNodeState list \<Rightarrow> Node list option" where
  "merge_nodes [] = Some []"
| "merge_nodes (n # ns) =
     (case merge_node n of
        None \<Rightarrow> None
      | Some x \<Rightarrow> map_option (\<lambda>xs. x # xs) (merge_nodes ns))"

text \<open>The clock readings and random numbers of the merge are \<open>now\<close> and \<open>rnd\<close>, by position.\<close>

definition mergeRemoteState ::
    "('t, 'ip) strmenv \<Rightarrow> time \<Rightarrow> (nat \<Rightarrow> u32) \<Rightarrow> bool \<Rightarrow> pushNodeState list \<Rightarrow> bytes option \<Rightarrow> 't strmstate \<Rightarrow>
     (unit result \<times> 't strmstate) option" where
  "mergeRemoteState se now rnd join remote userBuf s =
     (case verifyProtocol (core (net s)) remote of
        None \<Rightarrow> None
      | Some (Inl err) \<Rightarrow> Some (Inl err, s)
      | Some (Inr _) \<Rightarrow>
          (case (case c_Merge se of
                   Some NotifyMerge \<Rightarrow> if join then map_option NotifyMerge (merge_nodes remote) else Some None
                 | None \<Rightarrow> Some None) of
             None \<Rightarrow> None
           | Some (Some err) \<Rightarrow> Some (Inl err, s)
           | Some None \<Rightarrow>
               (case mergeState (ne_env (se_net se)) (zip remote (map (\<lambda>i. (now, rnd i)) [0..<length remote])) (core (net s)) of
                  None \<Rightarrow> None
                | Some m \<Rightarrow>
                    (let s1 = s\<lparr>net := (net s)\<lparr>core := m\<rparr>\<rparr> in
                     Some (Inr (),
                       case userBuf of
                         None \<Rightarrow> s1
                       | Some b \<Rightarrow> if c_Delegate (se_net se) then s1\<lparr>mergedStates := mergedStates s1 @ [(b, join)]\<rparr> else s1)))))"

section \<open>User messages\<close>

definition readUserMsg :: "('t, 'ip) strmenv \<Rightarrow> string \<Rightarrow> bytes \<Rightarrow> 't netstate \<Rightarrow> unit result \<times> 't netstate" where
  "readUserMsg se eof buf st =
     (case unpack (se_codec se) 10 buf of
        Inl err \<Rightarrow> (Inl err, st)
      | Inr (UserMsgHeader n, rest) \<Rightarrow>
          if n > 0 then
            if int (length rest) < n then (Inl eof, st)
            else (Inr (), handleUser (se_net se) (take (nat n) rest) st)
          else (Inr (), st)
      | Inr _ \<Rightarrow> (Inl ''decode'', st))"

definition sendUserMsg ::
    "('t, 'ip) strmenv \<Rightarrow> Address \<Rightarrow> bytes \<Rightarrow> 't netstate \<Rightarrow> unit result \<times> bytes \<times> 't netstate" where
  "sendUserMsg se a sendBuf st =
     (if addr_Name a = [] \<and> c_RequireNodeNames (se_net se) then (Inl errNodeNamesAreRequired, [], st)
      else
        (case x_Dial se (calls st) a of
           Inl err \<Rightarrow> (Inl err, [], st\<lparr>calls := Suc (calls st)\<rparr>)
         | Inr c \<Rightarrow>
             (case pack (se_codec se) (UserMsgHeader (int (length sendBuf))) of
                Inl err \<Rightarrow> (Inl err, [], st\<lparr>calls := Suc (calls st)\<rparr>)
              | Inr b \<Rightarrow>
                  (let (res, c1, st1) = rawSendMsgStream se (userMsg # b @ sendBuf) c (st\<lparr>calls := Suc (calls st)\<rparr>)
                   in (res, conn_out c1, st1)))))"

section \<open>The initiator of an exchange\<close>

definition sendAndReceiveState ::
    "('t, 'ip) strmenv \<Rightarrow> Address \<Rightarrow> bool \<Rightarrow> 't netstate \<Rightarrow>
     ((pushNodeState list \<times> bytes option) result \<times> 't netstate) option" where
  "sendAndReceiveState se a join st =
     (if addr_Name a = [] \<and> c_RequireNodeNames (se_net se) then Some (Inl errNodeNamesAreRequired, st)
      else
        (let st1 = st\<lparr>calls := Suc (calls st)\<rparr> in
         case x_Dial se (calls st) a of
           Inl err \<Rightarrow> Some (Inl err, st1)
         | Inr c \<Rightarrow>
             (case sendLocalState se join c st1 of
                (Inl err, _, st2) \<Rightarrow> Some (Inl err, st2)
              | (Inr _, c1, st2) \<Rightarrow>
                  map_option (\<lambda>r. (r, st2))
                    (and_then (readStream se st2 c1)
                      (\<lambda>(msgType, rest).
                         if msgType = errMsg then
                           (case decode (se_codec se) 4 rest of
                              Inr (ErrResp e) \<Rightarrow> Some (Inl (''remote error: '' @ e))
                            | Inr _ \<Rightarrow> Some (Inl ''decode'')
                            | Inl err \<Rightarrow> Some (Inl err))
                         else if msgType \<noteq> pushPullMsg then Some (Inl ''received invalid msgType'')
                         else and_then (readRemoteState se (conn_err c1) rest)
                                (\<lambda>(_, remoteNodes, userState). Some (Inr (remoteNodes, userState))))))))"

definition pushPullNode ::
    "('t, 'ip) strmenv \<Rightarrow> time \<Rightarrow> (nat \<Rightarrow> u32) \<Rightarrow> Address \<Rightarrow> bool \<Rightarrow> 't strmstate \<Rightarrow> (unit result \<times> 't strmstate) option" where
  "pushPullNode se now rnd a join s =
     (case sendAndReceiveState se a join (net s) of
        None \<Rightarrow> None
      | Some (Inl err, st1) \<Rightarrow> Some (Inl err, s\<lparr>net := st1\<rparr>)
      | Some (Inr (remote, userState), st1) \<Rightarrow>
          mergeRemoteState se now rnd join remote userState (s\<lparr>net := st1\<rparr>))"

definition sendPingAndWaitForAck ::
    "('t, 'ip) strmenv \<Rightarrow> Address \<Rightarrow> ping \<Rightarrow> 't netstate \<Rightarrow> (bool result \<times> 't netstate) option" where
  "sendPingAndWaitForAck se a p st =
     (if addr_Name a = [] \<and> c_RequireNodeNames (se_net se) then Some (Inl errNodeNamesAreRequired, st)
      else
        (let st1 = st\<lparr>calls := Suc (calls st)\<rparr> in
         case x_Dial se (calls st) a of
           Inl err \<Rightarrow> Some (Inr False, st1)
         | Inr c \<Rightarrow>
             (case encode (se_codec se) pingMsg (Ping p) of
                Inl err \<Rightarrow> Some (Inl err, st1)
              | Inr out \<Rightarrow>
                  (case rawSendMsgStream se out c st1 of
                     (Inl err, _, st2) \<Rightarrow> Some (Inl err, st2)
                   | (Inr _, c1, st2) \<Rightarrow>
                       map_option (\<lambda>r. (r, st2))
                         (and_then (readStream se st2 c1)
                           (\<lambda>(msgType, rest).
                              if msgType \<noteq> ackRespMsg then Some (Inl ''Unexpected msgType from ping'')
                              else
                                (case decode (se_codec se) 2 rest of
                                   Inl err \<Rightarrow> Some (Inl err)
                                 | Inr (AckResp ack) \<Rightarrow>
                                     if ak_SeqNo ack \<noteq> pi_SeqNo p
                                     then Some (Inl ''Sequence number from ack doesn't match ping'')
                                     else Some (Inr True)
                                 | Inr _ \<Rightarrow> Some (Inl ''decode''))))))))"

section \<open>An incoming connection\<close>

text \<open>
  The handler returns the connection with what it wrote. The counter of pending exchanges is
  raised on entry of an exchange and lowered on every way out.
\<close>

definition handle_pushPull ::
    "('t, 'ip) strmenv \<Rightarrow> time \<Rightarrow> (nat \<Rightarrow> u32) \<Rightarrow> bytes \<Rightarrow> conn \<Rightarrow> 't strmstate \<Rightarrow> (conn \<times> 't strmstate) option" where
  "handle_pushPull se now rnd buf c s =
     (if pushPullReq s + 1 \<ge> maxPushPullRequests then Some (c, s)
      else
        (case readRemoteState se (conn_err c) buf of
           None \<Rightarrow> None
         | Some (Inl err) \<Rightarrow> Some (c, s)
         | Some (Inr (join, remoteNodes, userState)) \<Rightarrow>
             if join \<and> remoteNodes = [] then None
             else if join \<and> blocked_source (se_net se) (p_Addr (hd remoteNodes)) then Some (c, s)
             else
               (case sendLocalState se join c (net s) of
                  (Inl err, c1, st1) \<Rightarrow> Some (c1, s\<lparr>net := st1\<rparr>)
                | (Inr _, c1, st1) \<Rightarrow>
                    map_option (\<lambda>(_, s2). (c1, s2))
                      (mergeRemoteState se now rnd join remoteNodes userState (s\<lparr>net := st1\<rparr>)))))"

definition handle_stream_ping :: "('t, 'ip) strmenv \<Rightarrow> bytes \<Rightarrow> conn \<Rightarrow> 't netstate \<Rightarrow> conn \<times> 't netstate" where
  "handle_stream_ping se buf c st =
     (case decode (se_codec se) 0 buf of
        Inr (Ping p) \<Rightarrow>
          if pi_Node p \<noteq> [] \<and> pi_Node p \<noteq> c_Name (ne_env (se_net se)) then (c, st)
          else if blocked_source (se_net se) (pi_SourceAddr p) then (c, st)
          else
            (case encode (se_codec se) ackRespMsg (AckResp \<lparr>ak_SeqNo = pi_SeqNo p, ak_Payload = []\<rparr>) of
               Inl err \<Rightarrow> (c, st)
             | Inr out \<Rightarrow> snd (rawSendMsgStream se out c st))
      | _ \<Rightarrow> (c, st))"

definition handleConn ::
    "('t, 'ip) strmenv \<Rightarrow> time \<Rightarrow> (nat \<Rightarrow> u32) \<Rightarrow> string \<Rightarrow> conn \<Rightarrow> 't strmstate \<Rightarrow> (conn \<times> 't strmstate) option" where
  "handleConn se now rnd from c s =
     (let ne = se_net se in
      if \<not> ensureCanConnect (x_resolver (ne_env ne)) (c_CIDRsAllowed (ne_env ne)) from then Some (c, s)
      else
        (case readStream se (net s) c of
           None \<Rightarrow> None
         | Some (Inl err) \<Rightarrow>
             if err \<noteq> ''EOF'' then
               (case encode (se_codec se) errMsg (ErrResp err) of
                  Inl _ \<Rightarrow> Some (c, s)
                | Inr out \<Rightarrow> (case rawSendMsgStream se out c (net s) of (_, c1, st1) \<Rightarrow> Some (c1, s\<lparr>net := st1\<rparr>)))
             else Some (c, s)
         | Some (Inr (msgType, buf)) \<Rightarrow>
             if msgType = userMsg then
               Some (c, s\<lparr>net := snd (readUserMsg se (conn_err c) buf (net s))\<rparr>)
             else if msgType = pushPullMsg then handle_pushPull se now rnd buf c s
             else if msgType = pingMsg then
               (case handle_stream_ping se buf c (net s) of (c1, st1) \<Rightarrow> Some (c1, s\<lparr>net := st1\<rparr>))
             else Some (c, s)))"

end
