(* ===== verification/Stream_Correct.thy ===== *)
theory Stream_Correct
  imports Stream_Conn
begin

text \<open>
  Correctness of the stream layer: a framed message is read back by a peer with agreeing keys,
  the push/pull exchange transfers the whole membership table, handling a connection keeps the
  node consistent, and the inputs on which the handler panics.
\<close>

section \<open>Framing round trip\<close>

text \<open>
  The frame \<open>w\<close>, sealed with the \<open>i\<close>-th nonce, can be opened by the receiver: its ring holds
  the sender's primary key and no key before it accepts the frame, or the sender does not
  encrypt and the receiver does not insist on it.
\<close>

definition stream_keys_agree ::
    "('t, 'ip) strmenv \<Rightarrow> nat \<Rightarrow> 't netstate \<Rightarrow> ('t, 'ip) strmenv \<Rightarrow> 't netstate \<Rightarrow> bytes \<Rightarrow> bool" where
  "stream_keys_agree se i st se' st' w \<longleftrightarrow>
     (if EncryptionEnabled st \<and> c_GossipVerifyOutgoing (se_net se) then
        \<exists>k k' p nonce. keyring st = Some k \<and> keyring st' = Some k' \<and> keyring_ok k \<and> keyring_ok k' \<and>
          GetPrimaryKey k = Some p \<and> p \<in> set (GetKeys k') \<and> x_nonce (se_net se) i = Inr nonce \<and> length nonce = nonceSize \<and>
          (\<forall>q \<in> set (takeWhile (\<lambda>q. q \<noteq> p) (GetKeys k')).
             unseal (x_aead (se_net se)) q nonce (drop (5 + versionSize + nonceSize) w) (take 5 w) = None)
      else \<not> (EncryptionEnabled st' \<and> c_GossipVerifyIncoming (se_net se')))"

lemma EncryptionEnabled_calls [simp]: "EncryptionEnabled (st\<lparr>calls := n\<rparr>) = EncryptionEnabled st"
  by (simp add: EncryptionEnabled_def)

lemma stream_keys_agree_calls [simp]: "stream_keys_agree se i (st\<lparr>calls := n\<rparr>) se' st' w = stream_keys_agree se i st se' st' w"
  unfolding stream_keys_agree_def EncryptionEnabled_calls by simp

lemma decryptRemoteState_sealed:
  assumes laws: "aead_laws (x_aead ne)" and ring: "keyring_ok k" "keyring_ok k'" "GetPrimaryKey k = Some p" "p \<in> set (GetKeys k')"
    and n: "x_nonce ne i = Inr nonce" "length nonce = nonceSize"
    and rej: "\<forall>q \<in> set (takeWhile (\<lambda>q. q \<noteq> p) (GetKeys k')).
        unseal (x_aead ne) q nonce (drop (5 + versionSize + nonceSize) w) (take 5 w) = None"
    and enc: "encryptLocalState ne i k buf = Inr w" and small: "length w \<le> 5 + maxPushStateBytes"
  shows "\<exists>body. w = encryptMsg # body \<and> decryptRemoteState ne k' eof body = Some (Inr buf)"
proof -
  let ?v = "encryptionVersion ne" and ?len = "encryptedLength (encryptionVersion ne) (int (length buf))"
  let ?hdr = "encryptMsg # put_be32 (of_int ?len)"
  let ?c = "?v # nonce @ seal (x_aead ne) p nonce (padded ?v buf) ?hdr"
  have p: "valid_key p" using ring.primary_in [OF ring(1,3)] ring.keys_valid [OF ring(1)] by blast
  have w: "w = ?hdr @ ?c"
    using enc encryptPayload_eq [OF p n(2), of "x_aead ne" ?v buf ?hdr ?hdr] ring(3) n(1) by (simp add: encryptLocalState_def Let_def)
  have len: "int (length ?c) = ?len" by (rule length_encrypted [OF laws p n(2)])
  have small': "length ?c \<le> maxPushStateBytes" using small w by simp
  have "get_be32 (put_be32 (of_int ?len)) = of_nat (length ?c)" by (metis get_put_be32 len of_int_of_nat_eq)
  moreover have "unat (of_nat n :: u32) = n" if "n \<le> maxPushStateBytes" for n using that by (simp add: unat_of_nat)
  ultimately have more: "unat (get_be32 (put_be32 (of_int ?len))) = length ?c" using small' by metis
  have t5: "take 5 w = ?hdr" "drop (5 + versionSize + nonceSize) w = seal (x_aead ne) p nonce (padded ?v buf) ?hdr"
    using w n(2) by (simp_all add: put_be32_def)
  have "decryptPayload (x_aead ne) (GetKeys k') ?c ?hdr = Some (Inr buf)"
    using ring.sealed_readable [OF laws ring n(2) encryptionVersion_le, of ne buf ?hdr "[]"] rej [unfolded t5] by simp
  then have "decryptRemoteState ne k' eof (put_be32 (of_int ?len) @ ?c) = Some (Inr buf)"
    using more small' by (simp add: decryptRemoteState_def Let_def)
  then show ?thesis using w by simp
qed

lemma readStream_plain:
  assumes laws: "codec_laws (se_codec se')" and buf: "buf = t # body" and t: "t \<noteq> compressMsg" "t \<noteq> encryptMsg"
    and z: "z = buf \<or> compressPayload (se_codec se') buf = Inr z"
  shows "\<exists>t' rest. z = t' # rest \<and> t' \<noteq> encryptMsg \<and>
    (if t' = compressMsg then
       (case decode (se_codec se') 12 rest of
          Inl err \<Rightarrow> Some (Inl err)
        | Inr (Compress c) \<Rightarrow>
            (case decompressBuffer (se_codec se') c of
               Inl err \<Rightarrow> Some (Inl err)
             | Inr decomp \<Rightarrow> (case decomp of [] \<Rightarrow> None | t' # rest' \<Rightarrow> Some (Inr (t', rest'))))
        | Inr _ \<Rightarrow> Some (Inl ''decode''))
     else Some (Inr (t', rest))) = Some (Inr (t, body))"
  using z
proof
  assume "compressPayload (se_codec se') buf = Inr z"
  moreover obtain l where l: "lzw_write (se_codec se') buf = Inr l"
    and e: "encode (se_codec se') compressMsg (Compress \<lparr>co_Algo = lzwAlgo, co_Buf = l\<rparr>) = Inr z"
    using calculation by (auto simp: compressPayload_def split: sum.splits)
  have "decode (se_codec se') 12 (tl z) = Inr (Compress \<lparr>co_Algo = lzwAlgo, co_Buf = l\<rparr>)"
    using decode_encode [OF laws e] by simp
  moreover have "lzw_read (se_codec se') l = Inr buf" by (rule codec_lawsD(4) [OF laws l])
  moreover obtain pb where "z = compressMsg # pb" using e by (auto simp: encode_Inr)
  ultimately show ?thesis using buf by (simp add: decompressBuffer_def)
qed (use buf t in simp)

lemma read_what_was_framed:
  assumes laws: "codec_laws (se_codec se)" "aead_laws (x_aead (se_net se))"
    and same: "se_codec se' = se_codec se" "x_aead (se_net se') = x_aead (se_net se)"
    and frame: "stream_frame se buf st = Inr w" and agree: "stream_keys_agree se (calls st) st se' st' w"
    and buf: "buf = t # body" "t \<noteq> compressMsg" "t \<noteq> encryptMsg"
    and small: "length w \<le> 5 + maxPushStateBytes" and c: "conn_in c = w"
  shows "readStream se' st' c = Some (Inr (t, body))"
proof -
  let ?ne = "se_net se"
  let ?z = "if c_EnableCompression ?ne then (case compressPayload (se_codec se) buf of Inl err \<Rightarrow> buf | Inr b \<Rightarrow> b) else buf"
  have z: "?z = buf \<or> compressPayload (se_codec se') buf = Inr ?z" using same(1) by (auto split: sum.split)
  obtain t' rest where tr: "?z = t' # rest" "t' \<noteq> encryptMsg" and r:
    "(if t' = compressMsg then
       (case decode (se_codec se') 12 rest of
          Inl err \<Rightarrow> Some (Inl err)
        | Inr (Compress c) \<Rightarrow>
            (case decompressBuffer (se_codec se') c of
               Inl err \<Rightarrow> Some (Inl err)
             | Inr decomp \<Rightarrow> (case decomp of [] \<Rightarrow> None | t' # rest' \<Rightarrow> Some (Inr (t', rest'))))
        | Inr _ \<Rightarrow> Some (Inl ''decode''))
     else Some (Inr (t', rest))) = Some (Inr (t, body))"
    using readStream_plain [OF laws(1) [folded same(1)] buf z] by blast
  show ?thesis
  proof (cases "EncryptionEnabled st \<and> c_GossipVerifyOutgoing ?ne")
    case False
    then have "w = t' # rest" "\<not> (EncryptionEnabled st' \<and> c_GossipVerifyIncoming (se_net se'))"
      using frame agree tr by (auto simp: stream_frame_def stream_keys_agree_def Let_def)
    then show ?thesis using c tr(2) r by (simp add: readStream_def)
  next
    case True
    obtain k k' p nonce where k: "keyring st = Some k" "keyring st' = Some k'" "keyring_ok k" "keyring_ok k'"
      "GetPrimaryKey k = Some p" "p \<in> set (GetKeys k')" "x_nonce ?ne (calls st) = Inr nonce" "length nonce = nonceSize"
      and rej: "\<forall>q \<in> set (takeWhile (\<lambda>q. q \<noteq> p) (GetKeys k')).
             unseal (x_aead ?ne) q nonce (drop (5 + versionSize + nonceSize) w) (take 5 w) = None"
      using agree True by (auto simp: stream_keys_agree_def)
    have enc: "encryptLocalState ?ne (calls st) k ?z = Inr w"
      using frame True k(1) by (simp add: stream_frame_def Let_def)
    obtain wb where wb: "w = encryptMsg # wb" "decryptRemoteState ?ne k' (conn_err c) wb = Some (Inr ?z)"
      using decryptRemoteState_sealed [OF laws(2) k(3,4,5,6,7,8) rej enc small] by blast
    have "decryptRemoteState (se_net se') k' (conn_err c) wb = Some (Inr ?z)"
      using wb(2) unfolding decryptRemoteState_def same(2) .
    moreover have "EncryptionEnabled st'" using k(2,6) by (auto simp: EncryptionEnabled_def)
    ultimately show ?thesis using c wb(1) k(2) tr(1) r by (simp add: readStream_def del: if_split_asm)
  qed
qed

section \<open>Exchanging the table\<close>

lemma unpack_packed_nodes:
  assumes laws: "codec_laws c"
  shows "pack_all c (map PushNodeState ps) = Inr b \<Longrightarrow> unpack_nodes c (length ps) (b @ rest) = Inr (ps, rest)"
proof (induction ps arbitrary: b)
  case (Cons p ps)
  then obtain b1 b2 where b: "pack c (PushNodeState p) = Inr b1" "pack_all c (map PushNodeState ps) = Inr b2" "b = b1 @ b2"
    by (auto split: sum.splits)
  have "unpack c 11 (b1 @ b2 @ rest) = Inr (PushNodeState p, b2 @ rest)"
    using codec_lawsD(1) [OF laws b(1)] by simp
  then show ?case using Cons.IH [OF b(2)] b(3) by simp
qed simp

lemma read_packed_state:
  assumes laws: "codec_laws (se_codec se)"
    and h: "h = \<lparr>hd_Nodes = int (length ps), hd_UserStateLen = int (length ud), hd_Join = join\<rparr>"
    and b: "pack_all (se_codec se) (PushPullHeader h # map PushNodeState ps) = Inr b"
  shows "readRemoteState se eof (b @ ud) =
    Some (Inr (join, map (fix_port (ne_env (se_net se))) ps, if ud = [] then None else Some ud))"
proof -
  obtain b1 b2 where b12: "pack (se_codec se) (PushPullHeader h) = Inr b1"
      "pack_all (se_codec se) (map PushNodeState ps) = Inr b2" "b = b1 @ b2"
    using b by (auto split: sum.splits)
  have "unpack (se_codec se) 9 (b @ ud) = Inr (PushPullHeader h, b2 @ ud)"
    using codec_lawsD(1) [OF laws b12(1)] b12(3) by simp
  moreover have "unpack_nodes (se_codec se) (nat (hd_Nodes h)) (b2 @ ud) = Inr (ps, ud)"
    using unpack_packed_nodes [OF laws b12(2)] h by simp
  ultimately show ?thesis using h by (simp add: readRemoteState_def Let_def)
qed

lemma rawSendMsgStream_sent:
  assumes "rawSendMsgStream se buf c st = (Inr u, c1, st1)"
  shows "\<exists>w. stream_frame se buf st = Inr w \<and> conn_out c1 = conn_out c @ w \<and> conn_in c1 = conn_in c \<and> conn_err c1 = conn_err c"
  using assms by (auto simp: rawSendMsgStream_def Let_def split: sum.splits if_splits)

text \<open>The table a node sends, and the user data that goes with it.\<close>

definition local_states :: "'t netstate \<Rightarrow> pushNodeState list" where
  "local_states st = map (\<lambda>r. push_state (heap (core st) r)) (nodes (core st))"

definition local_user :: "('t, 'ip) strmenv \<Rightarrow> bool \<Rightarrow> 't netstate \<Rightarrow> bytes" where
  "local_user se join st =
     (case (if c_Delegate (se_net se) then x_LocalState se (calls st) join else None) of None \<Rightarrow> [] | Some b \<Rightarrow> b)"

lemma sendLocalState_eq:
  "sendLocalState se join c st =
     (case pack_all (se_codec se) (PushPullHeader \<lparr>hd_Nodes = int (length (local_states st)),
         hd_UserStateLen = int (length (local_user se join st)), hd_Join = join\<rparr> # map PushNodeState (local_states st)) of
        Inl err \<Rightarrow> (Inl err, c, st\<lparr>calls := Suc (calls st)\<rparr>)
      | Inr b \<Rightarrow> rawSendMsgStream se (pushPullMsg # b @ local_user se join st) c (st\<lparr>calls := Suc (calls st)\<rparr>))"
  unfolding sendLocalState_def local_states_def local_user_def Let_def by simp

lemma sendLocalState_sent:
  assumes "sendLocalState se join c st = (Inr u, c1, st1)"
  obtains b w where "pack_all (se_codec se) (PushPullHeader \<lparr>hd_Nodes = int (length (local_states st)),
       hd_UserStateLen = int (length (local_user se join st)), hd_Join = join\<rparr> # map PushNodeState (local_states st)) = Inr b"
    and "stream_frame se (pushPullMsg # b @ local_user se join st) (st\<lparr>calls := Suc (calls st)\<rparr>) = Inr w"
    and "conn_out c1 = conn_out c @ w"
proof -
  let ?h = "\<lparr>hd_Nodes = int (length (local_states st)), hd_UserStateLen = int (length (local_user se join st)), hd_Join = join\<rparr>"
  note e = sendLocalState_eq [of se join c st]
  show thesis
  proof (cases "pack_all (se_codec se) (PushPullHeader ?h # map PushNodeState (local_states st))")
    case (Inr b)
    then have "rawSendMsgStream se (pushPullMsg # b @ local_user se join st) c (st\<lparr>calls := Suc (calls st)\<rparr>) = (Inr u, c1, st1)"
      using e assms by simp
    from rawSendMsgStream_sent [OF this] Inr show thesis using that by blast
  qed (use e assms in simp)
qed

section \<open>The invariant of a node\<close>

lemma stream_frames [simp]:
  "snd (snd (rawSendMsgStream se buf c st)) = st\<lparr>calls := Suc (calls st)\<rparr>"
  by (simp add: rawSendMsgStream_def Let_def split: sum.split)

lemma net_ok_calls [simp]: "net_ok ne (st\<lparr>calls := n\<rparr>) = net_ok ne st"
  by (simp add: net_ok_def)

lemma sendLocalState_ok: "net_ok ne st \<Longrightarrow> sendLocalState se join c st = (res, c1, st1) \<Longrightarrow> net_ok ne st1"
  by (auto simp: sendLocalState_def Let_def rawSendMsgStream_def split: sum.splits)

lemma mergeState_ok:
  assumes "env_ok env"
  shows "member_ok env m \<Longrightarrow> mergeState env remote m = Some m' \<Longrightarrow> member_ok env m'"
  using assms
proof (induction env remote m arbitrary: m' rule: mergeState.induct)
  case (2 env r now rnd remote m)
  then obtain m1 where m1: "merge_one env now rnd r m = Some m1" "mergeState env remote m1 = Some m'"
    by (auto split: option.splits)
  have "member_ok env m1"
    using m1(1) 2(2) 2(4) by (auto simp: merge_one_def split: NodeStateType.splits intro: inv_intros)
  then show ?case using 2(1) m1 2(4) by simp
qed simp

lemma mergeRemoteState_ok:
  assumes "env_ok (ne_env (se_net se))" and ok: "net_ok (se_net se) (net s)"
    and m: "mergeRemoteState se now rnd join remote ub s = Some (res, s')"
  shows "net_ok (se_net se) (net s') \<and> pushPullReq s' = pushPullReq s"
proof -
  have "net_ok (se_net se) ((net s)\<lparr>core := m\<rparr>)" if "mergeState (ne_env (se_net se)) rs (core (net s)) = Some m" for rs m
    using mergeState_ok [OF assms(1) net_ok_core [OF ok] that] ok by (simp add: net_ok_def)
  then show ?thesis
    using m ok by (auto simp: mergeRemoteState_def Let_def split: option.splits sum.splits if_splits)
qed

lemma handleConn_ok:
  assumes e: "env_ok (ne_env (se_net se))" and ok: "net_ok (se_net se) (net s)"
    and h: "handleConn se now rnd src c s = Some (c', s')"
  shows "net_ok (se_net se) (net s') \<and> pushPullReq s' = pushPullReq s"
proof -
  have raw: "net_ok (se_net se) st1" if "rawSendMsgStream se out c (net s) = (r, c1, st1)" for out r c1 st1
    using stream_frames [of se out c "net s"] that ok by simp
  have user: "net_ok (se_net se) (snd (readUserMsg se er buf (net s)))" for er buf
    using ok by (auto simp: readUserMsg_def handleUser_def net_ok_def split: sum.split wire_msg.split)
  have ping: "net_ok (se_net se) st1" if "handle_stream_ping se buf c (net s) = (c1, st1)" for buf c1 st1
    using that ok raw by (auto simp: handle_stream_ping_def split: if_splits sum.splits wire_msg.splits)
      (metis ok net_ok_calls snd_conv stream_frames)+
  have pp: "net_ok (se_net se) (net s'') \<and> pushPullReq s'' = pushPullReq s" if "handle_pushPull se now rnd buf c s = Some (c1, s'')" for buf c1 s''
  proof -
    have S: "net_ok (se_net se) st1" if "sendLocalState se join c (net s) = (r, c1, st1)" for join r c1 st1
      using sendLocalState_ok [OF ok that] .
    have M: "net_ok (se_net se) (net s3) \<and> pushPullReq s3 = pushPullReq s"
      if "mergeRemoteState se now rnd join rn us (s\<lparr>net := st1\<rparr>) = Some (r', s3)" "net_ok (se_net se) st1" for join rn us st1 r' s3
      using mergeRemoteState_ok [OF e _ that(1)] that(2) by simp
    show ?thesis
      using that ok
      by (auto simp: handle_pushPull_def split: if_splits option.splits sum.splits prod.splits dest: S M)
  qed
  show ?thesis
    using h ok raw user ping pp
    by (auto simp: handleConn_def Let_def split: if_splits option.splits sum.splits prod.splits)
qed

section \<open>Properties\<close>

text \<open>
  C9. A push transfers the whole table: what \<open>sendLocalState\<close> writes, whether compressed or
  encrypted or not, is read by a peer with the same codec and agreeing keys as a push/pull
  message that carries the join flag, every node of the sender's list in order (with the
  default port filled in) and the user state.
\<close>

theorem push_transfers_table:
  assumes "codec_laws (se_codec se)" "aead_laws (x_aead (se_net se))"
    and same: "se_codec se' = se_codec se" "x_aead (se_net se') = x_aead (se_net se)"
    and sent: "sendLocalState se join c st = (Inr (), c1, st1)" "conn_out c = []"
    and agree: "stream_keys_agree se (Suc (calls st)) st se' st' (conn_out c1)"
    and small: "length (conn_out c1) \<le> 5 + maxPushStateBytes" and inp: "conn_in c' = conn_out c1"
  shows "\<exists>buf. readStream se' st' c' = Some (Inr (pushPullMsg, buf)) \<and>
     readRemoteState se' eof buf =
       Some (Inr (join, map (fix_port (ne_env (se_net se'))) (local_states st),
                  if local_user se join st = [] then None else Some (local_user se join st)))"
proof -
  let ?st = "st\<lparr>calls := Suc (calls st)\<rparr>" and ?ud = "local_user se join st"
  let ?h = "\<lparr>hd_Nodes = int (length (local_states st)), hd_UserStateLen = int (length ?ud), hd_Join = join\<rparr>"
  obtain b w where b: "pack_all (se_codec se) (PushPullHeader ?h # map PushNodeState (local_states st)) = Inr b"
    and w: "stream_frame se (pushPullMsg # b @ ?ud) ?st = Inr w" "conn_out c1 = conn_out c @ w"
    by (rule sendLocalState_sent [OF sent(1)])
  have "stream_keys_agree se (calls ?st) ?st se' st' w"
    using agree w(2) sent(2) by simp
  from read_what_was_framed [OF assms(1-4) w(1) this refl] small inp w(2) sent(2)
  have "readStream se' st' c' = Some (Inr (pushPullMsg, b @ ?ud))" by simp
  moreover have "readRemoteState se' eof (b @ ?ud) =
       Some (Inr (join, map (fix_port (ne_env (se_net se'))) (local_states st), if ?ud = [] then None else Some ?ud))"
    by (rule read_packed_state [OF _ refl]) (use assms(1) same(1) b in simp_all)
  ultimately show ?thesis by blast
qed

definition demo_strm :: "wire_msg list \<Rightarrow> (limitedBroadcast list, nat) strmenv" where
  "demo_strm ms = \<lparr>se_net = demo_net ms 1400, c_Merge = None, x_LocalState = (\<lambda>_ _. None),
     x_Dial = (\<lambda>_ _. Inl ''refused''), x_Write = (\<lambda>_ b. Inr (length b))\<rparr>"

definition demo_conn :: "bytes \<Rightarrow> conn" where
  "demo_conn inp = \<lparr>conn_in = inp, conn_err = ''EOF'', conn_out = []\<rparr>"

definition demo_header :: "wire_msg" where
  "demo_header = PushPullHeader \<lparr>hd_Nodes = 0, hd_UserStateLen = 0, hd_Join = True\<rparr>"

lemma demo_strm_simps [simp]:
  "se_net (demo_strm ms) = demo_net ms 1400" "x_Write (demo_strm ms) i b = Inr (length b)" "conn_out (demo_conn inp) = []"
  "conn_in (demo_conn inp) = inp"
  by (simp_all add: demo_strm_def demo_conn_def)

theorem push_transfers_table_witness:
  "\<exists>c1 buf. sendLocalState (demo_strm [demo_header]) True (demo_conn []) (demo_node demo_core (Some demo_ring)) =
       (Inr (), c1, (demo_node demo_core (Some demo_ring))\<lparr>calls := 2\<rparr>) \<and>
     readStream (demo_strm [demo_header]) (demo_node demo_core (Some demo_ring)) (demo_conn (conn_out c1)) =
       Some (Inr (pushPullMsg, buf)) \<and>
     readRemoteState (demo_strm [demo_header]) [] buf = Some (Inr (True, [], None))"
proof -
  let ?se = "demo_strm [demo_header]" and ?st = "demo_node demo_core (Some demo_ring)"
  let ?key = "replicate 16 7 :: bytes" and ?nonce = "replicate 12 1 :: bytes" and ?st1 = "?st\<lparr>calls := Suc 0\<rparr>"
  have st: "local_states ?st = []" "local_user ?se True ?st = []"
    by (simp_all add: local_states_def local_user_def demo_core_def new_memberlist_def)
  have key: "valid_key ?key" "keyring_ok demo_ring" "GetPrimaryKey demo_ring = Some ?key" "GetKeys demo_ring = [?key]"
    by (simp_all add: demo_ring_def keyring_ok_def valid_key_def GetPrimaryKey_def GetKeys_def)
  have on: "EncryptionEnabled ?st" "EncryptionEnabled ?st1" using key(4) by (simp_all add: EncryptionEnabled_def)
  have frame: "\<exists>w. stream_frame ?se [pushPullMsg, 0] ?st1 = Inr w \<and> length w \<le> 50"
    using key(1,3) on
    by (simp add: stream_frame_def compressPayload_def encode_def table_codec_def demo_net_def demo_header_def Let_def encryptLocalState_def
        encryptPayload_eq tag_cipher_def padded_def put_be32_def encryptionVersion_def demo_env_def)
  then obtain w where w: "stream_frame ?se [pushPullMsg, 0] ?st1 = Inr w" "length w \<le> 50" by blast
  have "pack_all (table_codec [demo_header]) [demo_header] = Inr [0]" by (simp add: table_codec_def)
  then have "sendLocalState ?se True (demo_conn []) ?st = rawSendMsgStream ?se [pushPullMsg, 0] (demo_conn []) ?st1"
    using st by (simp add: sendLocalState_eq demo_header_def)
  then obtain c1 where s: "sendLocalState ?se True (demo_conn []) ?st = (Inr (), c1, ?st\<lparr>calls := 2\<rparr>)" "conn_out c1 = w"
    using w(1) by (simp add: rawSendMsgStream_def Let_def)
  have "stream_keys_agree ?se (Suc (calls ?st)) ?st ?se ?st (conn_out c1)"
    using key(2-) on by (auto simp: stream_keys_agree_def)
  from push_transfers_table [OF _ _ refl refl s(1) _ this, of "demo_conn w" "[]"] s w(2) st
  show ?thesis by (auto simp: table_codec_laws tag_cipher_laws)
qed

text \<open>
  C10. Whatever a peer sends over a stream, if the handler of the connection returns, the node
  is consistent afterwards and the counter of pending push/pull exchanges is as before.
\<close>

theorem connection_keeps_node_consistent:
  assumes "env_ok (ne_env (se_net se))" and "net_ok (se_net se) (net s)"
    and "handleConn se now rnd src c s = Some (c', s')"
  shows "net_ok (se_net se) (net s') \<and> pushPullReq s' = pushPullReq s"
  by (rule handleConn_ok [OF assms])

definition demo_server :: "limitedBroadcast list strmstate" where
  "demo_server = \<lparr>net = demo_node demo_core None, pushPullReq = 0, mergedStates = []\<rparr>"

lemma demo_server_simps [simp]: "net demo_server = demo_node demo_core None" "pushPullReq demo_server = 0"
  by (simp_all add: demo_server_def)

lemma demo_server_plain [simp]: "\<not> EncryptionEnabled (demo_node demo_core None)"
  by (simp add: EncryptionEnabled_def)

lemma demo_connects [simp]: "ensureCanConnect (x_resolver (demo_env ms)) [] src"
  by (simp add: ensureCanConnect_def IPMustBeChecked_def)

theorem connection_keeps_node_consistent_witness:
  "\<exists>c' s'. handleConn (demo_strm []) 0 (\<lambda>_. 0) ''10.0.0.2:7946'' (demo_conn [pushPullMsg, 1]) demo_server = Some (c', s') \<and>
     net_ok (demo_net [] 1400) (net s') \<and> pushPullReq s' = 0"
proof -
  let ?se = "demo_strm []"
  have h: "handleConn ?se 0 (\<lambda>_. 0) ''10.0.0.2:7946'' (demo_conn [pushPullMsg, 1]) demo_server =
      Some (demo_conn [pushPullMsg, 1], demo_server)"
    by (simp add: handleConn_def readStream_def handle_pushPull_def readRemoteState_def table_codec_def Let_def)
  have "net_ok (demo_net [] 1400) (net demo_server)" by (simp add: net_ok_def demo_core_ok)
  with connection_keeps_node_consistent [of ?se demo_server, OF _ _ h] h show ?thesis by (simp add: demo_env_ok)
qed

text \<open>
  C33. Three kinds of well-encoded stream input from an unauthenticated peer make the handler
  panic: a join that announces no nodes, a negative number of nodes, and a compressed message
  whose payload is empty.
\<close>

theorem hostile_stream_panics:
  assumes laws: "codec_laws (se_codec se)" and plain: "\<not> EncryptionEnabled (net s)"
    and src: "ensureCanConnect (x_resolver (ne_env (se_net se))) (c_CIDRsAllowed (ne_env (se_net se))) src"
    and busy: "pushPullReq s + 1 < maxPushPullRequests"
  shows "(\<forall>b h. pack (se_codec se) (PushPullHeader h) = Inr b \<and> conn_in c = pushPullMsg # b \<and>
            (hd_Nodes h < 0 \<or> hd_Nodes h = 0 \<and> hd_UserStateLen h = 0 \<and> hd_Join h) \<longrightarrow> handleConn se now rnd src c s = None) \<and>
         (\<forall>b z. pack (se_codec se) (Compress \<lparr>co_Algo = lzwAlgo, co_Buf = z\<rparr>) = Inr b \<and> lzw_read (se_codec se) z = Inr [] \<and>
            conn_in c = compressMsg # b \<longrightarrow> handleConn se now rnd src c s = None)"
proof (intro conjI allI impI; elim conjE)
  fix b h
  assume p: "pack (se_codec se) (PushPullHeader h) = Inr b" and c: "conn_in c = pushPullMsg # b"
    and bad: "hd_Nodes h < 0 \<or> hd_Nodes h = 0 \<and> hd_UserStateLen h = 0 \<and> hd_Join h"
  have "unpack (se_codec se) 9 b = Inr (PushPullHeader h, [])" using codec_lawsD(1) [OF laws p, of "[]"] by simp
  then have "handle_pushPull se now rnd b c s = None"
    using bad busy by (auto simp: handle_pushPull_def readRemoteState_def Let_def not_le)
  moreover have "readStream se (net s) c = Some (Inr (pushPullMsg, b))" using c plain by (simp add: readStream_def)
  ultimately show "handleConn se now rnd src c s = None" using src by (simp add: handleConn_def)
next
  fix b z
  assume p: "pack (se_codec se) (Compress \<lparr>co_Algo = lzwAlgo, co_Buf = z\<rparr>) = Inr b" and e: "lzw_read (se_codec se) z = Inr []"
    and c: "conn_in c = compressMsg # b"
  have "decode (se_codec se) 12 b = Inr (Compress \<lparr>co_Algo = lzwAlgo, co_Buf = z\<rparr>)"
    using codec_lawsD(1) [OF laws p, of "[]"] by (simp add: decode_def)
  then have "readStream se (net s) c = None" using c plain e by (simp add: readStream_def decompressBuffer_def)
  then show "handleConn se now rnd src c s = None" using src by (simp add: handleConn_def)
qed

theorem hostile_stream_panics_witness:
  "handleConn (demo_strm [demo_header]) 0 (\<lambda>_. 0) ''10.0.0.2:7946'' (demo_conn [pushPullMsg, 0]) demo_server = None"
proof -
  have "pack (table_codec [demo_header]) demo_header = Inr [0]" by (simp add: table_codec_def)
  then show ?thesis
    using hostile_stream_panics [of "demo_strm [demo_header]" demo_server "''10.0.0.2:7946''" "demo_conn [pushPullMsg, 0]" 0 "\<lambda>_. 0",
      THEN conjunct1, rule_format, of "\<lparr>hd_Nodes = 0, hd_UserStateLen = 0, hd_Join = True\<rparr>" "[0]"]
    by (simp add: table_codec_laws demo_header_def)
qed

end
