(* ===== verification/Probe.thy ===== *)
theory Probe
  imports Stream_Correct
begin

text \<open>
  The background tasks of \<open>memberlist/state.go\<close>: choosing and probing a node, a user's ping,
  gossiping, announcing the local weight, the periodic push/pull, and the tickers that run them.
  A probe waits three times (for a direct ack, for any ack until the probe interval ends, and
  for the stream fallback); what it observes there is an argument, so is the number of nacks.
\<close>

section \<open>Environment\<close>

text \<open>The dynamic type of an error value, as far as the code looks at it.\<close>

datatype go_error = OpError string string | DNSError | OtherError

record ('t, 'ip) probeenv =
  pe_strm :: "('t, 'ip) strmenv"
  c_IndirectChecks :: nat
  c_DisableTcpPings :: bool
  c_DisableTcpPingsForNode :: "(string \<Rightarrow> bool) option"
  c_GossipNodes :: nat
  c_AwarenessMaxMultiplier :: int
  x_error :: "string \<Rightarrow> go_error"

abbreviation pe_net :: "('t, 'ip) probeenv \<Rightarrow> ('t, 'ip) netenv" where "pe_net pe \<equiv> se_net (pe_strm pe)"
abbreviation pe_env :: "('t, 'ip) probeenv \<Rightarrow> ('t, 'ip) env" where "pe_env pe \<equiv> ne_env (pe_net pe)"

text \<open>
  What a probe sees: an ack before the probe timeout, an ack before the end of the interval,
  the number of nacks counted at the end.
\<close>

record probe_obs =
  o_ack :: bool
  o_late_ack :: bool
  o_nacks :: nat

section \<open>Choosing the node\<close>

definition skip_probe :: "('t, 'ip) env \<Rightarrow> nodeState \<Rightarrow> bool" where
  "skip_probe env s \<longleftrightarrow> s_Name s = c_Name env \<or> DeadOrLeft s"

lemma length_resetNodes: "length (nodes (resetNodes env now draw m)) \<le> length (nodes m)"
proof -
  have "length (take i xs) \<le> length (nodes m)"
    if "moveDeadNodes (heap m) now (c_GossipToTheDeadTime env) (nodes m) = (i, xs)" for i xs
    using moveDeadNodes_spec(2) [OF that] by simp
  then show ?thesis by (simp add: resetNodes_def split: prod.split)
qed

function probe_pick :: "('t, 'ip) env \<Rightarrow> time \<Rightarrow> (nat \<Rightarrow> nat \<Rightarrow> nat) \<Rightarrow> nat \<Rightarrow> 't memberlist \<Rightarrow> nodeState option \<times> 't memberlist" where
  "probe_pick env now draw numCheck m =
     (if numCheck \<ge> length (nodes m) then (None, m)
      else if probeIndex m \<ge> length (nodes m) then
        probe_pick env now draw (numCheck + 1) ((resetNodes env now (draw numCheck) m)\<lparr>probeIndex := 0\<rparr>)
      else
        (let node = heap m (nodes m ! probeIndex m); m1 = m\<lparr>probeIndex := probeIndex m + 1\<rparr> in
         if skip_probe env node then probe_pick env now draw (numCheck + 1) m1
         else (Some node, m1)))"
  by pat_completeness auto
termination
proof (relation "measure (\<lambda>(env, now, draw, numCheck, m). length (nodes m) - numCheck)")
  fix env :: "('t, 'ip) env" and now :: time and draw :: "nat \<Rightarrow> nat \<Rightarrow> nat" and numCheck and m :: "'t memberlist"
  assume "\<not> numCheck \<ge> length (nodes m)"
  then show "((env, now, draw, numCheck + 1, (resetNodes env now (draw numCheck) m)\<lparr>probeIndex := 0\<rparr>), (env, now, draw, numCheck, m))
      \<in> measure (\<lambda>(env, now, draw, numCheck, m). length (nodes m) - numCheck)"
    using length_resetNodes [of env now "draw numCheck" m] by simp
qed auto

declare probe_pick.simps [simp del]

section \<open>Probing it\<close>

definition failedRemote :: "go_error \<Rightarrow> bool" where
  "failedRemote err =
     (case err of
        OpError n op \<Rightarrow> take 3 n = ''tcp'' \<and> op \<in> {''dial'', ''read'', ''write''}
      | _ \<Rightarrow> False)"

definition self_suspect :: "('t, 'ip) env \<Rightarrow> nodeState \<Rightarrow> suspect" where
  "self_suspect env node = \<lparr>su_Incarnation = s_Incarnation node, su_Node = s_Name node, su_From = c_Name env\<rparr>"

definition apply_health :: "int \<Rightarrow> 't netstate \<Rightarrow> 't netstate" where
  "apply_health delta st = st\<lparr>core := (core st)\<lparr>m_awareness := ApplyDelta (m_awareness (core st)) delta\<rparr>\<rparr>"

definition suspect_it :: "('t, 'ip) probeenv \<Rightarrow> time \<Rightarrow> nodeState \<Rightarrow> 't netstate \<Rightarrow> 't netstate" where
  "suspect_it pe now node st = st\<lparr>core := suspectNode (pe_env pe) now (self_suspect (pe_env pe) node) (core st)\<rparr>"

definition setProbeChannels :: "u32 \<Rightarrow> 't netstate \<Rightarrow> 't netstate" where
  "setProbeChannels seqNo st = setAckHandler seqNo ProbeChannels st"

definition probe_ping :: "('t, 'ip) env \<Rightarrow> nodeState \<Rightarrow> u32 \<Rightarrow> 't netstate \<Rightarrow> ping" where
  "probe_ping env node seqNo st = \<lparr>pi_SeqNo = seqNo, pi_Node = s_Name node, pi_SourceAddr = advertiseAddr st,
     pi_SourcePort = advertisePort st, pi_SourceNode = c_Name env\<rparr>"

text \<open>
  Sending the ping. To a node that is not alive a suspect message is sent along, in one packet
  without further broadcasts; then a failure to encode is told from a failure to send.
\<close>

definition probe_send ::
    "('t, 'ip) probeenv \<Rightarrow> nodeState \<Rightarrow> ping \<Rightarrow> 't netstate \<Rightarrow> (unit result \<times> 't netstate) option" where
  "probe_send pe node p st =
     (let ne = pe_net pe; c = x_codec (pe_env pe) in
      if s_State node = StateAlive then encodeAndSendMsg ne (FullAddress (s_Node node)) pingMsg (Ping p) st
      else
        (case encode c pingMsg (Ping p) of
           Inl err \<Rightarrow> Some (Inl err, st)
         | Inr b1 \<Rightarrow>
             (case encode c suspectMsg (Suspect (self_suspect (pe_env pe) node)) of
                Inl err \<Rightarrow> Some (Inl err, st)
              | Inr b2 \<Rightarrow>
                  Some (rawSendMsgPacket ne (FullAddress (s_Node node)) (Some (s_Node node)) (makeCompoundMessage [b1, b2]) st))))"

text \<open>The indirect pings, with the number of nacks to expect.\<close>

text \<open>
  The error of a send is judged by its type.  In the second branch an encoding error returns at
  once: it counts as an error of neither kind.
\<close>

definition encode_failed :: "('t, 'ip) probeenv \<Rightarrow> nodeState \<Rightarrow> ping \<Rightarrow> bool" where
  "encode_failed pe node p \<longleftrightarrow>
     s_State node \<noteq> StateAlive \<and>
     (case encode (x_codec (pe_env pe)) pingMsg (Ping p) of
        Inl _ \<Rightarrow> True
      | Inr _ \<Rightarrow> (case encode (x_codec (pe_env pe)) suspectMsg (Suspect (self_suspect (pe_env pe) node)) of Inl _ \<Rightarrow> True | Inr _ \<Rightarrow> False))"

definition send_error :: "('t, 'ip) probeenv \<Rightarrow> nodeState \<Rightarrow> ping \<Rightarrow> string \<Rightarrow> go_error" where
  "send_error pe node p err = (if encode_failed pe node p then OtherError else x_error pe err)"

fun send_indirect ::
    "('t, 'ip) probeenv \<Rightarrow> nodeState \<Rightarrow> u32 \<Rightarrow> Node list \<Rightarrow> int \<Rightarrow> 't netstate \<Rightarrow> (int \<times> 't netstate) option" where
  "send_indirect pe node seqNo [] expected st = Some (expected, st)"
| "send_indirect pe node seqNo (pr # peers) expected st =
     (let nack = (n_PMax pr \<ge> 4);
          ind = \<lparr>ip_SeqNo = seqNo, ip_Target = s_Addr node, ip_Port = s_Port node, ip_Node = s_Name node, ip_Nack = nack,
                 ip_SourceAddr = advertiseAddr st, ip_SourcePort = advertisePort st, ip_SourceNode = c_Name (pe_env pe)\<rparr>
      in case encodeAndSendMsg (pe_net pe) (FullAddress pr) indirectPingMsg (IndirectPing ind) st of
           None \<Rightarrow> None
         | Some (_, st1) \<Rightarrow> send_indirect pe node seqNo peers (if nack then expected + 1 else expected) st1)"

definition probe_peers :: "('t, 'ip) probeenv \<Rightarrow> (nat \<Rightarrow> u32) \<Rightarrow> nodeState \<Rightarrow> 't memberlist \<Rightarrow> Node list" where
  "probe_peers pe rnd node m =
     kRandomNodes (c_IndirectChecks pe) (heap m) (nodes m)
       (\<lambda>n. s_Name n = c_Name (pe_env pe) \<or> s_Name n = s_Name node \<or> s_State n \<noteq> StateAlive) rnd"

definition tcp_fallback :: "('t, 'ip) probeenv \<Rightarrow> nodeState \<Rightarrow> ping \<Rightarrow> 't netstate \<Rightarrow> (bool \<times> 't netstate) option" where
  "tcp_fallback pe node p st =
     (let disabled = (c_DisableTcpPings pe \<or> (case c_DisableTcpPingsForNode pe of None \<Rightarrow> False | Some f \<Rightarrow> f (s_Name node)))
      in if \<not> disabled \<and> n_PMax (s_Node node) \<ge> 3 then
           map_option (\<lambda>(r, st1). (r = Inr True, st1)) (sendPingAndWaitForAck (pe_strm pe) (FullAddress (s_Node node)) p st)
         else Some (False, st))"

definition health_delta :: "int \<Rightarrow> nat \<Rightarrow> int" where
  "health_delta expectedNacks nacks =
     (if expectedNacks > 0 then if int nacks < expectedNacks then expectedNacks - int nacks else 0 else 1)"

text \<open>
  From the label \<open>HANDLE_REMOTE_FAILURE\<close> on. \<open>delta\<close> is the health change of a return before
  the node is suspected: nothing when the ping could not be sent, an improvement otherwise.
\<close>

definition probe_indirect ::
    "('t, 'ip) probeenv \<Rightarrow> time \<Rightarrow> (nat \<Rightarrow> u32) \<Rightarrow> probe_obs \<Rightarrow> nodeState \<Rightarrow> ping \<Rightarrow> int \<Rightarrow> 't netstate \<Rightarrow> 't netstate option" where
  "probe_indirect pe now rnd obs node p delta st =
     (case send_indirect pe node (pi_SeqNo p) (probe_peers pe rnd node (core st)) 0 st of
        None \<Rightarrow> None
      | Some (expectedNacks, st1) \<Rightarrow>
          (case tcp_fallback pe node p st1 of
             None \<Rightarrow> None
           | Some (didContact, st2) \<Rightarrow>
               (let st3 = ackTimeout (pi_SeqNo p) st2 in
                Some (if o_late_ack obs \<or> didContact then apply_health delta st3
                      else apply_health (health_delta expectedNacks (o_nacks obs)) (suspect_it pe now node st3)))))"

definition probeNode ::
    "('t, 'ip) probeenv \<Rightarrow> time \<Rightarrow> (nat \<Rightarrow> u32) \<Rightarrow> probe_obs \<Rightarrow> nodeState \<Rightarrow> 't netstate \<Rightarrow> 't netstate option" where
  "probeNode pe now rnd obs node st =
     (let (seqNo, m1) = nextSeqNo (core st);
          st1 = setProbeChannels seqNo (st\<lparr>core := m1\<rparr>);
          p = probe_ping (pe_env pe) node seqNo st1
      in case probe_send pe node p st1 of
           None \<Rightarrow> None
         | Some (Inl err, st2) \<Rightarrow>
             if failedRemote (send_error pe node p err) then probe_indirect pe now rnd obs node p 0 st2
             else if s_State node = StateAlive \<and> send_error pe node p err = DNSError
               then Some (apply_health 1 (suspect_it pe now node st2))
             else Some (apply_health 0 st2)
         | Some (Inr _, st2) \<Rightarrow>
             if o_ack obs then Some (apply_health (-1) st2)
             else probe_indirect pe now rnd obs node p (-1) st2)"

definition probe ::
    "('t, 'ip) probeenv \<Rightarrow> time \<Rightarrow> (nat \<Rightarrow> nat \<Rightarrow> nat) \<Rightarrow> (nat \<Rightarrow> u32) \<Rightarrow> probe_obs \<Rightarrow> 't netstate \<Rightarrow> 't netstate option" where
  "probe pe now draw rnd obs st =
     (case probe_pick (pe_env pe) now draw 0 (core st) of
        (None, m) \<Rightarrow> Some (st\<lparr>core := m\<rparr>)
      | (Some node, m) \<Rightarrow> probeNode pe now rnd obs node (st\<lparr>core := m\<rparr>))"

text \<open>A user's ping: the round-trip time comes with the ack, if there is one in time.\<close>

definition Ping_user ::
    "('t, 'ip) probeenv \<Rightarrow> string \<Rightarrow> string \<Rightarrow> duration option \<Rightarrow> 't netstate \<Rightarrow> (duration result \<times> 't netstate) option" where
  "Ping_user pe node addr rtt st =
     (let (seqNo, m1) = nextSeqNo (core st);
          st1 = setProbeChannels seqNo (st\<lparr>core := m1\<rparr>);
          p = \<lparr>pi_SeqNo = seqNo, pi_Node = node, pi_SourceAddr = advertiseAddr st1, pi_SourcePort = advertisePort st1,
               pi_SourceNode = c_Name (pe_env pe)\<rparr>
      in case encodeAndSendMsg (pe_net pe) \<lparr>addr_Addr = addr, addr_Name = node\<rparr> pingMsg (Ping p) st1 of
           None \<Rightarrow> None
         | Some (Inl err, st2) \<Rightarrow> Some (Inl err, st2)
         | Some (Inr _, st2) \<Rightarrow>
             Some (case rtt of Some d \<Rightarrow> Inr d | None \<Rightarrow> Inl (''No response from node '' @ node), st2))"

section \<open>Gossip\<close>

definition gossip_excluded :: "('t, 'ip) env \<Rightarrow> time \<Rightarrow> nodeState \<Rightarrow> bool" where
  "gossip_excluded env now n =
     (if s_Name n = c_Name env then True
      else
        (case s_State n of
           StateAlive \<Rightarrow> False
         | StateSuspect \<Rightarrow> False
         | StateDead \<Rightarrow> now - s_StateChange n > c_GossipToTheDeadTime env
         | _ \<Rightarrow> True))"

definition gossip_room :: "('t, 'ip) netenv \<Rightarrow> 't netstate \<Rightarrow> int option" where
  "gossip_room ne st =
     (let bytesAvail = c_UDPBufferSize ne - compoundHeaderOverhead in
      if EncryptionEnabled st then map_option (\<lambda>ov. bytesAvail - ov) (encryptOverhead (encryptionVersion ne))
      else Some bytesAvail)"

fun gossip_to :: "('t, 'ip) netenv \<Rightarrow> int \<Rightarrow> Node list \<Rightarrow> 't netstate \<Rightarrow> 't netstate option" where
  "gossip_to ne bytesAvail [] st = Some st"
| "gossip_to ne bytesAvail (node # kNodes) st =
     (case getBroadcasts ne compoundOverhead bytesAvail st of
        None \<Rightarrow> None
      | Some (msgs, st1) \<Rightarrow>
          if msgs = [] then Some st1
          else
            (let buf = (if length msgs = 1 then hd msgs else makeCompoundMessage msgs) in
             gossip_to ne bytesAvail kNodes (snd (rawSendMsgPacket ne (FullAddress node) (Some node) buf st1))))"

definition gossip_peers :: "('t, 'ip) probeenv \<Rightarrow> time \<Rightarrow> (nat \<Rightarrow> u32) \<Rightarrow> 't netstate \<Rightarrow> Node list" where
  "gossip_peers pe now rnd st =
     kRandomNodes (c_GossipNodes pe) (heap (core st)) (nodes (core st)) (gossip_excluded (pe_env pe) now) rnd"

definition gossip :: "('t, 'ip) probeenv \<Rightarrow> time \<Rightarrow> (nat \<Rightarrow> u32) \<Rightarrow> 't netstate \<Rightarrow> 't netstate option" where
  "gossip pe now rnd st =
     (case gossip_room (pe_net pe) st of
        None \<Rightarrow> None
      | Some bytesAvail \<Rightarrow> gossip_to (pe_net pe) bytesAvail (gossip_peers pe now rnd st) st)"

section \<open>Weight\<close>

text \<open>
  \<open>math.Round\<close> rounds half away from zero. The floating-point expression is evaluated over the
  reals; \<open>cpuPercent\<close> is the answer of \<open>cpu.Percent\<close>.
\<close>

definition math_Round :: "real \<Rightarrow> int" where
  "math_Round x = (if x \<ge> 0 then \<lfloor>x + 1 / 2\<rfloor> else - \<lfloor>- x + 1 / 2\<rfloor>)"

definition weight_of :: "int \<Rightarrow> int \<Rightarrow> real \<Rightarrow> int" where
  "weight_of mx sc cpuPercent =
     (let cpuIdlePercent = 100 - cpuPercent in
      math_Round (real_of_int (mx - sc) * 0.6 + real_of_int mx * cpuIdlePercent / 100 * 0.4))"

definition weight_task :: "('t, 'ip) probeenv \<Rightarrow> time \<Rightarrow> real result \<Rightarrow> 't netstate \<Rightarrow> 't netstate" where
  "weight_task pe now cpuPercent st =
     (case cpuPercent of
        Inl err \<Rightarrow> st
      | Inr percent \<Rightarrow>
          (let w = \<lparr>w_Incarnation = incarnation (core st), w_Node = c_Name (pe_env pe), w_From = c_Name (pe_env pe),
                    w_Weight = weight_of (c_AwarenessMaxMultiplier pe) (GetHealthScore (m_awareness (core st))) percent,
                    w_WeightAt = now sdiv 1000000\<rparr>
           in st\<lparr>core := encodeWeightMsgAndBroadcast (pe_env pe) (c_Name (pe_env pe)) (Weight w) (core st)\<rparr>))"

section \<open>Periodic push/pull\<close>

definition pushPull ::
    "('t, 'ip) probeenv \<Rightarrow> time \<Rightarrow> (nat \<Rightarrow> u32) \<Rightarrow> (nat \<Rightarrow> u32) \<Rightarrow> 't strmstate \<Rightarrow> 't strmstate option" where
  "pushPull pe now rnd rnd' s =
     (let m = core (net s);
          ns = kRandomNodes 1 (heap m) (nodes m) (\<lambda>n. s_Name n = c_Name (pe_env pe) \<or> s_State n \<noteq> StateAlive) rnd
      in case ns of
           [] \<Rightarrow> Some s
         | node # _ \<Rightarrow> map_option snd (pushPullNode (pe_strm pe) now rnd' (FullAddress node) False s))"

end
