(* ===== verification/Probe_Correct.thy ===== *)
theory Probe_Correct
  imports Probe
begin

text \<open>
  Correctness of failure detection and dissemination: probing goes round the whole node list, a
  probe suspects exactly the nodes that stay silent, gossip packets respect the buffer size.
\<close>

section \<open>The round of probes\<close>

lemma probe_pick_next:
  assumes "probeIndex m \<le> j" and "j < length (nodes m)" and "\<not> skip_probe env (heap m (nodes m ! j))"
    and "\<forall>i. probeIndex m \<le> i \<and> i < j \<longrightarrow> skip_probe env (heap m (nodes m ! i))"
    and "numCheck + (j - probeIndex m) < length (nodes m)"
  shows "probe_pick env now draw numCheck m = (Some (heap m (nodes m ! j)), m\<lparr>probeIndex := Suc j\<rparr>)"
  using assms
proof (induction "j - probeIndex m" arbitrary: m numCheck)
  case 0
  then have "j = probeIndex m" by simp
  then show ?case using 0 by (subst probe_pick.simps) (simp add: Let_def)
next
  case (Suc n)
  let ?m = "m\<lparr>probeIndex := probeIndex m + 1\<rparr>"
  have "skip_probe env (heap m (nodes m ! probeIndex m))" using Suc(2,6) by simp
  moreover have n: "\<not> length (nodes m) \<le> numCheck" "\<not> length (nodes m) \<le> probeIndex m" using Suc(2,4,7) by simp_all
  ultimately have "probe_pick env now draw numCheck m = probe_pick env now draw (numCheck + 1) ?m"
    using n by (subst probe_pick.simps) (simp add: Let_def)
  also have "\<dots> = (Some (heap ?m (nodes ?m ! j)), ?m\<lparr>probeIndex := Suc j\<rparr>)"
    using Suc(2-) by (intro Suc(1)) simp_all
  finally show ?case by simp
qed

text \<open>The nodes chosen by \<open>k\<close> probes in a row when nothing else changes the table.\<close>

fun probe_round :: "('t, 'ip) env \<Rightarrow> time \<Rightarrow> (nat \<Rightarrow> nat \<Rightarrow> nat) \<Rightarrow> nat \<Rightarrow> 't memberlist \<Rightarrow> nodeState option list \<times> 't memberlist" where
  "probe_round env now draw 0 m = ([], m)"
| "probe_round env now draw (Suc k) m =
     (case probe_pick env now draw 0 m of
        (r, m1) \<Rightarrow> (case probe_round env now draw k m1 of (rs, m2) \<Rightarrow> (r # rs, m2)))"

definition to_probe :: "('t, 'ip) env \<Rightarrow> 't memberlist \<Rightarrow> nodeState list" where
  "to_probe env m = filter (\<lambda>s. \<not> skip_probe env s) (map (heap m) (drop (probeIndex m) (nodes m)))"

lemma first_unskipped:
  "filter P xs = y # ys \<Longrightarrow> \<exists>j < length xs. xs ! j = y \<and> P y \<and> (\<forall>i < j. \<not> P (xs ! i)) \<and> filter P (drop (Suc j) xs) = ys"
proof (induction xs)
  case (Cons x xs)
  show ?case
  proof (cases "P x")
    case False
    then obtain j where j: "j < length xs" "xs ! j = y" "P y" "\<forall>i < j. \<not> P (xs ! i)" "filter P (drop (Suc j) xs) = ys"
      using Cons by auto
    then have "\<forall>i < Suc j. \<not> P ((x # xs) ! i)" using False by (auto simp: less_Suc_eq_0_disj)
    then show ?thesis using j by (intro exI [of _ "Suc j"]) simp
  qed (use Cons in \<open>auto intro: exI [of _ 0]\<close>)
qed simp

lemma probe_round_goes_on:
  "to_probe env m = L \<Longrightarrow> \<exists>i. probe_round env now draw (length L) m = (map Some L, m\<lparr>probeIndex := i\<rparr>) \<and> to_probe env (m\<lparr>probeIndex := i\<rparr>) = []"
proof (induction L arbitrary: m)
  case Nil
  then show ?case by (intro exI [of _ "probeIndex m"]) simp
next
  case (Cons y ys)
  let ?xs = "map (heap m) (drop (probeIndex m) (nodes m))" and ?i = "probeIndex m"
  obtain d where d: "d < length ?xs" "?xs ! d = y" "\<not> skip_probe env y" "\<forall>i < d. skip_probe env (?xs ! i)"
    "filter (\<lambda>s. \<not> skip_probe env s) (drop (Suc d) ?xs) = ys"
    using first_unskipped [OF Cons.prems [unfolded to_probe_def]] by auto
  let ?j = "?i + d" and ?m = "m\<lparr>probeIndex := Suc (probeIndex m + d)\<rparr>"
  have "probe_pick env now draw 0 m = (Some (heap m (nodes m ! ?j)), m\<lparr>probeIndex := Suc ?j\<rparr>)"
  proof (rule probe_pick_next)
    show "\<forall>i. ?i \<le> i \<and> i < ?j \<longrightarrow> skip_probe env (heap m (nodes m ! i))"
    proof (intro allI impI)
      fix i assume i: "?i \<le> i \<and> i < ?j"
      then have "skip_probe env (?xs ! (i - ?i))" using d(4) by auto
      moreover have "?xs ! (i - ?i) = heap m (nodes m ! i)" using i d(1) by (subst nth_map) auto
      ultimately show "skip_probe env (heap m (nodes m ! i))" by simp
    qed
  qed (use d in auto)
  moreover have "heap m (nodes m ! ?j) = y" using d(1,2) by simp
  moreover have "to_probe env ?m = ys" using d(5) by (simp add: to_probe_def drop_map add.commute)
  ultimately show ?case using Cons.IH [of ?m] by (fastforce split: prod.split)
qed


lemma probe_round_append:
  "fst (probe_round env now draw (k + l) m) =
     fst (probe_round env now draw k m) @ fst (probe_round env now draw l (snd (probe_round env now draw k m)))"
proof (induction k arbitrary: m)
  case (Suc k)
  then show ?case by (auto split: prod.split) (metis fst_conv snd_conv)
qed simp

text \<open>A probe that has used up its checks ends without a choice, and the next one goes on from there.\<close>

lemma probe_pick_or_waits:
  assumes "to_probe env m = y # ys"
  shows "\<exists>i r. probe_pick env now draw c m = (r, m\<lparr>probeIndex := i\<rparr>) \<and>
    (r = Some y \<and> to_probe env (m\<lparr>probeIndex := i\<rparr>) = ys \<or> r = None \<and> to_probe env (m\<lparr>probeIndex := i\<rparr>) = y # ys)"
  using assms
proof (induction "length (nodes m) - probeIndex m" arbitrary: m c)
  case 0
  then show ?case by (simp add: to_probe_def)
next
  case (Suc n)
  let ?i = "probeIndex m" and ?m = "m\<lparr>probeIndex := Suc (probeIndex m)\<rparr>"
  have i: "?i < length (nodes m)" using Suc(2) by simp
  then have t: "to_probe env m = (if skip_probe env (heap m (nodes m ! ?i)) then to_probe env ?m else heap m (nodes m ! ?i) # to_probe env ?m)"
    by (simp add: to_probe_def Cons_nth_drop_Suc [symmetric])
  show ?case
  proof (cases "c \<ge> length (nodes m)")
    case True
    then show ?thesis using Suc(3) by (intro exI [of _ ?i] exI [of _ None]) (simp add: probe_pick.simps)
  next
    case False
    then have p: "probe_pick env now draw c m =
        (if skip_probe env (heap m (nodes m ! ?i)) then probe_pick env now draw (c + 1) ?m else (Some (heap m (nodes m ! ?i)), ?m))"
      using i by (subst probe_pick.simps) (simp add: Let_def)
    show ?thesis
    proof (cases "skip_probe env (heap m (nodes m ! ?i))")
      case True
      then show ?thesis using Suc(1) [of ?m "c + 1"] Suc(2,3) t p by simp
    next
      case False
      then show ?thesis using Suc(3) t p by (intro exI [of _ "Suc ?i"] exI [of _ "Some y"]) simp
    qed
  qed
qed

text \<open>At the end of the list the dead are reaped, the list is shuffled and the index starts again at 0.\<close>

lemma probe_pick_wraps:
  assumes "to_probe env m = []" and "c + (length (nodes m) - probeIndex m) < length (nodes m)"
  shows "\<exists>i d. probe_pick env now draw c m =
    probe_pick env now draw d ((resetNodes env now (draw (d - 1)) (m\<lparr>probeIndex := i\<rparr>))\<lparr>probeIndex := 0\<rparr>)"
  using assms
proof (induction "length (nodes m) - probeIndex m" arbitrary: m c)
  case 0
  then show ?case
    by (intro exI [of _ "probeIndex m"] exI [of _ "c + 1"]) (subst probe_pick.simps, simp)
next
  case (Suc n)
  let ?i = "probeIndex m" and ?m = "m\<lparr>probeIndex := Suc (probeIndex m)\<rparr>"
  have i: "?i < length (nodes m)" using Suc(2) by simp
  then have t: "skip_probe env (heap m (nodes m ! ?i))" "to_probe env ?m = []"
    using Suc(3) by (auto simp: to_probe_def Cons_nth_drop_Suc [symmetric] split: if_splits)
  then have "probe_pick env now draw c m = probe_pick env now draw (c + 1) ?m"
  proof -
    have "\<not> length (nodes m) \<le> c" using i Suc(4) by linarith
    then show ?thesis using t i by (subst probe_pick.simps) (simp add: Let_def)
  qed
  then show ?case using Suc(1) [of ?m "c + 1"] Suc(2,4) t(2) by simp
qed

text \<open>All the nodes a pass has to probe.\<close>

definition live_others :: "('t, 'ip) env \<Rightarrow> 't memberlist \<Rightarrow> nodeState list" where
  "live_others env m = filter (\<lambda>s. \<not> skip_probe env s) (map (heap m) (nodes m))"

lemma live_others_reset:
  assumes "table_ok m"
  shows "mset (live_others env (resetNodes env now draw m)) = mset (live_others env m)"
proof -
  let ?m = "resetNodes env now draw m" and ?live = "\<lambda>r. \<not> skip_probe env (heap m r)"
  note f = resetNodes_effect [OF assms]
  have "set (filter ?live (nodes ?m)) = set (filter ?live (nodes m))"
    by (auto simp: f(1) reapable_def skip_probe_def)
  moreover have "distinct (nodes ?m)" "distinct (nodes m)" using f(3) table_okD(1) [OF assms] by simp_all
  ultimately have "mset (filter ?live (nodes ?m)) = mset (filter ?live (nodes m))"
    by (intro set_eq_iff_mset_eq_distinct [THEN iffD1]) simp_all
  then show ?thesis by (simp add: live_others_def filter_map comp_def f(5))
qed

section \<open>The verdict of a probe\<close>

lemma net_ok_setProbeChannels [simp]: "net_ok ne (setProbeChannels sq st) = net_ok ne st"
  by (simp add: setProbeChannels_def setAckHandler_def)

lemma core_setProbeChannels [simp]: "core (setProbeChannels sq st) = core st"
  by (simp add: setProbeChannels_def setAckHandler_def)

lemma core_ackTimeout [simp]: "core (ackTimeout sq st) = core st"
  by (simp add: ackTimeout_def)

text \<open>A change of the core that touches only the broadcast queue.\<close>

definition requeued :: "('t, 'ip) env \<Rightarrow> 't netstate \<Rightarrow> 't netstate \<Rightarrow> bool" where
  "requeued env st st' \<longleftrightarrow> (\<exists>q. core st' = core st\<lparr>broadcasts := q\<rparr> \<and> queue_ok (x_btree env) q)"

lemma requeued_refl: "member_ok env (core st) \<Longrightarrow> requeued env st st"
  unfolding requeued_def by (intro exI [of _ "broadcasts (core st)"]) (simp add: member_okD(3))

lemma requeued_trans: "requeued env a b \<Longrightarrow> requeued env b c \<Longrightarrow> requeued env a c"
  unfolding requeued_def by auto

lemma requeued_ok: "member_ok env (core st) \<Longrightarrow> requeued env st st' \<Longrightarrow> member_ok env (core st')"
  unfolding requeued_def using member_ok_fetch by metis

lemma sent_only_requeued: "sent_only env st st' \<Longrightarrow> requeued env st st'"
  unfolding sent_only_def requeued_def by blast

lemma probe_send_requeued:
  assumes e: "env_ok (pe_env pe)" and ok: "member_ok (pe_env pe) (core st)"
  shows "\<exists>r st'. probe_send pe node p st = Some (r, st') \<and> requeued (pe_env pe) st st'"
proof (cases "s_State node = StateAlive")
  case True
  then show ?thesis
    using encodeAndSendMsg_sent_only [OF e ok] sent_only_requeued by (simp add: probe_send_def) blast
next
  case False
  have "\<exists>r st'. rawSendMsgPacket ne a nd msg st = (r, st') \<and> requeued (pe_env pe) st st'" for ne a nd msg
    using rawSend_sent_only [OF ok, of ne a nd msg] sent_only_requeued by (metis prod.collapse)
  then show ?thesis
    using False requeued_refl [OF ok] by (auto simp: probe_send_def Let_def split: sum.split)
qed

lemma send_indirect_requeued:
  assumes e: "env_ok (pe_env pe)"
  shows "member_ok (pe_env pe) (core st) \<Longrightarrow>
    \<exists>st'. send_indirect pe node sq prs n st = Some (n + int (length (filter (\<lambda>pr. n_PMax pr \<ge> 4) prs)), st') \<and> requeued (pe_env pe) st st'"
proof (induction prs arbitrary: n st)
  case (Cons pr prs)
  let ?ind = "\<lparr>ip_SeqNo = sq, ip_Target = s_Addr node, ip_Port = s_Port node, ip_Node = s_Name node, ip_Nack = n_PMax pr \<ge> 4,
       ip_SourceAddr = advertiseAddr st, ip_SourcePort = advertisePort st, ip_SourceNode = c_Name (pe_env pe)\<rparr>"
  obtain r st1 where s: "encodeAndSendMsg (pe_net pe) (FullAddress pr) indirectPingMsg (IndirectPing ?ind) st = Some (r, st1)"
    and q: "requeued (pe_env pe) st st1"
    using encodeAndSendMsg_sent_only [OF e Cons.prems] sent_only_requeued by blast
  let ?n = "if n_PMax pr \<ge> 4 then n + 1 else n"
  obtain st2 where st2: "send_indirect pe node sq prs ?n st1 = Some (?n + int (length (filter (\<lambda>pr. n_PMax pr \<ge> 4) prs)), st2)"
    "requeued (pe_env pe) st1 st2"
    using Cons.IH [OF requeued_ok [OF Cons.prems q], of ?n] by blast
  have "send_indirect pe node sq (pr # prs) n st = send_indirect pe node sq prs ?n st1" using s by (simp add: Let_def)
  then show ?case using st2 requeued_trans [OF q st2(2)] by auto
qed (simp add: requeued_refl)

lemma tcp_fallback_core:
  "tcp_fallback pe node p st = Some (b, st') \<Longrightarrow> core st' = core st"
  by (auto simp: tcp_fallback_def sendPingAndWaitForAck_def rawSendMsgStream_def Let_def
      split: if_splits sum.splits prod.splits)

text \<open>
  Whether the probe ends without a verdict (the ping could not be sent for a local reason),
  whether it was answered, and how the health score changes otherwise.
\<close>

abbreviation ping_of :: "('t, 'ip) probeenv \<Rightarrow> nodeState \<Rightarrow> 't netstate \<Rightarrow> ping" where
  "ping_of pe node st \<equiv> probe_ping (pe_env pe) node (sequenceNum (core st) + 1) st"

definition gave_up :: "('t, 'ip) probeenv \<Rightarrow> nodeState \<Rightarrow> ping \<Rightarrow> unit result \<Rightarrow> bool" where
  "gave_up pe node p r \<longleftrightarrow> (case r of Inr _ \<Rightarrow> False
     | Inl err \<Rightarrow> \<not> failedRemote (send_error pe node p err) \<and> \<not> (s_State node = StateAlive \<and> send_error pe node p err = DNSError))"

definition dns_failed :: "('t, 'ip) probeenv \<Rightarrow> nodeState \<Rightarrow> ping \<Rightarrow> unit result \<Rightarrow> bool" where
  "dns_failed pe node p r \<longleftrightarrow> (case r of Inr _ \<Rightarrow> False | Inl err \<Rightarrow> \<not> failedRemote (send_error pe node p err))"

definition answered :: "('t, 'ip) probeenv \<Rightarrow> nodeState \<Rightarrow> ping \<Rightarrow> probe_obs \<Rightarrow> bool \<Rightarrow> unit result \<Rightarrow> bool" where
  "answered pe node p obs contact r \<longleftrightarrow> (r = Inr () \<and> o_ack obs) \<or> (\<not> dns_failed pe node p r \<and> (o_late_ack obs \<or> contact))"

definition judged :: "('t, 'ip) probeenv \<Rightarrow> time \<Rightarrow> nodeState \<Rightarrow> bool \<Rightarrow> int \<Rightarrow> 't memberlist \<Rightarrow> 't memberlist" where
  "judged pe now node silent delta m =
     (let m2 = (if silent then suspectNode (pe_env pe) now (self_suspect (pe_env pe) node) m else m)
      in m2\<lparr>m_awareness := ApplyDelta (m_awareness m2) delta\<rparr>)"

lemma core_apply_health: "core (apply_health delta st) = judged pe now node False delta (core st)"
  "core (apply_health delta (suspect_it pe now node st)) = judged pe now node True delta (core st)"
  by (simp_all add: apply_health_def suspect_it_def judged_def Let_def)

lemma health_delta_nonneg: "0 \<le> health_delta n k"
  by (simp add: health_delta_def)

lemma probe_indirect_verdict:
  assumes e: "env_ok (pe_env pe)" and ok: "member_ok (pe_env pe) (core st)"
    and p: "probe_indirect pe now rnd obs node p delta st = Some st'"
  shows "\<exists>contact q d. core st' = judged pe now node (\<not> (o_late_ack obs \<or> contact)) d (core st\<lparr>broadcasts := q\<rparr>) \<and>
     queue_ok (x_btree (pe_env pe)) q \<and> (o_late_ack obs \<or> contact \<longrightarrow> d = delta) \<and> (\<not> (o_late_ack obs \<or> contact) \<longrightarrow> 0 \<le> d) \<and>
     (c_DisableTcpPings pe \<longrightarrow> \<not> contact)"
proof -
  obtain n st1 where s1: "send_indirect pe node (pi_SeqNo p) (probe_peers pe rnd node (core st)) 0 st = Some (n, st1)"
    and q: "requeued (pe_env pe) st st1"
    using send_indirect_requeued [OF e ok] by metis
  obtain contact st2 where s2: "tcp_fallback pe node p st1 = Some (contact, st2)"
    using p s1 by (auto simp: probe_indirect_def split: option.splits)
  obtain q' where q': "core st1 = core st\<lparr>broadcasts := q'\<rparr>" "queue_ok (x_btree (pe_env pe)) q'" using q by (auto simp: requeued_def)
  have c2: "core st2 = core st\<lparr>broadcasts := q'\<rparr>" using tcp_fallback_core [OF s2] q'(1) by simp
  have dis: "c_DisableTcpPings pe \<Longrightarrow> \<not> contact" using s2 by (auto simp: tcp_fallback_def)
  have st': "st' = (if o_late_ack obs \<or> contact then apply_health delta (ackTimeout (pi_SeqNo p) st2)
      else apply_health (health_delta n (o_nacks obs)) (suspect_it pe now node (ackTimeout (pi_SeqNo p) st2)))"
    using p s1 s2 by (simp add: probe_indirect_def Let_def)
  show ?thesis
  proof (cases "o_late_ack obs \<or> contact")
    case True
    then have "core st' = judged pe now node False delta (core st\<lparr>broadcasts := q'\<rparr>)"
      using st' c2 by (simp add: core_apply_health(1) [of _ _ pe now node])
    then show ?thesis using True q'(2) dis by (intro exI [of _ contact] exI [of _ q'] exI [of _ delta]) auto
  next
    case False
    then have "core st' = judged pe now node True (health_delta n (o_nacks obs)) (core st\<lparr>broadcasts := q'\<rparr>)"
      using st' c2 by (simp add: core_apply_health(2))
    then show ?thesis
      using False q'(2) dis health_delta_nonneg by (intro exI [of _ contact] exI [of _ q'] exI [of _ "health_delta n (o_nacks obs)"]) auto
  qed
qed

lemma probeNode_verdict:
  assumes e: "env_ok (pe_env pe)" and ok: "net_ok (pe_net pe) st" and p: "probeNode pe now rnd obs node st = Some st'"
  obtains r contact q delta where
    "core st' = judged pe now node (\<not> (gave_up pe node (ping_of pe node st) r \<or> answered pe node (ping_of pe node st) obs contact r)) delta
       (core st\<lparr>sequenceNum := sequenceNum (core st) + 1, broadcasts := q\<rparr>)"
    and "queue_ok (x_btree (pe_env pe)) q"
    and "answered pe node (ping_of pe node st) obs contact r \<Longrightarrow> delta \<le> 0" and "gave_up pe node (ping_of pe node st) r \<Longrightarrow> delta = 0"
    and "\<not> gave_up pe node (ping_of pe node st) r \<Longrightarrow> \<not> answered pe node (ping_of pe node st) obs contact r \<Longrightarrow> 0 \<le> delta"
    and "\<exists>st2. probe_send pe node (probe_ping (pe_env pe) node (sequenceNum (core st) + 1) st)
       (setProbeChannels (sequenceNum (core st) + 1) (st\<lparr>core := snd (nextSeqNo (core st))\<rparr>)) = Some (r, st2)"
    and "c_DisableTcpPings pe \<Longrightarrow> \<not> contact"
proof -
  note verdict = that
  let ?sq = "sequenceNum (core st) + 1"
  let ?st1 = "setProbeChannels ?sq (st\<lparr>core := snd (nextSeqNo (core st))\<rparr>)" and ?p = "probe_ping (pe_env pe) node ?sq st"
  let ?m = "\<lambda>q. core st\<lparr>sequenceNum := ?sq, broadcasts := q\<rparr>"
  have ok1: "member_ok (pe_env pe) (core ?st1)"
    using member_step_ok [OF e net_ok_core [OF ok] member_step.seqno] by simp
  have ping: "probe_ping (pe_env pe) node ?sq ?st1 = ?p"
    by (simp add: probe_ping_def setProbeChannels_def setAckHandler_def)
  obtain r st2 where s: "probe_send pe node ?p ?st1 = Some (r, st2)" and q: "requeued (pe_env pe) ?st1 st2"
    using probe_send_requeued [OF e ok1] by blast
  obtain q' where q': "core st2 = ?m q'" "queue_ok (x_btree (pe_env pe)) q'"
    using q by (auto simp: requeued_def nextSeqNo_def)
  have ok2: "member_ok (pe_env pe) (core st2)" by (rule requeued_ok [OF ok1 q])
  have go: "probeNode pe now rnd obs node st =
      (case r of
         Inl err \<Rightarrow> if failedRemote (send_error pe node ?p err) then probe_indirect pe now rnd obs node ?p 0 st2
             else if s_State node = StateAlive \<and> send_error pe node ?p err = DNSError then Some (apply_health 1 (suspect_it pe now node st2))
             else Some (apply_health 0 st2)
       | Inr _ \<Rightarrow> if o_ack obs then Some (apply_health (-1) st2) else probe_indirect pe now rnd obs node ?p (-1) st2)"
    using s ping by (simp add: probeNode_def nextSeqNo_def split: sum.split)
  have ind: thesis if i: "probe_indirect pe now rnd obs node ?p d st2 = Some st'" and d: "d \<le> 0"
    and r: "\<not> gave_up pe node (ping_of pe node st) r" "\<not> dns_failed pe node (ping_of pe node st) r" "\<not> (r = Inr () \<and> o_ack obs)" for d
  proof -
    obtain contact qq dd where v: "core st' = judged pe now node (\<not> (o_late_ack obs \<or> contact)) dd (core st2\<lparr>broadcasts := qq\<rparr>)"
      "queue_ok (x_btree (pe_env pe)) qq" "o_late_ack obs \<or> contact \<longrightarrow> dd = d" "\<not> (o_late_ack obs \<or> contact) \<longrightarrow> 0 \<le> dd"
      "c_DisableTcpPings pe \<longrightarrow> \<not> contact"
      using probe_indirect_verdict [OF e ok2 i] by blast
    have a: "answered pe node (ping_of pe node st) obs contact r = (o_late_ack obs \<or> contact)" using r by (auto simp: answered_def)
    show thesis by (rule verdict [where r = r and contact = contact and delta = dd and q = qq]) (use v a r d s q'(1) in auto)
  qed
  show thesis
  proof (cases r)
    case (Inr u)
    show thesis
    proof (cases "o_ack obs")
      case True
      then have "core st' = judged pe now node False (-1) (?m q')"
        using go p Inr q'(1) by (simp add: core_apply_health(1) [of _ _ pe now node])
      then show thesis
        using True Inr q'(2) s by (intro verdict [where r = r and contact = False and delta = "-1" and q = q']) (auto simp: answered_def gave_up_def)
    next
      case False
      then show thesis using go p Inr by (intro ind [of "-1"]) (auto simp: gave_up_def dns_failed_def)
    qed
  next
    case (Inl err)
    show thesis
    proof (cases "failedRemote (send_error pe node ?p err)")
      case True
      then show thesis using go p Inl by (intro ind [of 0]) (auto simp: gave_up_def dns_failed_def)
    next
      case False
      show thesis
      proof (cases "gave_up pe node (ping_of pe node st) r")
        case True
        then have "core st' = judged pe now node False 0 (?m q')"
          using go p Inl q'(1) False by (auto simp: gave_up_def core_apply_health(1) [of _ _ pe now node])
        then show thesis
          using True Inl q'(2) s False by (intro verdict [where r = r and contact = False and delta = 0 and q = q']) (auto simp: answered_def dns_failed_def)
      next
        case ng: False
        then have "core st' = judged pe now node True 1 (?m q')"
          using go p Inl q'(1) False by (auto simp: gave_up_def core_apply_health(2))
        then show thesis
          using ng Inl q'(2) s False by (intro verdict [where r = r and contact = False and delta = 1 and q = q']) (auto simp: answered_def dns_failed_def)
      qed
    qed
  qed
qed

lemma probeNode_returns:
  assumes e: "env_ok (pe_env pe)" and ok: "net_ok (pe_net pe) st" and tcp: "c_DisableTcpPings pe"
  shows "\<exists>st'. probeNode pe now rnd obs node st = Some st'"
proof -
  let ?sq = "sequenceNum (core st) + 1"
  let ?st1 = "setProbeChannels ?sq (st\<lparr>core := snd (nextSeqNo (core st))\<rparr>)" and ?p = "probe_ping (pe_env pe) node ?sq st"
  have ok1: "member_ok (pe_env pe) (core ?st1)"
    using member_step_ok [OF e net_ok_core [OF ok] member_step.seqno] by simp
  have ping: "probe_ping (pe_env pe) node ?sq ?st1 = ?p"
    by (simp add: probe_ping_def setProbeChannels_def setAckHandler_def)
  obtain r st2 where s: "probe_send pe node ?p ?st1 = Some (r, st2)" and q: "requeued (pe_env pe) ?st1 st2"
    using probe_send_requeued [OF e ok1] by blast
  have "\<exists>st'. probe_indirect pe now rnd obs node ?p d st2 = Some st'" for d
  proof -
    obtain n st3 where "send_indirect pe node (pi_SeqNo ?p) (probe_peers pe rnd node (core st2)) 0 st2 = Some (n, st3)"
      using send_indirect_requeued [OF e requeued_ok [OF ok1 q]] by metis
    then show ?thesis using tcp by (simp add: probe_indirect_def tcp_fallback_def Let_def)
  qed
  then show ?thesis using s ping by (auto simp: probeNode_def nextSeqNo_def Let_def split: sum.split)
qed

text \<open>The stream fallback reaches nobody: it is off for the node, or every attempt fails.\<close>

definition fallback_silent :: "('t, 'ip) probeenv \<Rightarrow> nodeState \<Rightarrow> ping \<Rightarrow> bool" where
  "fallback_silent pe node p \<longleftrightarrow> (\<forall>st. \<exists>st'. tcp_fallback pe node p st = Some (False, st'))"

lemma fallback_off: "c_DisableTcpPings pe \<Longrightarrow> fallback_silent pe node p"
  by (simp add: fallback_silent_def tcp_fallback_def)

lemma probe_peers_cong: "heap m = heap m' \<Longrightarrow> nodes m = nodes m' \<Longrightarrow> probe_peers pe rnd node m = probe_peers pe rnd node m'"
  by (simp add: probe_peers_def)

lemma probe_indirect_silent:
  assumes e: "env_ok (pe_env pe)" and ok: "member_ok (pe_env pe) (core st)"
    and silent: "\<not> o_late_ack obs" "fallback_silent pe node p"
  shows "\<exists>st' q. probe_indirect pe now rnd obs node p delta st = Some st' \<and>
    core st' = judged pe now node True
      (health_delta (int (length (filter (\<lambda>pr. n_PMax pr \<ge> 4) (probe_peers pe rnd node (core st))))) (o_nacks obs))
      (core st\<lparr>broadcasts := q\<rparr>)"
proof -
  let ?prs = "probe_peers pe rnd node (core st)"
  obtain st1 where s1: "send_indirect pe node (pi_SeqNo p) ?prs 0 st = Some (0 + int (length (filter (\<lambda>pr. n_PMax pr \<ge> 4) ?prs)), st1)"
    and q: "requeued (pe_env pe) st st1"
    using send_indirect_requeued [OF e ok] by blast
  obtain st2 where s2: "tcp_fallback pe node p st1 = Some (False, st2)"
    using silent(2) unfolding fallback_silent_def by blast
  obtain q' where "core st1 = core st\<lparr>broadcasts := q'\<rparr>" using q by (auto simp: requeued_def)
  then have "core st2 = core st\<lparr>broadcasts := q'\<rparr>" using tcp_fallback_core [OF s2] by simp
  then show ?thesis using s1 s2 silent(1) by (auto simp: probe_indirect_def Let_def core_apply_health(2))
qed

lemma probe_silent:
  assumes e: "env_ok (pe_env pe)" and ok: "net_ok (pe_net pe) st"
    and silent: "\<not> o_ack obs" "\<not> o_late_ack obs" "fallback_silent pe node (ping_of pe node st)"
    and sent: "\<And>res st2. probe_send pe node (ping_of pe node st)
       (setProbeChannels (sequenceNum (core st) + 1) (st\<lparr>core := snd (nextSeqNo (core st))\<rparr>)) = Some (res, st2) \<Longrightarrow>
       \<not> dns_failed pe node (ping_of pe node st) res"
  shows "\<exists>st' q. probeNode pe now rnd obs node st = Some st' \<and>
    core st' = judged pe now node True
      (health_delta (int (length (filter (\<lambda>pr. n_PMax pr \<ge> 4) (probe_peers pe rnd node (core st))))) (o_nacks obs))
      (core st\<lparr>sequenceNum := sequenceNum (core st) + 1, broadcasts := q\<rparr>)"
proof -
  let ?sq = "sequenceNum (core st) + 1"
  let ?st1 = "setProbeChannels ?sq (st\<lparr>core := snd (nextSeqNo (core st))\<rparr>)" and ?p = "ping_of pe node st"
  have ok1: "member_ok (pe_env pe) (core ?st1)"
    using member_step_ok [OF e net_ok_core [OF ok] member_step.seqno] by simp
  have ping: "probe_ping (pe_env pe) node ?sq ?st1 = ?p"
    by (simp add: probe_ping_def setProbeChannels_def setAckHandler_def)
  obtain res st2 where s: "probe_send pe node ?p ?st1 = Some (res, st2)" and q: "requeued (pe_env pe) ?st1 st2"
    using probe_send_requeued [OF e ok1] by blast
  obtain q' where q': "core st2 = core st\<lparr>sequenceNum := ?sq, broadcasts := q'\<rparr>"
    using q by (auto simp: requeued_def nextSeqNo_def)
  have go: "\<exists>d. probeNode pe now rnd obs node st = probe_indirect pe now rnd obs node ?p d st2"
    using s ping sent [OF s] silent(1) by (auto simp: probeNode_def nextSeqNo_def dns_failed_def split: sum.splits)
  have "probe_peers pe rnd node (core st2) = probe_peers pe rnd node (core st)"
    by (rule probe_peers_cong) (simp_all add: q')
  with go probe_indirect_silent [OF e requeued_ok [OF ok1 q] silent(2,3), of now rnd] q' show ?thesis
    by fastforce
qed

lemma suspect_alive:
  assumes "nodeMap m nm = Some r" and "heap m r = node" and "s_State node = StateAlive" and "nm \<noteq> c_Name env"
    and "s_Name node = nm" and "nodeTimers m nm = None"
  shows "s_State (heap (suspectNode env now (self_suspect env node) m) r) = StateSuspect"
    "s_Incarnation (heap (suspectNode env now (self_suspect env node) m) r) = s_Incarnation node"
    "nodeTimers (suspectNode env now (self_suspect env node) m) nm = Some (nextTimer m)"
    "m_awareness (suspectNode env now (self_suspect env node) m) = m_awareness m"
proof -
  let ?s = "self_suspect env node"
  let ?m1 = "new_timer env now ?s (upd_node r (\<lambda>t. t\<lparr>s_Incarnation := su_Incarnation ?s, s_State := StateSuspect,
              s_StateChange := now\<rparr>) (encodeBroadcastNotify env (su_Node ?s) suspectMsg (Suspect ?s) None m))"
  have e: "suspectNode env now ?s m = (if c_Events env
      then notify_ev (NotifySuspectSateChange (s_Node (heap (sync_node_state r ?m1) r))) (sync_node_state r ?m1) else ?m1)"
    using assms by (simp add: suspectNode_def self_suspect_def encodeAndBroadcast_def Let_def)
  have f: "s_State (heap ?m1 r) = StateSuspect" "s_Incarnation (heap ?m1 r) = s_Incarnation node"
    "nodeTimers ?m1 nm = Some (nextTimer m)" "m_awareness ?m1 = m_awareness m"
    using assms(5) by (simp_all add: self_suspect_def)
  show "s_State (heap (suspectNode env now ?s m) r) = StateSuspect"
    "s_Incarnation (heap (suspectNode env now ?s m) r) = s_Incarnation node"
    "nodeTimers (suspectNode env now ?s m) nm = Some (nextTimer m)"
    "m_awareness (suspectNode env now ?s m) = m_awareness m"
    unfolding e using f by (simp_all add: same_entryD [OF same_entry_sync])
qed

lemma ApplyDelta_mono: "awareness_ok a \<Longrightarrow> 0 \<le> d \<Longrightarrow> GetHealthScore a \<le> GetHealthScore (ApplyDelta a d)"
  "awareness_ok a \<Longrightarrow> d \<le> 0 \<Longrightarrow> GetHealthScore (ApplyDelta a d) \<le> GetHealthScore a"
  by (auto simp: ApplyDelta_def GetHealthScore_def awareness_ok_def Let_def)

section \<open>Gossip\<close>

text \<open>What was sent to whom between two states.\<close>

definition sent_between :: "'t netstate \<Rightarrow> 't netstate \<Rightarrow> (Address \<times> bytes) list" where
  "sent_between st st' = drop (length (wire st)) (wire st')"

lemma sent_betweenI: "wire st' = wire st @ w \<Longrightarrow> sent_between st st' = w"
  by (simp add: sent_between_def)

lemma rawSend_direct:
  assumes "(a', pkt) \<in> set (sent_between st (snd (rawSendMsgPacket ne a (Some nd) msg st)))" and "keys_sound ne st"
    and len: "int (length msg) + (if EncryptionEnabled st then the (encryptOverhead (encryptionVersion ne)) else 0) \<le> n"
  shows "a' = a \<and> int (length pkt) \<le> n + 5"
proof -
  let ?m = "add_crc (Some nd) (compress_packet ne msg)"
  have m: "int (length ?m) \<le> int (length msg) + 5"
    using length_add_crc [of "Some nd" "compress_packet ne msg"] length_compress_packet [of ne msg] by simp
  have a: "a' = a" and w: "if EncryptionEnabled st \<and> c_GossipVerifyOutgoing ne
      then \<exists>k p. keyring st = Some k \<and> GetPrimaryKey k = Some p \<and>
        encryptPayload (x_aead ne) (x_nonce ne (calls st)) (encryptionVersion ne) p ?m [] [] = Inr pkt
      else pkt = ?m"
    using assms(1)
    by (auto simp: sent_between_def rawSendMsgPacket_def Let_def split: if_splits option.splits sum.splits)
  show ?thesis
  proof (cases "EncryptionEnabled st \<and> c_GossipVerifyOutgoing ne")
    case True
    then obtain k p where "keyring st = Some k" "GetPrimaryKey k = Some p"
      "encryptPayload (x_aead ne) (x_nonce ne (calls st)) (encryptionVersion ne) p ?m [] [] = Inr pkt"
      using w by auto
    from encrypted_size [OF assms(2) this] obtain ov where "encryptOverhead (encryptionVersion ne) = Some ov"
      "int (length pkt) \<le> int (length ?m) + ov" by blast
    then show ?thesis using m a len True by simp
  next
    case False
    then have "int (length pkt) = int (length ?m)" using w by simp
    moreover have "0 \<le> the (encryptOverhead (encryptionVersion ne))" by (simp add: encryptOverhead_def encryptionVersion_def)
    ultimately show ?thesis using m a len by (simp split: if_splits)
  qed
qed

lemma gossip_message_fits:
  assumes "msgs \<noteq> []" and "sum_list (map (\<lambda>m. int (length m) + 2) msgs) \<le> avail"
  shows "int (length (if length msgs = 1 then hd msgs else makeCompoundMessage msgs)) \<le> avail + 2"
  using assms length_makeCompoundMessage [of msgs] by (cases msgs) auto

lemma keyring_frames:
  "keyring st' = keyring st \<Longrightarrow> EncryptionEnabled st' = EncryptionEnabled st"
  "keyring st' = keyring st \<Longrightarrow> keys_sound ne st' = keys_sound ne st"
  by (simp_all add: EncryptionEnabled_def keys_sound_def)

lemma gossip_to_sends:
  assumes e: "env_ok (ne_env ne)" and d: "delegate_fits ne"
  shows "member_ok (ne_env ne) (core st) \<Longrightarrow> keys_sound ne st \<Longrightarrow> gossip_room ne st = Some avail \<Longrightarrow>
    \<exists>st'. gossip_to ne avail ks st = Some st' \<and> member_ok (ne_env ne) (core st') \<and> wire st' = wire st @ sent_between st st' \<and>
      length (sent_between st st') \<le> length ks \<and>
      (\<forall>(a, pkt) \<in> set (sent_between st st'). a \<in> FullAddress ` set ks \<and> int (length pkt) \<le> c_UDPBufferSize ne + 5)"
proof (induction ks arbitrary: st)
  case (Cons nd ks)
  obtain msgs q n where g: "getBroadcasts ne compoundOverhead avail st = Some (msgs, st\<lparr>core := core st\<lparr>broadcasts := q\<rparr>, calls := n\<rparr>)"
    and q: "queue_ok (x_btree (ne_env ne)) q"
    using getBroadcasts_result [OF e Cons.prems(1)] by (metis zero_le_numeral)
  let ?st1 = "st\<lparr>core := core st\<lparr>broadcasts := q\<rparr>, calls := n\<rparr>"
  have ok1: "member_ok (ne_env ne) (core ?st1)" using member_ok_fetch [OF Cons.prems(1) q] by simp
  show ?case
  proof (cases "msgs = []")
    case True
    then have "gossip_to ne avail (nd # ks) st = Some ?st1" using g by simp
    then show ?thesis using ok1 by (intro exI [of _ ?st1]) (simp add: sent_between_def)
  next
    case False
    let ?buf = "if length msgs = 1 then hd msgs else makeCompoundMessage msgs"
    let ?st2 = "snd (rawSendMsgPacket ne (FullAddress nd) (Some nd) ?buf ?st1)"
    have k: "keyring ?st1 = keyring st" "keyring ?st2 = keyring st" by (simp_all add: rawSend_state)
    have ks1: "keys_sound ne ?st1" "keys_sound ne ?st2" using Cons.prems(2) keyring_frames(2) [OF k(1)] keyring_frames(2) [OF k(2)] by blast+
    have room: "avail + 2 + (if EncryptionEnabled st then the (encryptOverhead (encryptionVersion ne)) else 0) = c_UDPBufferSize ne"
      using Cons.prems(3) by (auto simp: gossip_room_def Let_def split: if_splits)
    have fit: "int (length ?buf) \<le> avail + 2"
      using gossip_message_fits [OF False] getBroadcasts_fits [OF e Cons.prems(1) d g] False by simp
    have here: "a = FullAddress nd \<and> int (length pkt) \<le> c_UDPBufferSize ne + 5" if "(a, pkt) \<in> set (sent_between ?st1 ?st2)" for a pkt
      using rawSend_direct [OF that ks1(1), of "c_UDPBufferSize ne"] fit room unfolding keyring_frames(1) [OF k(1)] by linarith
    obtain w where w: "wire ?st2 = wire st @ w" using rawSend_state(1) [of ne "FullAddress nd" "Some nd" ?buf ?st1] by auto
    then have sb: "sent_between ?st1 ?st2 = w" by (simp add: sent_between_def)
    have one: "length w \<le> 1" using w by (auto simp: rawSendMsgPacket_def Let_def split: if_splits option.splits sum.splits)
    have "gossip_room ne ?st2 = Some avail" using Cons.prems(3) keyring_frames(1) [OF k(2)] by (simp add: gossip_room_def)
    moreover have "member_ok (ne_env ne) (core ?st2)" using ok1 by (simp add: rawSend_state)
    ultimately obtain st3 where st3: "gossip_to ne avail ks ?st2 = Some st3" "member_ok (ne_env ne) (core st3)"
      "wire st3 = wire ?st2 @ sent_between ?st2 st3" "length (sent_between ?st2 st3) \<le> length ks"
      "\<forall>(a, pkt) \<in> set (sent_between ?st2 st3). a \<in> FullAddress ` set ks \<and> int (length pkt) \<le> c_UDPBufferSize ne + 5"
      using Cons.IH [OF _ ks1(2)] by blast
    have "wire st3 = wire st @ (w @ sent_between ?st2 st3)" using st3(3) w by simp
    then have total: "sent_between st st3 = w @ sent_between ?st2 st3" by (rule sent_betweenI)
    have "gossip_to ne avail (nd # ks) st = Some st3" using g False st3(1) by (simp add: Let_def)
    moreover have "\<forall>(a, pkt) \<in> set (sent_between st st3). a \<in> FullAddress ` set (nd # ks) \<and> int (length pkt) \<le> c_UDPBufferSize ne + 5"
      unfolding total using here sb st3(5) by fastforce
    ultimately show ?thesis using st3(2,3,4) w total one by (intro exI [of _ st3]) simp
  qed
qed (simp add: sent_between_def)

section \<open>Rounding\<close>

lemma math_Round_mono: "0 \<le> x \<Longrightarrow> x \<le> y \<Longrightarrow> math_Round x \<le> math_Round y"
  by (simp add: math_Round_def floor_mono)

lemma math_Round_int: "math_Round (real_of_int n) = n"
  by (simp add: math_Round_def floor_unique)

section \<open>Properties\<close>

text \<open>
  C12. Probing is round robin and never stops: while nothing else changes the table, the next probes choose, one
  each and in list order, the nodes from the probe index on that are neither the local node nor dead or
  left; then, after at most one probe that chooses nobody, the list is reset and the probes choose every
  such node of the whole table exactly once, in the new order.
\<close>

theorem probe_round_robin:
  assumes "table_ok m"
  shows "\<exists>w L. w \<le> 1 \<and> mset L = mset (live_others env m) \<and>
    fst (probe_round env now draw (length (to_probe env m) + (w + length L)) m) =
      map Some (to_probe env m) @ replicate w None @ map Some L"
proof -
  obtain i where m2: "probe_round env now draw (length (to_probe env m)) m = (map Some (to_probe env m), m\<lparr>probeIndex := i\<rparr>)"
    "to_probe env (m\<lparr>probeIndex := i\<rparr>) = []"
    using probe_round_goes_on [OF refl] by blast
  let ?m2 = "m\<lparr>probeIndex := i\<rparr>"
  have "\<exists>w L. w \<le> 1 \<and> mset L = mset (live_others env m) \<and>
      fst (probe_round env now draw (w + length L) ?m2) = replicate w None @ map Some L"
  proof (cases "live_others env m = []")
    case True
    then show ?thesis by (intro exI [of _ 0] exI [of _ "[]"]) simp
  next
    case False
    then have "i \<noteq> 0" "0 < length (nodes m)" using m2(2) by (cases i; auto simp: to_probe_def live_others_def)+
    then obtain i' d where w: "probe_pick env now draw 0 ?m2 =
        probe_pick env now draw d ((resetNodes env now (draw (d - 1)) (m\<lparr>probeIndex := i'\<rparr>))\<lparr>probeIndex := 0\<rparr>)"
      (is "_ = probe_pick _ _ _ _ ?m3")
      using probe_pick_wraps [where c = 0 and now = now and draw = draw, OF m2(2)] by auto
    have "table_ok (m\<lparr>probeIndex := i'\<rparr>)" using assms by (simp add: table_ok_def)
    then have L: "mset (to_probe env ?m3) = mset (live_others env m)"
      using live_others_reset [of "m\<lparr>probeIndex := i'\<rparr>" env now "draw (d - 1)"] by (simp add: to_probe_def live_others_def)
    then obtain y ys where y: "to_probe env ?m3 = y # ys" using False by (cases "to_probe env ?m3") auto
    obtain k r where k: "probe_pick env now draw d ?m3 = (r, ?m3\<lparr>probeIndex := k\<rparr>)"
      "r = Some y \<and> to_probe env (?m3\<lparr>probeIndex := k\<rparr>) = ys \<or> r = None \<and> to_probe env (?m3\<lparr>probeIndex := k\<rparr>) = y # ys"
      using probe_pick_or_waits [OF y] by blast
    have go: "fst (probe_round env now draw (Suc n) ?m2) = r # fst (probe_round env now draw n (?m3\<lparr>probeIndex := k\<rparr>))" for n
      using w k(1) by (simp split: prod.split)
    have round: "fst (probe_round env now draw (length xs) (?m3\<lparr>probeIndex := k\<rparr>)) = map Some xs" if "to_probe env (?m3\<lparr>probeIndex := k\<rparr>) = xs" for xs
      using probe_round_goes_on [OF that, of now draw] by auto
    from k(2) show ?thesis
    proof
      assume "r = Some y \<and> to_probe env (?m3\<lparr>probeIndex := k\<rparr>) = ys"
      then show ?thesis using go [of "length ys"] round [of ys] L y
        by (intro exI [of _ 0] exI [of _ "y # ys"]) (simp del: probe_round.simps)
    next
      assume "r = None \<and> to_probe env (?m3\<lparr>probeIndex := k\<rparr>) = y # ys"
      then show ?thesis using go [of "length (y # ys)"] round [of "y # ys"] L y
        by (intro exI [of _ 1] exI [of _ "y # ys"]) (simp del: probe_round.simps)
    qed
  qed
  then show ?thesis using m2(1) by (auto simp: probe_round_append)
qed

text \<open>
  C11. Silence is detected: when a probe of an alive node of the table gets its ping out (or
  fails at the remote end), no ack arrives in time and the stream fallback is off or reaches nobody, the probe
  returns, the node is suspect at its incarnation with a suspicion timer, and the health score, within its
  range, has gone up by the number of nacks that are missing from the chosen peers that speak protocol 4 (which
  may be none), or by one when no such peer was chosen.
\<close>

theorem probe_silence_suspects:
  assumes e: "env_ok (pe_env pe)" and ok: "net_ok (pe_net pe) st"
    and entry: "nodeMap (core st) nm = Some r" "heap (core st) r = node" "s_State node = StateAlive" "nm \<noteq> c_Name (pe_env pe)"
      "nodeTimers (core st) nm = None"
    and silent: "\<not> o_ack obs" "\<not> o_late_ack obs" "fallback_silent pe node (ping_of pe node st)"
    and sent: "\<And>res st2. probe_send pe node (probe_ping (pe_env pe) node (sequenceNum (core st) + 1) st)
       (setProbeChannels (sequenceNum (core st) + 1) (st\<lparr>core := snd (nextSeqNo (core st))\<rparr>)) = Some (res, st2) \<Longrightarrow>
       \<not> dns_failed pe node (ping_of pe node st) res"
    and expected: "expected = int (length (filter (\<lambda>pr. n_PMax pr \<ge> 4) (probe_peers pe rnd node (core st))))"
  shows "\<exists>st'. probeNode pe now rnd obs node st = Some st' \<and>
     s_State (heap (core st') r) = StateSuspect \<and> s_Incarnation (heap (core st') r) = s_Incarnation node \<and>
     nodeTimers (core st') nm \<noteq> None \<and>
     GetHealthScore (m_awareness (core st')) =
       min (GetHealthScore (m_awareness (core st)) + (if expected = 0 then 1 else max 0 (expected - int (o_nacks obs))))
         (amax (m_awareness (core st)) - 1)"
proof -
  have "\<exists>st' q. probeNode pe now rnd obs node st = Some st' \<and>
      core st' = judged pe now node True (health_delta expected (o_nacks obs))
        (core st\<lparr>sequenceNum := sequenceNum (core st) + 1, broadcasts := q\<rparr>)"
    unfolding expected by (rule probe_silent [OF e ok silent]) (rule sent)
  then obtain st' q where p: "probeNode pe now rnd obs node st = Some st'"
    and c: "core st' = judged pe now node True (health_delta expected (o_nacks obs))
      (core st\<lparr>sequenceNum := sequenceNum (core st) + 1, broadcasts := q\<rparr>)" (is "_ = judged _ _ _ _ _ ?m")
    by blast
  let ?m2 = "suspectNode (pe_env pe) now (self_suspect (pe_env pe) node) ?m"
  have nm: "s_Name node = nm" using table_okD(3) [OF member_okD(1) [OF net_ok_core [OF ok]] entry(1)] entry(2) by simp
  have "nodeMap ?m nm = Some r" "heap ?m r = node" "nodeTimers ?m nm = None" using entry by simp_all
  note sus = suspect_alive [OF this(1,2) entry(3,4) nm this(3), of now]
  have st': "core st' = ?m2\<lparr>m_awareness := ApplyDelta (m_awareness (core st)) (health_delta expected (o_nacks obs))\<rparr>"
    using c sus(4) by (simp add: judged_def)
  have "awareness_ok (m_awareness (core st))" "0 \<le> expected"
    using member_okD(4) [OF net_ok_core [OF ok]] expected by simp_all
  then have "GetHealthScore (ApplyDelta (m_awareness (core st)) (health_delta expected (o_nacks obs))) =
      min (GetHealthScore (m_awareness (core st)) + (if expected = 0 then 1 else max 0 (expected - int (o_nacks obs))))
        (amax (m_awareness (core st)) - 1)"
    by (simp add: awareness_ok_def score_ApplyDelta GetHealthScore_def health_delta_def)
  then show ?thesis using sus(1-3) p unfolding st' by (intro exI [of _ st']) (simp add: st')
qed

definition demo_probe :: "wire_msg list \<Rightarrow> (limitedBroadcast list, nat) probeenv" where
  "demo_probe ms = \<lparr>pe_strm = demo_strm ms, c_IndirectChecks = 3, c_DisableTcpPings = True, c_DisableTcpPingsForNode = None,
     c_GossipNodes = 3, c_AwarenessMaxMultiplier = 8, x_error = (\<lambda>_. OpError ''tcp'' ''dial'')\<rparr>"

lemma demo_probe_simps [simp]:
  "pe_strm (demo_probe ms) = demo_strm ms" "c_DisableTcpPings (demo_probe ms)" "c_GossipNodes (demo_probe ms) = 3"
  "s_State node = StateAlive \<Longrightarrow> \<not> gave_up (demo_probe ms) node p r" "s_State node = StateAlive \<Longrightarrow> \<not> dns_failed (demo_probe ms) node p r"
  by (simp_all add: demo_probe_def gave_up_def dns_failed_def failedRemote_def send_error_def encode_failed_def split: sum.split)

lemma demo_probed:
  "\<exists>m. net_ok (demo_net ms 1400) (demo_node m ring) \<and> nodeMap m ''n1'' = Some 1 \<and> s_State (heap m 1) = StateAlive \<and>
     nodeTimers m ''n1'' = None"
proof -
  obtain m where m: "member_reach (demo_env ms) 8 m" "nodeMap m = [''me'' \<mapsto> 0, ''n1'' \<mapsto> 1]" "s_State (heap m 1) = StateAlive"
    "nodeTimers m = Map.empty" using demo_two by blast
  have "1 \<le> (8::int)" by simp
  from member_reach_ok [OF demo_env_ok this m(1)] have "net_ok (demo_net ms 1400) (demo_node m ring)" by (simp add: net_ok_def)
  then show ?thesis using m by (intro exI [of _ m]) simp
qed

theorem probe_round_robin_witness:
  "\<exists>m w L. member_reach (demo_env []) 8 m \<and> w \<le> 1 \<and> heap m 1 \<in> set L \<and> s_Name (heap m 1) = ''n1'' \<and>
     fst (probe_round (demo_env []) 5 (\<lambda>_ i. i) (length (to_probe (demo_env []) m) + (w + length L)) m) =
       map Some (to_probe (demo_env []) m) @ replicate w None @ map Some L"
proof -
  obtain m where m: "member_reach (demo_env []) 8 m" "nodeMap m = [''me'' \<mapsto> 0, ''n1'' \<mapsto> 1]" "s_State (heap m 1) = StateAlive"
    "s_Name (heap m 1) = ''n1''" using demo_two by blast
  have "member_ok (demo_env []) m" by (rule member_reach_ok [OF demo_env_ok _ m(1)]) simp
  then have t: "table_ok m" by (rule member_okD(1))
  have "nodeMap m ''n1'' = Some 1" by (simp add: m(2))
  then have "1 \<in> set (nodes m)" unfolding table_okD(2) [OF t] by (rule ranI)
  then have "heap m 1 \<in> set (live_others (demo_env []) m)"
    using m(3,4) by (auto simp: live_others_def skip_probe_def DeadOrLeft_def)
  moreover obtain w L where w: "w \<le> 1" "mset L = mset (live_others (demo_env []) m)"
    "fst (probe_round (demo_env []) 5 (\<lambda>_ i. i) (length (to_probe (demo_env []) m) + (w + length L)) m) =
       map Some (to_probe (demo_env []) m) @ replicate w None @ map Some L"
    using probe_round_robin [OF t, of "demo_env []" 5 "\<lambda>_ i. i"] by blast
  ultimately have "heap m 1 \<in> set L" using mset_eq_setD [OF w(2)] by simp
  then show ?thesis using w(1,3) m(1,4) by blast
qed

theorem probe_silence_suspects_witness:
  "\<exists>st st'. probeNode (demo_probe []) 5 (\<lambda>_. 0) \<lparr>o_ack = False, o_late_ack = False, o_nacks = 0\<rparr> (heap (core st) 1) st = Some st' \<and>
     s_State (heap (core st) 1) = StateAlive \<and> s_State (heap (core st') 1) = StateSuspect"
proof -
  obtain m where m: "net_ok (demo_net [] 1400) (demo_node m None)" "nodeMap m ''n1'' = Some 1" "s_State (heap m 1) = StateAlive"
    "nodeTimers m ''n1'' = None" using demo_probed [of "[]" None] by blast
  let ?obs = "\<lparr>o_ack = False, o_late_ack = False, o_nacks = 0\<rparr>" and ?st = "demo_node m None"
  let ?expected = "int (length (filter (\<lambda>pr. n_PMax pr \<ge> 4) (probe_peers (demo_probe []) (\<lambda>_. 0) (heap m 1) (core ?st))))"
  have "\<exists>st'. probeNode (demo_probe []) 5 (\<lambda>_. 0) ?obs (heap m 1) ?st = Some st' \<and>
     s_State (heap (core st') 1) = StateSuspect \<and> s_Incarnation (heap (core st') 1) = s_Incarnation (heap m 1) \<and>
     nodeTimers (core st') ''n1'' \<noteq> None \<and>
     GetHealthScore (m_awareness (core st')) =
       min (GetHealthScore (m_awareness (core ?st)) + (if ?expected = 0 then 1 else max 0 (?expected - int (o_nacks ?obs))))
         (amax (m_awareness (core ?st)) - 1)"
    by (rule probe_silence_suspects [OF _ _ _ _ _ _ _ _ _ _ _ refl])
      (use m demo_env_ok [of "[]"] fallback_off [of "demo_probe []"] in simp_all)
  then obtain st' where "probeNode (demo_probe []) 5 (\<lambda>_. 0) ?obs (heap m 1) ?st = Some st'"
    "s_State (heap (core st') 1) = StateSuspect" by blast
  then show ?thesis using m(3) by (intro exI [of _ ?st] exI [of _ st']) simp
qed

text \<open>
  An answer clears: when the ping was sent and the ack came in time, or any later ack came
  and the ping had not failed locally, the probe changes no entry of the table, starts no
  suspicion, and the health score does not get worse.
\<close>

theorem probe_answer_clears:
  assumes e: "env_ok (pe_env pe)" and ok: "net_ok (pe_net pe) st" and p: "probeNode pe now rnd obs node st = Some st'"
    and ack: "\<And>res st2. probe_send pe node (probe_ping (pe_env pe) node (sequenceNum (core st) + 1) st)
       (setProbeChannels (sequenceNum (core st) + 1) (st\<lparr>core := snd (nextSeqNo (core st))\<rparr>)) = Some (res, st2) \<Longrightarrow>
       res = Inr () \<and> o_ack obs \<or> \<not> dns_failed pe node (ping_of pe node st) res \<and> o_late_ack obs"
  shows "heap (core st') = heap (core st) \<and> nodes (core st') = nodes (core st) \<and> nodeMap (core st') = nodeMap (core st) \<and>
     nodeTimers (core st') = nodeTimers (core st) \<and> GetHealthScore (m_awareness (core st')) \<le> GetHealthScore (m_awareness (core st))"
proof -
  obtain res contact q delta where v: "core st' = judged pe now node (\<not> (gave_up pe node (ping_of pe node st) res \<or> answered pe node (ping_of pe node st) obs contact res)) delta
       (core st\<lparr>sequenceNum := sequenceNum (core st) + 1, broadcasts := q\<rparr>)"
    and delta: "answered pe node (ping_of pe node st) obs contact res \<Longrightarrow> delta \<le> 0"
    and s: "\<exists>st2. probe_send pe node (probe_ping (pe_env pe) node (sequenceNum (core st) + 1) st)
       (setProbeChannels (sequenceNum (core st) + 1) (st\<lparr>core := snd (nextSeqNo (core st))\<rparr>)) = Some (res, st2)"
    by (rule probeNode_verdict [OF e ok p], rule that) blast+
  have a: "answered pe node (ping_of pe node st) obs contact res" using ack s by (auto simp: answered_def)
  have "GetHealthScore (ApplyDelta (m_awareness (core st)) delta) \<le> GetHealthScore (m_awareness (core st))"
    by (rule ApplyDelta_mono(2) [OF member_okD(4) [OF net_ok_core [OF ok]] delta [OF a]])
  then show ?thesis using v a by (simp add: judged_def Let_def)
qed

theorem probe_answer_clears_witness:
  "\<exists>st st'. probeNode (demo_probe []) 5 (\<lambda>_. 0) \<lparr>o_ack = False, o_late_ack = True, o_nacks = 0\<rparr> (heap (core st) 1) st = Some st' \<and>
     s_State (heap (core st) 1) = StateAlive \<and> heap (core st') = heap (core st)"
proof -
  obtain m where m: "net_ok (demo_net [] 1400) (demo_node m None)" "s_State (heap m 1) = StateAlive"
    using demo_probed [of "[]" None] by blast
  let ?obs = "\<lparr>o_ack = False, o_late_ack = True, o_nacks = 0\<rparr>"
  obtain st' where p: "probeNode (demo_probe []) 5 (\<lambda>_. 0) ?obs (heap m 1) (demo_node m None) = Some st'"
    using probeNode_returns [of "demo_probe []" "demo_node m None" 5 "\<lambda>_. 0" ?obs "heap m 1"] m(1) demo_env_ok [of "[]"] by auto
  have "heap (core st') = heap (core (demo_node m None))"
    using probe_answer_clears [OF _ _ p] m demo_env_ok [of "[]"] by simp
  then show ?thesis using p m(2) by (intro exI [of _ "demo_node m None"] exI [of _ st']) simp
qed

text \<open>
  C34. Gossip is bounded: one round returns, keeps the membership state well-formed, sends at most
  \<open>GossipNodes\<close> packets, each to a node that is alive, suspect or only recently dead and not
  the local one, and no packet is longer than \<open>UDPBufferSize\<close> plus the five bytes of a checksum.
\<close>

theorem gossip_bounded:
  assumes e: "env_ok (pe_env pe)" and ok: "member_ok (pe_env pe) (core st)" and d: "delegate_fits (pe_net pe)"
    and k: "keys_sound (pe_net pe) st"
  shows "\<exists>st'. gossip pe now rnd st = Some st' \<and> member_ok (pe_env pe) (core st') \<and>
     wire st' = wire st @ sent_between st st' \<and> length (sent_between st st') \<le> c_GossipNodes pe \<and>
     (\<forall>(a, pkt) \<in> set (sent_between st st').
        int (length pkt) \<le> c_UDPBufferSize (pe_net pe) + 5 \<and>
        (\<exists>r \<in> set (nodes (core st)). a = FullAddress (s_Node (heap (core st) r)) \<and> \<not> gossip_excluded (pe_env pe) now (heap (core st) r)))"
proof -
  let ?ks = "gossip_peers pe now rnd st"
  obtain avail where av: "gossip_room (pe_net pe) st = Some avail"
    using encryptOverhead_known [of "pe_net pe"] by (cases "EncryptionEnabled st") (auto simp: gossip_room_def Let_def)
  obtain st' where st': "gossip_to (pe_net pe) avail ?ks st = Some st'" "member_ok (pe_env pe) (core st')"
      "wire st' = wire st @ sent_between st st'" "length (sent_between st st') \<le> length ?ks"
      "\<forall>(a, pkt) \<in> set (sent_between st st'). a \<in> FullAddress ` set ?ks \<and> int (length pkt) \<le> c_UDPBufferSize (pe_net pe) + 5"
    using gossip_to_sends [OF e d ok k av] by blast
  have "length ?ks \<le> c_GossipNodes pe" "nd \<in> set ?ks \<Longrightarrow> \<exists>r \<in> set (nodes (core st)). nd = s_Node (heap (core st) r) \<and>
      \<not> gossip_excluded (pe_env pe) now (heap (core st) r)" for nd
    using kRandomNodes_spec [OF gossip_peers_def [of pe now rnd st]] by blast+
  then show ?thesis using st' av by (intro exI [of _ st']) (fastforce simp: gossip_def)
qed

text \<open>A node whose delegate always has one byte to send.\<close>

definition demo_gossip :: "(limitedBroadcast list, nat) probeenv" where
  "demo_gossip = (demo_probe [])\<lparr>pe_strm := (demo_strm [])\<lparr>se_net := (demo_net [] 1400)\<lparr>c_Delegate := True,
     x_GetBroadcasts := (\<lambda>_ overhead limit. if overhead + 1 \<le> limit then [[7]] else [])\<rparr>\<rparr>, c_GossipNodes := 1\<rparr>"

lemma kRandom_loop_keeps: "acc \<noteq> [] \<Longrightarrow> kRandom_loop k hp exclude xs rnds acc \<noteq> []"
  by (induction k hp exclude xs rnds acc rule: kRandom_loop.induct) (auto simp: Let_def)

lemma kRandom_loop_finds:
  "rnd \<in> set rnds \<Longrightarrow> \<not> exclude (hp (xs ! randomOffset (length xs) rnd)) \<Longrightarrow> 0 < k \<Longrightarrow> kRandom_loop k hp exclude xs rnds [] \<noteq> []"
  by (induction rnds) (auto simp: Let_def kRandom_loop_keeps)

lemma gossip_peers_found:
  assumes "r \<in> set (nodes (core st))" and "length (nodes (core st)) = 2" and "\<not> gossip_excluded (pe_env pe) now (heap (core st) r)"
    and "0 < c_GossipNodes pe"
  shows "gossip_peers pe now of_nat st \<noteq> []"
proof -
  obtain j where j: "j < 2" "nodes (core st) ! j = r" using assms(1,2) by (metis in_set_conv_nth)
  then have "randomOffset 2 (of_nat j) = j" by (cases j) (auto simp: randomOffset_def less_Suc_eq numeral_2_eq_2)
  moreover have "of_nat j \<in> (of_nat ` {0..<6} :: u32 set)" using j(1) by auto
  ultimately show ?thesis
    using assms j(2) unfolding gossip_peers_def kRandomNodes_def by (intro kRandom_loop_finds [of "of_nat j"]) auto
qed

theorem gossip_bounded_witness:
  "\<exists>st st' a pkt. gossip demo_gossip 5 of_nat st = Some st' \<and> sent_between st st' = [(a, pkt)] \<and> int (length pkt) \<le> 1405"
proof -
  obtain m where m: "member_reach (demo_env []) 8 m" "nodeMap m = [''me'' \<mapsto> 0, ''n1'' \<mapsto> 1]" "s_State (heap m 1) = StateAlive"
    "s_Name (heap m 1) = ''n1''" using demo_two by blast
  let ?m = "m\<lparr>broadcasts := empty_queue 4\<rparr>" and ?ne = "pe_net demo_gossip"
  let ?st = "demo_node ?m None"
  have q: "queue_ok list_btree (empty_queue 4)" by (rule queue_ok_empty [OF list_btree_laws])
  have ok0: "member_ok (demo_env []) m" by (rule member_reach_ok [OF demo_env_ok _ m(1)]) simp
  then have ok: "member_ok (pe_env demo_gossip) (core ?st)" using member_ok_fetch [OF ok0] q by (simp add: demo_gossip_def)
  have "delegate_fits ?ne" "keys_sound ?ne ?st" "env_ok (pe_env demo_gossip)"
    by (simp_all add: delegate_fits_def demo_gossip_def keys_sound_def tag_cipher_laws demo_env_ok)
  from gossip_bounded [OF this(3) ok this(1,2), of 5 of_nat]
  obtain st' where g: "gossip demo_gossip 5 of_nat ?st = Some st'" "length (sent_between ?st st') \<le> 1"
    "\<forall>(a, pkt) \<in> set (sent_between ?st st'). int (length pkt) \<le> 1405"
    by (fastforce simp: demo_gossip_def)
  have t: "table_ok m" by (rule member_okD(1) [OF ok0])
  have "ran [''me'' \<mapsto> 0::nat, ''n1'' \<mapsto> 1] = {0, 1}" by (simp add: insert_commute)
  then have "set (nodes m) = {0, 1}" using table_okD(2) [OF t] m(2) by simp
  then have "1 \<in> set (nodes m)" "length (nodes m) = 2" using distinct_card [OF table_okD(1) [OF t]] by simp_all
  then have "gossip_peers demo_gossip 5 of_nat ?st \<noteq> []"
    using m(3,4) by (intro gossip_peers_found [of 1]) (auto simp: demo_gossip_def gossip_excluded_def)
  then obtain nd ks where p: "gossip_peers demo_gossip 5 of_nat ?st = nd # ks" by (cases "gossip_peers demo_gossip 5 of_nat ?st") auto
  have "length (gossip_peers demo_gossip 5 of_nat ?st) \<le> 1"
    using kRandomNodes_spec(1) [OF gossip_peers_def [of demo_gossip 5 of_nat ?st]] by (simp add: demo_gossip_def)
  then have one: "gossip_peers demo_gossip 5 of_nat ?st = [nd]" using p by simp
  have off: "\<not> EncryptionEnabled ?st" by (simp add: EncryptionEnabled_def)
  have "GetBroadcasts list_btree lg gt n (empty_queue 4) 2 1398 = Some ([], empty_queue 4)" for lg gt n
    by (rule GetBroadcasts_empty [OF list_btree_laws q]) (simp add: empty_queue_def items_def tree_def list_btree_def)
  then have f: "\<exists>st1. getBroadcasts ?ne 2 1398 ?st = Some ([[userMsg, 7]], st1) \<and> keyring st1 = None \<and> wire st1 = []"
    by (simp add: getBroadcasts_def demo_gossip_def Let_def)
  then have "sent_between ?st st' \<noteq> []"
    using g(1) one off by (auto simp: gossip_def gossip_room_def demo_gossip_def rawSendMsgPacket_def EncryptionEnabled_def sent_between_def Let_def)
  then show ?thesis using g by (cases "sent_between ?st st'") auto
qed

text \<open>
  The announced weight lies between zero and the awareness limit whenever the health score
  and the processor load are in their ranges, and it decreases with both.
\<close>

theorem weight_bounds:
  assumes "0 \<le> sc" "sc \<le> mx" and "0 \<le> cpu" "cpu \<le> 100"
  shows "0 \<le> weight_of mx sc cpu \<and> weight_of mx sc cpu \<le> mx \<and>
    (\<forall>sc' cpu'. sc \<le> sc' \<and> sc' \<le> mx \<and> cpu \<le> cpu' \<and> cpu' \<le> 100 \<longrightarrow> weight_of mx sc' cpu' \<le> weight_of mx sc cpu)"
proof -
  let ?f = "\<lambda>s c. real_of_int (mx - s) * 0.6 + real_of_int mx * (100 - c) / 100 * 0.4"
  have w: "weight_of mx s c = math_Round (?f s c)" for s c by (simp only: weight_of_def Let_def)
  have nonneg: "0 \<le> ?f s c" if "s \<le> mx" "c \<le> 100" for s c using that assms by (intro add_nonneg_nonneg mult_nonneg_nonneg divide_nonneg_nonneg) auto
  have mono: "?f s' c' \<le> ?f s c" if "s \<le> s'" "c \<le> c'" for s s' c c'
    using that assms by (intro add_mono mult_right_mono divide_right_mono mult_left_mono) auto
  have top: "?f 0 0 = real_of_int mx" by simp
  have "math_Round (?f sc cpu) \<le> math_Round (?f 0 0)"
    using math_Round_mono [OF nonneg mono [of 0 sc 0 cpu]] assms by simp
  also have "\<dots> = mx" unfolding top by (rule math_Round_int)
  finally have "weight_of mx sc cpu \<le> mx" by (simp only: w)
  moreover have "0 \<le> weight_of mx sc cpu" unfolding w using nonneg [OF assms(2,4)] by (simp add: math_Round_def)
  moreover have "weight_of mx sc' cpu' \<le> weight_of mx sc cpu" if "sc \<le> sc'" "sc' \<le> mx" "cpu \<le> cpu'" "cpu' \<le> 100" for sc' cpu'
    unfolding w using math_Round_mono [OF nonneg mono] that by blast
  ultimately show ?thesis by blast
qed

theorem weight_bounds_witness: "0 \<le> weight_of 8 2 50 \<and> weight_of 8 2 50 \<le> 8"
  using weight_bounds [of 2 8 50] by simp

end
