(* ===== verification/Lifecycle.thy ===== *)
theory Lifecycle
  imports Probe_Correct
begin

text \<open>
  The life of a node, \<open>memberlist/memberlist.go\<close>: creating it from a configuration, joining a
  cluster, announcing and updating the local node, leaving and shutting down, sending user
  messages, and the tickers of \<open>state.go\<close> that drive the background tasks. Waiting for a
  broadcast to go out is an argument that says whether it did before the timeout. Building the
  network transport is outside the model; the address it advertises is an answer of the
  environment.
\<close>

section \<open>State\<close>

datatype task = ProbeTask | PushPullTask | GossipTask | WeightTask

record ('t, 'ip) lifeenv =
  le_probe :: "('t, 'ip) probeenv"
  c_AdvertiseAddr :: string
  c_AdvertisePort :: int
  c_PushPullInterval :: duration
  c_GossipInterval :: duration
  c_WeightInterval :: duration
  c_SecretKey :: bytes
  c_Keyring :: "Keyring option"
  c_LogConflict :: bool
  x_FinalAdvertiseAddr :: "nat \<Rightarrow> string \<Rightarrow> int \<Rightarrow> (string \<times> int) result"
  x_NodeMeta :: "nat \<Rightarrow> bytes"

text \<open>
  Each started task listens on a stop channel, which is a number; closing a channel removes the
  tasks that listen on it from \<open>running\<close>.
\<close>

record 't life =
  strm :: "'t strmstate"
  tickers :: "task list"
  stopTick :: nat
  nextCh :: nat
  running :: "(task \<times> nat) list"

abbreviation le_strm :: "('t, 'ip) lifeenv \<Rightarrow> ('t, 'ip) strmenv" where "le_strm le \<equiv> pe_strm (le_probe le)"
abbreviation le_net :: "('t, 'ip) lifeenv \<Rightarrow> ('t, 'ip) netenv" where "le_net le \<equiv> pe_net (le_probe le)"
abbreviation le_env :: "('t, 'ip) lifeenv \<Rightarrow> ('t, 'ip) env" where "le_env le \<equiv> pe_env (le_probe le)"
abbreviation l_net :: "'t life \<Rightarrow> 't netstate" where "l_net l \<equiv> net (strm l)"
abbreviation l_core :: "'t life \<Rightarrow> 't memberlist" where "l_core l \<equiv> core (net (strm l))"

definition upd_net :: "('t netstate \<Rightarrow> 't netstate) \<Rightarrow> 't life \<Rightarrow> 't life" where
  "upd_net f l = l\<lparr>strm := (strm l)\<lparr>net := f (net (strm l))\<rparr>\<rparr>"

definition upd_core :: "('t memberlist \<Rightarrow> 't memberlist) \<Rightarrow> 't life \<Rightarrow> 't life" where
  "upd_core f l = upd_net (\<lambda>st. st\<lparr>core := f (core st)\<rparr>) l"

abbreviation (input) ProtocolVersionMin :: u8 where "ProtocolVersionMin \<equiv> 1"
abbreviation (input) ProtocolVersionMax :: u8 where "ProtocolVersionMax \<equiv> 5"
abbreviation (input) MetaMaxSize :: nat where "MetaMaxSize \<equiv> 512"

section \<open>Tickers\<close>

definition schedule :: "('t, 'ip) lifeenv \<Rightarrow> 't life \<Rightarrow> 't life" where
  "schedule le l =
     (if length (tickers l) > 0 then l
      else
        (let stopCh = nextCh l;
             probing = c_ProbeInterval (le_env le) > 0;
             pulling = c_PushPullInterval le > 0;
             gossiping = c_GossipInterval le > 0 \<and> c_GossipNodes (le_probe le) > 0;
             weighing = c_WeightInterval le > 0;
             ts = (if probing then [ProbeTask] else []) @ (if gossiping then [GossipTask] else []) @
                  (if weighing then [WeightTask] else []);
             started = (if probing then [ProbeTask] else []) @ (if pulling then [PushPullTask] else []) @
                  (if gossiping then [GossipTask] else []) @ (if weighing then [WeightTask] else [])
         in l\<lparr>nextCh := Suc stopCh, tickers := ts, running := running l @ map (\<lambda>t. (t, stopCh)) started,
              stopTick := (if length ts > 0 then stopCh else stopTick l)\<rparr>))"

text \<open>Closing the stop channel ends every task that listens on it.\<close>

definition deschedule :: "'t life \<Rightarrow> 't life" where
  "deschedule l =
     (if length (tickers l) = 0 then l
      else l\<lparr>running := filter (\<lambda>(_, ch). ch \<noteq> stopTick l) (running l), tickers := []\<rparr>)"

section \<open>Creating a node\<close>

definition BuildVsnArray :: "('t, 'ip) env \<Rightarrow> u8 list" where
  "BuildVsnArray env = [ProtocolVersionMin, ProtocolVersionMax, c_ProtocolVersion env,
     c_DelegateProtocolMin env, c_DelegateProtocolMax env, c_DelegateProtocolVersion env]"

definition getAdvertise :: "'t life \<Rightarrow> string \<times> u16" where
  "getAdvertise l = (advertiseAddr (l_net l), advertisePort (l_net l))"

definition setAdvertise :: "string \<Rightarrow> int \<Rightarrow> 't life \<Rightarrow> 't life" where
  "setAdvertise addr prt l = upd_net (\<lambda>st. st\<lparr>advertiseAddr := addr, advertisePort := of_int prt\<rparr>) l"

definition refreshAdvertise :: "('t, 'ip) lifeenv \<Rightarrow> 't life \<Rightarrow> (string \<times> int) result \<times> 't life" where
  "refreshAdvertise le l =
     (let l1 = upd_net (\<lambda>st. st\<lparr>calls := Suc (calls st)\<rparr>) l in
      case x_FinalAdvertiseAddr le (calls (l_net l)) (c_AdvertiseAddr le) (c_AdvertisePort le) of
        Inl err \<Rightarrow> (Inl (''Failed to get final advertise address: '' @ err), l1)
      | Inr (addr, prt) \<Rightarrow> (Inr (addr, prt), setAdvertise addr prt l1))"

text \<open>The metadata of the delegate; longer metadata than the limit is a panic.\<close>

definition node_meta :: "('t, 'ip) lifeenv \<Rightarrow> 't life \<Rightarrow> bytes option" where
  "node_meta le l =
     (if c_Delegate (le_net le) then
        (let meta = x_NodeMeta le (calls (l_net l)) in if length meta > MetaMaxSize then None else Some meta)
      else Some [])"

definition setAlive :: "('t, 'ip) lifeenv \<Rightarrow> time \<Rightarrow> u32 \<Rightarrow> 't life \<Rightarrow> (unit result \<times> 't life) option" where
  "setAlive le now rnd l =
     (case refreshAdvertise le l of
        (Inl err, l1) \<Rightarrow> Some (Inl err, l1)
      | (Inr (addr, prt), l1) \<Rightarrow>
          (case node_meta le l1 of
             None \<Rightarrow> None
           | Some meta \<Rightarrow>
               (let (inc, m1) = nextIncarnation (l_core l1);
                    a = \<lparr>a_Incarnation = inc, a_Node = c_Name (le_env le), a_Addr = addr, a_Port = of_int prt,
                         a_Meta = meta, a_Vsn = BuildVsnArray (le_env le)\<rparr>
                in map_option (\<lambda>m2. (Inr (), upd_core (\<lambda>_. m2) l1)) (aliveNode (le_env le) now rnd a None True m1))))"

definition config_keyring :: "('t, 'ip) lifeenv \<Rightarrow> Keyring option result" where
  "config_keyring le =
     (if length (c_SecretKey le) > 0 then
        (case c_Keyring le of
           None \<Rightarrow> map_sum id Some (NewKeyring [] (c_SecretKey le))
         | Some k \<Rightarrow>
             (case AddKey k (c_SecretKey le) of
                Inl err \<Rightarrow> Inl err
              | Inr k1 \<Rightarrow> map_sum id Some (UseKey k1 (c_SecretKey le))))
      else Inr (c_Keyring le))"

definition new_life :: "('t, 'ip) lifeenv \<Rightarrow> Keyring option \<Rightarrow> 't life" where
  "new_life le ring = \<lparr>strm = \<lparr>net = \<lparr>core = new_memberlist (c_AwarenessMaxMultiplier (le_probe le)), keyring = ring,
       advertiseAddr = [], advertisePort = 0, highPriorityMsgQueue = [], lowPriorityMsgQueue = [], handoffCh = False,
       ackHandlers = Map.empty, nackTimers = [], ackEvents = [], nackEvents = [], wire = [], userMsgs = [], calls = 0\<rparr>,
     pushPullReq = 0, mergedStates = []\<rparr>, tickers = [], stopTick = 0, nextCh = 1, running = []\<rparr>"

definition NewMemberlist :: "('t, 'ip) lifeenv \<Rightarrow> 't life result" where
  "NewMemberlist le =
     (if c_ProtocolVersion (le_env le) < ProtocolVersionMin then Inl ''Protocol version too low''
      else if c_ProtocolVersion (le_env le) > ProtocolVersionMax then Inl ''Protocol version too high''
      else
        (case config_keyring le of
           Inl err \<Rightarrow> Inl err
         | Inr ring \<Rightarrow>
             if c_LogConflict le then Inl ''Cannot specify both LogOutput and Logger''
             else
               (case refreshAdvertise le (new_life le ring) of
                  (Inl err, _) \<Rightarrow> Inl err
                | (Inr _, l) \<Rightarrow> Inr l)))"

section \<open>Leaving and shutting down\<close>

definition hasShutdown :: "'t life \<Rightarrow> bool" where
  "hasShutdown l \<longleftrightarrow> m_shutdown (l_core l)"

definition Shutdown :: "'t life \<Rightarrow> 't life" where
  "Shutdown l = (if hasShutdown l then l else deschedule (upd_core (\<lambda>m. m\<lparr>m_shutdown := True\<rparr>) l))"

definition Create :: "('t, 'ip) lifeenv \<Rightarrow> time \<Rightarrow> u32 \<Rightarrow> 't life result option" where
  "Create le now rnd =
     (case NewMemberlist le of
        Inl err \<Rightarrow> Some (Inl err)
      | Inr l \<Rightarrow>
          (case setAlive le now rnd l of
             None \<Rightarrow> None
           | Some (Inl err, l1) \<Rightarrow> Some (Inl err)
           | Some (Inr _, l1) \<Rightarrow> Some (Inr (schedule le l1))))"

definition Leave :: "('t, 'ip) lifeenv \<Rightarrow> time \<Rightarrow> bool \<Rightarrow> 't life \<Rightarrow> (unit result \<times> 't life) option" where
  "Leave le now went_out l =
     (if hasShutdown l then None
      else if hasLeft (l_core l) then Some (Inr (), l)
      else
        (let l1 = upd_core (\<lambda>m. m\<lparr>m_leave := True\<rparr>) l in
         case nodeMap (l_core l1) (c_Name (le_env le)) of
           None \<Rightarrow> Some (Inr (), l1)
         | Some r \<Rightarrow>
             (let state = heap (l_core l1) r;
                  d = \<lparr>d_Incarnation = s_Incarnation state, d_Node = s_Name state, d_From = s_Name state\<rparr>;
                  l2 = upd_core (deadNode (le_env le) now d) l1
              in Some (if anyAlive (le_env le) (l_core l2) \<and> \<not> went_out
                       then Inl ''timeout waiting for leave broadcast'' else Inr (), l2))))"

section \<open>Operations of a running node\<close>

text \<open>The local node is read without a check, so \<open>UpdateNode\<close> panics when it is not in the map.\<close>

definition UpdateNode :: "('t, 'ip) lifeenv \<Rightarrow> time \<Rightarrow> u32 \<Rightarrow> bool \<Rightarrow> 't life \<Rightarrow> (unit result \<times> 't life) option" where
  "UpdateNode le now rnd went_out l =
     (case node_meta le l of
        None \<Rightarrow> None
      | Some meta \<Rightarrow>
          (case nodeMap (l_core l) (c_Name (le_env le)) of
             None \<Rightarrow> None
           | Some r \<Rightarrow>
               (let state = heap (l_core l) r;
                    (inc, m1) = nextIncarnation (l_core l);
                    a = \<lparr>a_Incarnation = inc, a_Node = c_Name (le_env le), a_Addr = s_Addr state, a_Port = s_Port state,
                         a_Meta = meta, a_Vsn = BuildVsnArray (le_env le)\<rparr>
                in map_option (\<lambda>m2.
                     (if anyAlive (le_env le) m2 \<and> \<not> went_out then Inl ''timeout waiting for update broadcast'' else Inr (),
                      upd_core (\<lambda>_. m2) l))
                     (aliveNode (le_env le) now rnd a (Some 1) True m1))))"

fun join_addrs ::
    "('t, 'ip) strmenv \<Rightarrow> time \<Rightarrow> (nat \<Rightarrow> nat \<Rightarrow> u32) \<Rightarrow> IpPort list \<Rightarrow> nat \<times> string list \<Rightarrow> 't strmstate \<Rightarrow>
     ((nat \<times> string list) \<times> 't strmstate) option" where
  "join_addrs se now rnd [] acc s = Some (acc, s)"
| "join_addrs se now rnd (addr # addrs) (numSuccess, errs) s =
     (let a = \<lparr>addr_Addr = joinHostPort (ip addr) (port addr), addr_Name = nodeName addr\<rparr> in
      case pushPullNode se now (rnd (calls (net s))) a True s of
        None \<Rightarrow> None
      | Some (Inl err, s1) \<Rightarrow>
          join_addrs se now rnd addrs (numSuccess, errs @ [''Failed to join '' @ ip addr @ '': '' @ err]) s1
      | Some (Inr _, s1) \<Rightarrow> join_addrs se now rnd addrs (Suc numSuccess, errs) s1)"

fun join_all ::
    "('t, 'ip) strmenv \<Rightarrow> time \<Rightarrow> (nat \<Rightarrow> nat \<Rightarrow> u32) \<Rightarrow> string list \<Rightarrow> nat \<times> string list \<Rightarrow> 't strmstate \<Rightarrow>
     ((nat \<times> string list) \<times> 't strmstate) option" where
  "join_all se now rnd [] acc s = Some (acc, s)"
| "join_all se now rnd (exist # existing) (numSuccess, errs) s =
     (case ResolveAddr (c_BindPort (ne_env (se_net se))) exist of
        Inl err \<Rightarrow> join_all se now rnd existing (numSuccess, errs @ [''Failed to resolve '' @ exist @ '': '' @ err]) s
      | Inr addrs \<Rightarrow>
          (case join_addrs se now rnd addrs (numSuccess, errs) s of
             None \<Rightarrow> None
           | Some (acc, s1) \<Rightarrow> join_all se now rnd existing acc s1))"

definition Join ::
    "('t, 'ip) lifeenv \<Rightarrow> time \<Rightarrow> (nat \<Rightarrow> nat \<Rightarrow> u32) \<Rightarrow> string list \<Rightarrow> 't life \<Rightarrow> ((nat \<times> string list) \<times> 't life) option" where
  "Join le now rnd existing l =
     map_option (\<lambda>((numSuccess, errs), s). ((numSuccess, if numSuccess > 0 then [] else errs), l\<lparr>strm := s\<rparr>))
       (join_all (le_strm le) now rnd existing (0, []) (strm l))"

definition SendToAddress :: "('t, 'ip) lifeenv \<Rightarrow> Address \<Rightarrow> bytes \<Rightarrow> 't life \<Rightarrow> unit result \<times> 't life" where
  "SendToAddress le a msg l =
     (case rawSendMsgPacket (le_net le) a None (userMsg # msg) (l_net l) of (res, st) \<Rightarrow> (res, upd_net (\<lambda>_. st) l))"

definition SendBestEffort :: "('t, 'ip) lifeenv \<Rightarrow> Node \<Rightarrow> bytes \<Rightarrow> 't life \<Rightarrow> unit result \<times> 't life" where
  "SendBestEffort le to msg l =
     (let a = \<lparr>addr_Addr = Node_Address to, addr_Name = n_Name to\<rparr> in
      case rawSendMsgPacket (le_net le) a (Some to) (userMsg # msg) (l_net l) of (res, st) \<Rightarrow> (res, upd_net (\<lambda>_. st) l))"

definition SendReliable :: "('t, 'ip) lifeenv \<Rightarrow> Node \<Rightarrow> bytes \<Rightarrow> 't life \<Rightarrow> unit result \<times> bytes \<times> 't life" where
  "SendReliable le to msg l =
     (case sendUserMsg (le_strm le) (FullAddress to) msg (l_net l) of (res, out, st) \<Rightarrow> (res, out, upd_net (\<lambda>_. st) l))"

definition getNodeState :: "string \<Rightarrow> 't life \<Rightarrow> NodeStateType option" where
  "getNodeState addr l = map_option (\<lambda>r. s_State (heap (l_core l) r)) (nodeMap (l_core l) addr)"

definition getNodeStateChange :: "string \<Rightarrow> 't life \<Rightarrow> time option" where
  "getNodeStateChange addr l = map_option (\<lambda>r. s_StateChange (heap (l_core l) r)) (nodeMap (l_core l) addr)"

section \<open>Lemmas\<close>

lemma upd_simps [simp]:
  "net (strm (upd_net f l)) = f (net (strm l))" "core (net (strm (upd_core g l))) = g (core (net (strm l)))"
  "tickers (upd_net f l) = tickers l" "running (upd_net f l) = running l"
  "keyring (net (strm (upd_core g l))) = keyring (net (strm l))"
  by (simp_all add: upd_net_def upd_core_def)

text \<open>The alive message about the local node at start-up, when nobody objects to it.\<close>

definition admitted :: "('t, 'ip) lifeenv \<Rightarrow> string \<Rightarrow> bool" where
  "admitted le addr \<longleftrightarrow> c_Alive (le_env le) = None \<and>
     AddrAllowed (x_resolver (le_env le)) (c_CIDRsAllowed (le_env le)) addr"

lemma first_alive:
  fixes le :: "('t, 'ip) lifeenv" and addr :: string and prt :: u16 and meta :: bytes and m :: "'t memberlist"
  defines "a \<equiv> \<lparr>a_Incarnation = 1, a_Node = c_Name (le_env le), a_Addr = addr, a_Port = prt, a_Meta = meta,
      a_Vsn = BuildVsnArray (le_env le)\<rparr>"
  assumes "admitted le addr" and "nodeMap m = Map.empty" and "\<not> m_leave m" and "nextRef m = 0" and "nodes m = []"
  shows "\<exists>m'. aliveNode (le_env le) now rnd a None True m = Some m' \<and> nodeMap m' = [c_Name (le_env le) \<mapsto> 0] \<and>
     s_State (heap m' 0) = StateAlive \<and> s_Incarnation (heap m' 0) = 1 \<and> s_Addr (heap m' 0) = addr"
proof -
  let ?env = "le_env le" and ?nm = "c_Name (le_env le)"
  have ig: "\<not> alive_ignored ?env a m"
    using assms(2,4) by (auto simp: alive_ignored_def hasLeft_def a_def BuildVsnArray_def admitted_def)
  obtain m1 where tg: "alive_target ?env now rnd a m = Inr (0, False, m1)"
    and m1: "s_Incarnation (heap m1 0) = 0" "s_Name (heap m1 0) = ?nm" "nodeMap m1 = [?nm \<mapsto> 0]"
    using assms(2,3,5) by (simp add: alive_target_def a_def admitted_def Let_def NewNodeState_def mk_Node_def set_versions_def)
  let ?m2 = "upd_node 0 (alive_update now a) (encodeBroadcastNotify ?env ?nm aliveMsg (Alive a) None
               (m1\<lparr>nodeTimers := (nodeTimers m1)(?nm := None)\<rparr>))"
  have "alive_apply ?env now a None True 0 False m1 =
      Some (alive_notify ?env 0 (s_State (heap m1 0)) (s_Meta (heap m1 0)) ?m2)"
    using m1(1,2) by (simp add: alive_apply_def Let_def a_def BuildVsnArray_def)
  moreover have "s_Addr (alive_update now a x) = addr" for x by (simp add: alive_update_def a_def Let_def)
  moreover have "s_Incarnation (alive_update now a x) = 1" for x by (simp add: a_def)
  ultimately show ?thesis
    using ig tg m1(3) by (simp add: aliveNode_def same_entryD [OF same_entry_alive_notify] same_entry_addr [OF same_entry_alive_notify])
qed

lemma net_ok_new:
  assumes "env_ok (le_env le)" and "1 \<le> c_AwarenessMaxMultiplier (le_probe le)"
  shows "net_ok (le_net le) (l_net (new_life le ring))"
  using member_ok_new [OF assms] by (simp add: net_ok_def new_life_def)

lemma refreshAdvertise_frame:
  "refreshAdvertise le l = (res, l') \<Longrightarrow> core (net (strm l')) = core (net (strm l)) \<and> net_ok ne (net (strm l')) = net_ok ne (net (strm l)) \<and>
     tickers l' = tickers l \<and> running l' = running l \<and> nextCh l' = nextCh l \<and>
     (\<forall>a p. res = Inr (a, p) \<longrightarrow> (\<exists>i. x_FinalAdvertiseAddr le i (c_AdvertiseAddr le) (c_AdvertisePort le) = Inr (a, p)))"
  by (auto simp: refreshAdvertise_def setAdvertise_def Let_def upd_net_def net_ok_def split: sum.splits)

text \<open>Whether a ticker is configured.\<close>

definition ticking :: "('t, 'ip) lifeenv \<Rightarrow> bool" where
  "ticking le \<longleftrightarrow> c_ProbeInterval (le_env le) > 0 \<or> (c_GossipInterval le > 0 \<and> c_GossipNodes (le_probe le) > 0) \<or> c_WeightInterval le > 0"

lemma schedule_strm [simp]: "strm (schedule le l) = strm l"
  by (simp add: schedule_def Let_def)

section \<open>Properties\<close>

text \<open>
  Creation: when \<open>Create\<close> succeeds, the node is consistent, and unless its own address is
  not admitted, the table holds exactly the local node, alive at incarnation 1.
\<close>

theorem create_starts_alive:
  assumes e: "env_ok (le_env le)" and mx: "1 \<le> c_AwarenessMaxMultiplier (le_probe le)" and c: "Create le now rnd = Some (Inr l)"
    and adm: "\<And>i addr prt. x_FinalAdvertiseAddr le i (c_AdvertiseAddr le) (c_AdvertisePort le) = Inr (addr, prt) \<Longrightarrow> admitted le addr"
  shows "net_ok (le_net le) (l_net l) \<and> nodeMap (l_core l) = [c_Name (le_env le) \<mapsto> 0] \<and>
     s_State (heap (l_core l) 0) = StateAlive \<and> s_Incarnation (heap (l_core l) 0) = 1"
proof -
  obtain l0 l1 where n: "NewMemberlist le = Inr l0" and s: "setAlive le now rnd l0 = Some (Inr (), l1)" and l: "l = schedule le l1"
    using c by (auto simp: Create_def split: sum.splits option.splits prod.splits)
  obtain ring r where r: "refreshAdvertise le (new_life le ring) = (r, l0)"
    using n by (auto simp: NewMemberlist_def split: if_splits sum.splits prod.splits)
  have l0: "core (net (strm l0)) = new_memberlist (c_AwarenessMaxMultiplier (le_probe le))" "net_ok (le_net le) (net (strm l0))"
    using refreshAdvertise_frame [OF r, of "le_net le"] net_ok_new [OF e mx, of ring] by (simp_all add: new_life_def)
  obtain addr prt l2 meta m where a: "refreshAdvertise le l0 = (Inr (addr, prt), l2)"
    and m: "aliveNode (le_env le) now rnd \<lparr>a_Incarnation = incarnation (core (net (strm l2))) + 1, a_Node = c_Name (le_env le), a_Addr = addr,
        a_Port = of_int prt, a_Meta = meta, a_Vsn = BuildVsnArray (le_env le)\<rparr> None True (snd (nextIncarnation (core (net (strm l2))))) = Some m"
    and l1: "l1 = upd_core (\<lambda>_. m) l2"
    using s by (auto simp: setAlive_def nextIncarnation_def split: sum.splits prod.splits option.splits)
  have l2: "core (net (strm l2)) = new_memberlist (c_AwarenessMaxMultiplier (le_probe le))" "net_ok (le_net le) (net (strm l2))"
    using refreshAdvertise_frame [OF a, of "le_net le"] l0 by simp_all
  have "admitted le addr" using refreshAdvertise_frame [OF a, of "le_net le"] adm by blast
  then have mm: "nodeMap m = [c_Name (le_env le) \<mapsto> 0] \<and> s_State (heap m 0) = StateAlive \<and> s_Incarnation (heap m 0) = 1"
    using first_alive [of le addr "snd (nextIncarnation (core (net (strm l2))))" now rnd "of_int prt" meta] m l2(1)
    by (auto simp: nextIncarnation_def new_memberlist_def)
  have "member_ok (le_env le) (snd (nextIncarnation (core (net (strm l2)))))"
    by (rule member_step_ok [OF e net_ok_core [OF l2(2)] member_step.incarn])
  then have "member_ok (le_env le) m" using member_step_ok [OF e _ member_step.alive [OF m]] by blast
  then have "net_ok (le_net le) (net (strm l1))" using l2(2) l1 by (simp add: net_ok_def upd_core_def)
  then show ?thesis using mm l l1 by simp
qed

section \<open>After leaving\<close>

text \<open>The node has left: its own entry, while it is still in the table, is marked left at that incarnation.\<close>

definition stays_left :: "('t, 'ip) env \<Rightarrow> u32 \<Rightarrow> 't memberlist \<Rightarrow> bool" where
  "stays_left env inc m \<longleftrightarrow> m_leave m \<and>
     (\<forall>r. nodeMap m (c_Name env) = Some r \<longrightarrow> s_State (heap m r) = StateLeft \<and> s_Incarnation (heap m r) = inc)"

lemma stays_left_same:
  assumes "stays_left env inc m" and "nodeMap m' = nodeMap m" and "m_leave m' = m_leave m"
    and "\<And>r. s_State (heap m' r) = s_State (heap m r) \<and> s_Incarnation (heap m' r) = s_Incarnation (heap m r)"
  shows "stays_left env inc m'"
  using assms by (simp add: stays_left_def)

lemma stays_left_at:
  assumes "stays_left env inc m" and "table_ok m" and "nodeMap m' = nodeMap m" and "m_leave m' = m_leave m"
    and "nodeMap m nm = Some r" and "nm \<noteq> c_Name env"
    and "\<And>x. x \<noteq> r \<Longrightarrow> s_State (heap m' x) = s_State (heap m x) \<and> s_Incarnation (heap m' x) = s_Incarnation (heap m x)"
  shows "stays_left env inc m'"
proof -
  have "x \<noteq> r" if "nodeMap m (c_Name env) = Some x" for x
    using that nodeMap_inj [OF assms(2,5)] assms(6) by blast
  then show ?thesis using assms by (auto simp: stays_left_def)
qed

lemma deadNode_stays_left:
  assumes "table_ok m" and "stays_left env inc m"
  shows "stays_left env inc (deadNode env now d m)"
proof (cases rule: deadNode_cases [of m d env now])
  case (refuted r)
  then show ?thesis using assms(2) by (simp add: stays_left_def hasLeft_def)
next
  case (marked r m1 ch)
  have "d_Node d \<noteq> c_Name env" using marked(1,3) assms(2) by (auto simp: stays_left_def DeadOrLeft_def)
  then show ?thesis unfolding marked(6)
    by (intro stays_left_at [OF assms(2,1) _ _ marked(1)]) (simp_all add: marked(5))
qed (use assms(2) in \<open>auto simp: stays_left_def\<close>)

lemma suspectNode_stays_left:
  assumes "table_ok m" and "stays_left env inc m"
  shows "stays_left env inc (suspectNode env now s m)"
proof (cases rule: suspectNode_cases [of env now s m])
  case (confirmed r i)
  from confirmed(4) show ?thesis
    by (elim disjE) (use assms(2) in \<open>auto simp: stays_left_def\<close>)
next
  case (refuted r)
  then have "su_Node s = c_Name env" using table_okD(3) [OF assms(1)] by metis
  then show ?thesis using refuted(1,3) assms(2) by (auto simp: stays_left_def)
next
  case (suspected r m1)
  have "su_Node s \<noteq> c_Name env" using table_okD(3) [OF assms(1) suspected(1)] suspected(5) by simp
  from suspected(7) show ?thesis
    by (elim disjE; simp only:; intro stays_left_at [OF assms(2,1) _ _ suspected(1) \<open>su_Node s \<noteq> c_Name env\<close>])
      (simp_all add: suspected(6) same_entryD(3,4) [OF same_entry_sync])
qed (use assms(2) in simp)

lemma alive_apply_stays_left:
  assumes "table_ok m" and "stays_left env inc m" and "nodeMap m (a_Node a) = Some r" and "a_Node a \<noteq> c_Name env"
    and "alive_apply env now a ch bootstrap r u m = Some m'"
  shows "stays_left env inc m'"
proof -
  have nm: "s_Name (heap m r) \<noteq> c_Name env" using table_okD(3) [OF assms(1,3)] assms(4) by simp
  from assms(5) show ?thesis
  proof (cases rule: alive_apply_cases)
    case updated
    show ?thesis unfolding updated(5)
      by (rule stays_left_at [OF assms(2,1) _ _ assms(3,4)]) (simp_all add: same_entryD(3,4) [OF same_entry_alive_notify])
  qed (use assms(2) nm in simp_all)
qed

lemma aliveNode_stays_left:
  assumes ok: "member_ok env m" and l: "stays_left env inc m" and s: "aliveNode env now rnd a ch bootstrap m = Some m'"
  shows "stays_left env inc m'"
proof (cases "alive_ignored env a m")
  case True
  then show ?thesis using s l by (simp add: aliveNode_def)
next
  case False
  then have ne: "a_Node a \<noteq> c_Name env" using l by (auto simp: alive_ignored_def stays_left_def hasLeft_def)
  show ?thesis
  proof (cases "alive_target env now rnd a m")
    case (Inl m1)
    then have "m' = m1" using s False by (simp add: aliveNode_def)
    with alive_target_Inl [OF Inl] l show ?thesis by (auto intro: stays_left_same)
  next
    case (Inr p)
    then obtain r u m1 where p: "alive_target env now rnd a m = Inr (r, u, m1)" by (metis surj_pair)
    then have s1: "alive_apply env now a ch bootstrap r u m1 = Some m'" using s False by (simp add: aliveNode_def)
    have m1: "table_ok m1" "nodeMap m1 (a_Node a) = Some r" using alive_target_ok [OF ok p] member_okD(1) by blast+
    have "stays_left env inc m1"
      using p
    proof (cases rule: alive_target_cases)
      case (new n1)
      have "x \<noteq> nextRef m" if "nodeMap m (c_Name env) = Some x" for x
        using table_okD(4) [OF member_okD(1) [OF ok] that] by simp
      then show ?thesis using l ne new(2,8) by (auto simp: stays_left_def)
    qed (use l in simp)
    then show ?thesis by (rule alive_apply_stays_left [OF m1(1) _ m1(2) ne s1])
  qed
qed

lemma member_step_stays_left:
  assumes ok: "member_ok env m" and l: "stays_left env inc m" and s: "member_step env m m'"
  shows "stays_left env inc m'"
proof -
  note t = member_okD(1) [OF ok]
  from s show ?thesis
  proof cases
    case (timeout d now)
    have "table_ok (m\<lparr>deadq := remove1 d (deadq m)\<rparr>)" using t by (rule table_ok_same) simp_all
    moreover have "stays_left env inc (m\<lparr>deadq := remove1 d (deadq m)\<rparr>)" using l by (simp add: stays_left_def)
    ultimately show ?thesis unfolding timeout(1) timeout_dead_def by (rule deadNode_stays_left)
  next
    case (weight w)
    have "m_leave (weightNode env w m) = m_leave m" by (auto simp: weightNode_def Let_def split: option.splits)
    then show ?thesis unfolding weight
      using l by (intro stays_left_same [OF l]) (simp_all add: weightNode_effect same_entryD(3,4) [OF weightNode_effect(11)])
  next
    case (check i)
    then show ?thesis using l by (auto simp: stays_left_def timeout_check_def Let_def split: option.splits)
  next
    case (expire now i)
    then show ?thesis using l by (auto simp: stays_left_def timer_expire_def split: option.splits if_splits)
  next
    case (reap now draw)
    then show ?thesis using l by (auto simp: stays_left_def resetNodes_effect [OF t] split: option.splits if_splits)
  next
    case (dead now d)
    show ?thesis unfolding dead by (rule deadNode_stays_left [OF t l])
  next
    case (suspect now s)
    show ?thesis unfolding suspect by (rule suspectNode_stays_left [OF t l])
  next
    case (alive now rnd a ch bootstrap)
    then show ?thesis by (rule aliveNode_stays_left [OF ok l])
  qed (use l in \<open>auto simp: stays_left_def nextSeqNo_def nextIncarnation_def\<close>)
qed

lemma member_steps_stay_left:
  assumes e: "env_ok env"
  shows "(member_step env)\<^sup>*\<^sup>* m m' \<Longrightarrow> member_ok env m \<Longrightarrow> stays_left env inc m \<Longrightarrow> stays_left env inc m'"
proof (induction rule: converse_rtranclp_induct)
  case (step m m1)
  then show ?case using member_step_ok [OF e] member_step_stays_left by blast
qed

text \<open>
  C13. Leaving is announced and final: \<open>Leave\<close> marks the local node left at its current
  incarnation and queues the message (when it can be encoded); a second \<open>Leave\<close> does nothing; alive messages about
  the local node change nothing. After any sequence of steps of the protocol, which takes in alive, suspect,
  dead and weight messages, timeouts, reaping and new incarnation numbers, the node still counts as left, and its own entry, as long as
  it has not been reaped, is marked left at the same incarnation: nothing revives it or refutes its death.
\<close>

theorem leave_is_final:
  assumes e: "env_ok (le_env le)" and ok: "net_ok (le_net le) (l_net l)" and up: "\<not> hasShutdown l" "\<not> hasLeft (l_core l)"
    and me: "nodeMap (l_core l) (c_Name (le_env le)) = Some r" "\<not> DeadOrLeft (heap (l_core l) r)"
  shows "\<exists>res l'. Leave le now w l = Some (res, l') \<and> net_ok (le_net le) (l_net l') \<and> hasLeft (l_core l') \<and>
     s_State (heap (l_core l') r) = StateLeft \<and> s_Incarnation (heap (l_core l') r) = s_Incarnation (heap (l_core l) r) \<and>
     (\<forall>now' w'. Leave le now' w' l' = Some (Inr (), l')) \<and>
     (\<forall>now' rnd a ch bs. a_Node a = c_Name (le_env le) \<longrightarrow> aliveNode (le_env le) now' rnd a ch bs (l_core l') = Some (l_core l')) \<and>
     (\<forall>m'. (member_step (le_env le))\<^sup>*\<^sup>* (l_core l') m' \<longrightarrow> hasLeft m' \<and>
        (\<forall>r'. nodeMap m' (c_Name (le_env le)) = Some r' \<longrightarrow>
           s_State (heap m' r') = StateLeft \<and> s_Incarnation (heap m' r') = s_Incarnation (heap (l_core l) r))) \<and>
     (\<forall>buf. encode (x_codec (le_env le)) deadMsg (Dead \<lparr>d_Incarnation = s_Incarnation (heap (l_core l) r), d_Node = c_Name (le_env le),
          d_From = c_Name (le_env le)\<rparr>) = Inr buf \<longrightarrow>
        (\<exists>lb \<in> set (items (x_btree (le_env le)) (broadcasts (l_core l'))). Message (lb_b lb) = buf \<and> transmits lb = 0))"
proof -
  let ?env = "le_env le" and ?nm = "c_Name (le_env le)" and ?s = "heap (l_core l) r"
  let ?m = "(l_core l)\<lparr>m_leave := True\<rparr>" and ?d = "\<lparr>d_Incarnation = s_Incarnation ?s, d_Node = ?nm, d_From = ?nm\<rparr>"
  let ?m' = "deadNode ?env now ?d ?m" and ?l1 = "upd_core (\<lambda>m. m\<lparr>m_leave := True\<rparr>) l"
  let ?l' = "upd_core (deadNode ?env now ?d) ?l1"
  let ?b = "encodeBroadcastNotify ?env ?nm deadMsg (Dead ?d) (Some leaveBroadcast) (?m\<lparr>nodeTimers := (nodeTimers ?m)(?nm := None)\<rparr>)"
  let ?m3 = "upd_node r (\<lambda>t. t\<lparr>s_Incarnation := s_Incarnation ?s, s_State := StateLeft, s_StateChange := now\<rparr>) ?b"
  have nm: "s_Name ?s = ?nm" using table_okD(3) [OF member_okD(1) [OF net_ok_core [OF ok]] me(1)] .
  have m': "?m' = (if c_Events ?env then notify_ev (NotifyLeave (s_Node (heap ?m3 r))) ?m3 else ?m3)"
    using me nm by (simp add: deadNode_def Let_def hasLeft_def)
  obtain res where lv: "Leave le now w l = Some (res, ?l')"
    using up me(1) nm by (simp add: Leave_def Let_def hasShutdown_def)
  have "member_ok ?env ?m" by (rule member_step_ok [OF e net_ok_core [OF ok] member_step.leave])
  then have ok': "member_ok ?env ?m'" by (rule member_step_ok [OF e _ member_step.dead])
  have core: "core (net (strm ?l')) = ?m'" by simp
  have fr: "m_leave ?m'" "m_shutdown ?m' = m_shutdown (l_core l)" "s_State (heap ?m' r) = StateLeft" "s_Incarnation (heap ?m' r) = s_Incarnation ?s"
    unfolding m' by (simp_all add: encodeBroadcastNotify_def m_queueBroadcast_def upd_node_def notify_ev_def split: sum.split)
  have q: "\<exists>lb \<in> set (items (x_btree ?env) (broadcasts ?m')). Message (lb_b lb) = buf \<and> transmits lb = 0"
    if "encode (x_codec ?env) deadMsg (Dead ?d) = Inr buf" for buf
  proof -
    let ?bc = "MemberlistBroadcast ?nm buf (Some leaveBroadcast)"
    have L: "btree_laws (x_btree ?env)" "codec_laws (x_codec ?env)" using e by (simp_all add: env_ok_def)
    have len: "int (length (Message ?bc)) \<le> MaxInt64" using encode_length [OF L(2) that] by simp
    have bq: "broadcasts ?m' = QueueBroadcast (x_btree ?env) (\<lambda>_ _. False) (broadcasts (l_core l)) ?bc"
      unfolding m' using that by (simp add: encodeBroadcastNotify_def m_queueBroadcast_def upd_node_def notify_ev_def)
    show ?thesis
    proof (rule queueBroadcast_ok [OF L(1) member_okD(3) [OF net_ok_core [OF ok]] len order_refl, of "\<lambda>_ _. False", folded QueueBroadcast_def])
      fix lb assume "lb_b lb = ?bc" "transmits lb = 0"
        "lb \<in> set (items (x_btree ?env) (QueueBroadcast (x_btree ?env) (\<lambda>_ _. False) (broadcasts (l_core l)) ?bc))"
      then show ?thesis unfolding bq by (intro bexI [of _ lb]) simp_all
    qed
  qed
  have again: "Leave le now' w' ?l' = Some (Inr (), ?l')" for now' w'
    using fr up(1) by (simp add: Leave_def hasShutdown_def hasLeft_def del: upd_simps(3-))
  have "nodeMap ?m' = nodeMap (l_core l)"
    unfolding m' by (simp add: encodeBroadcastNotify_def m_queueBroadcast_def upd_node_def notify_ev_def split: sum.split)
  then have "stays_left ?env (s_Incarnation ?s) ?m'" using fr me(1) by (simp add: stays_left_def)
  then have later: "hasLeft m' \<and> (\<forall>r'. nodeMap m' ?nm = Some r' \<longrightarrow> s_State (heap m' r') = StateLeft \<and> s_Incarnation (heap m' r') = s_Incarnation ?s)"
    if "(member_step ?env)\<^sup>*\<^sup>* ?m' m'" for m'
    using member_steps_stay_left [OF e that ok'] by (auto simp: stays_left_def hasLeft_def)
  have deaf: "aliveNode ?env now' rnd a ch bs ?m' = Some ?m'" if "a_Node a = ?nm" for now' rnd a ch bs
    using that fr(1) by (simp add: aliveNode_def alive_ignored_def hasLeft_def)
  show ?thesis
    by (rule exI [of _ res], rule exI [of _ ?l'], unfold core)
      (use lv again deaf q fr ok' ok later in \<open>auto simp: net_ok_def hasLeft_def upd_core_def\<close>)
qed

lemma only_push_pull_runs:
  assumes "\<not> ticking le" and "set fs \<subseteq> {schedule le, deschedule, Shutdown}" and "tickers l = []" and "x \<in> set (running l)"
  shows "x \<in> set (running (fold id fs l))"
  using assms(2-)
proof (induction fs arbitrary: l)
  case (Cons f fs)
  have "tickers (schedule le l) = []" "set (running l) \<subseteq> set (running (schedule le l))"
    using Cons.prems(2) assms(1) by (auto simp: schedule_def ticking_def Let_def)
  moreover have "deschedule l = l" "tickers (Shutdown l) = [] \<and> running (Shutdown l) = running l"
    using Cons.prems(2) by (simp_all add: deschedule_def Shutdown_def upd_core_def upd_net_def)
  ultimately have "tickers (f l) = []" "x \<in> set (running (f l))" using Cons.prems by auto
  then show ?case using Cons.IH [of "f l"] Cons.prems(1) by simp
qed simp

text \<open>
  C35. Stopping: when at least one ticker is configured, starting the background tasks twice is
  the same as once, and \<open>Shutdown\<close> ends exactly those tasks; a second \<open>Shutdown\<close> does nothing. When only the push/pull task is
  configured no ticker is recorded: whatever further calls start or stop the tasks, \<open>Shutdown\<close> included,
  the push/pull task started first runs for ever.
\<close>

theorem tasks_stop_unless_only_push_pull:
  assumes "tickers l = []" and "\<forall>(t, ch) \<in> set (running l). ch < nextCh l" and "\<not> hasShutdown l"
  shows "(ticking le \<longrightarrow> schedule le (schedule le l) = schedule le l \<and> running (Shutdown (schedule le l)) = running l \<and>
        Shutdown (Shutdown (schedule le l)) = Shutdown (schedule le l)) \<and>
     (\<not> ticking le \<and> c_PushPullInterval le > 0 \<longrightarrow>
        (\<forall>fs. set fs \<subseteq> {schedule le, deschedule, Shutdown} \<longrightarrow> (PushPullTask, nextCh l) \<in> set (running (fold id fs (schedule le l)))))"
proof (intro conjI impI allI)
  assume t: "ticking le"
  then have n: "length (tickers (schedule le l)) > 0" using assms(1) by (auto simp: schedule_def ticking_def Let_def)
  then show "schedule le (schedule le l) = schedule le l" by (subst schedule_def) simp
  have up: "\<not> hasShutdown (schedule le l)" using assms(3) by (simp add: hasShutdown_def schedule_def Let_def)
  have "filter (\<lambda>(_, ch). ch \<noteq> nextCh l) (running l) = running l" using assms(2) by (auto simp: filter_id_conv)
  moreover obtain ts where "running (schedule le l) = running l @ map (\<lambda>t. (t, nextCh l)) ts"
    using assms(1) by (simp add: schedule_def Let_def del: map_append)
  moreover have "stopTick (schedule le l) = nextCh l" using t assms(1) by (auto simp: schedule_def ticking_def Let_def)
  ultimately show "running (Shutdown (schedule le l)) = running l"
    using n up by (simp add: Shutdown_def deschedule_def upd_core_def upd_net_def filter_map comp_def)
  show "Shutdown (Shutdown (schedule le l)) = Shutdown (schedule le l)"
    by (simp add: Shutdown_def hasShutdown_def deschedule_def upd_core_def upd_net_def)
next
  fix fs :: "('a life \<Rightarrow> 'a life) list"
  assume o: "\<not> ticking le \<and> c_PushPullInterval le > 0" and fs: "set fs \<subseteq> {schedule le, deschedule, Shutdown}"
  have "tickers (schedule le l) = []" "(PushPullTask, nextCh l) \<in> set (running (schedule le l))"
    using o assms(1) by (auto simp: schedule_def ticking_def Let_def)
  then show "(PushPullTask, nextCh l) \<in> set (running (fold id fs (schedule le l)))"
    using o by (intro only_push_pull_runs [OF _ fs]) simp_all
qed

text \<open>
  A node that has left forgets itself: once the local node has been left for longer than
  the gossip-to-the-dead interval, the next reaping removes it from its own table, and then
  \<open>LocalNode\<close> and \<open>UpdateNode\<close> panic.
\<close>

theorem left_node_forgets_itself:
  assumes ok: "member_ok (le_env le) (l_core l)" and me: "nodeMap (l_core l) (c_Name (le_env le)) = Some r"
    and left: "s_State (heap (l_core l) r) = StateLeft" "now - s_StateChange (heap (l_core l) r) > c_GossipToTheDeadTime (le_env le)"
    and l': "l' = upd_core (resetNodes (le_env le) now draw) l"
  shows "LocalNode (le_env le) (l_core l') = None \<and> UpdateNode le now' rnd w l' = None"
proof -
  have "nodeMap (l_core l') (c_Name (le_env le)) = None"
    using me left unfolding l' by (simp add: resetNodes_effect(2) [OF member_okD(1) [OF ok]] reapable_def DeadOrLeft_def)
  then show ?thesis by (simp add: LocalNode_def UpdateNode_def split: option.split)
qed

section \<open>A node for evaluation\<close>

definition demo_life :: "wire_msg list \<Rightarrow> (limitedBroadcast list, nat) lifeenv" where
  "demo_life ms = \<lparr>le_probe = demo_probe ms, c_AdvertiseAddr = [], c_AdvertisePort = 7946, c_PushPullInterval = 30, c_GossipInterval = 1,
     c_WeightInterval = 0, c_SecretKey = [], c_Keyring = None, c_LogConflict = False,
     x_FinalAdvertiseAddr = (\<lambda>_ _ _. Inr (''10.0.0.1'', 7946)), x_NodeMeta = (\<lambda>_. [])\<rparr>"

definition demo_running :: "limitedBroadcast list memberlist \<Rightarrow> limitedBroadcast list life" where
  "demo_running m = \<lparr>strm = \<lparr>net = demo_node m None, pushPullReq = 0, mergedStates = []\<rparr>, tickers = [], stopTick = 0, nextCh = 1, running = []\<rparr>"

lemma demo_life_simps [simp]:
  "le_probe (demo_life ms) = demo_probe ms" "x_FinalAdvertiseAddr (demo_life ms) i a p = Inr (''10.0.0.1'', 7946)"
  "net (strm (demo_running m)) = demo_node m None" "admitted (demo_life ms) addr" "c_AwarenessMaxMultiplier (demo_probe ms) = 8"
  by (simp_all add: demo_life_def demo_running_def admitted_def AddrAllowed_def IPMustBeChecked_def demo_probe_def)

theorem create_starts_alive_witness:
  "\<exists>l. Create (demo_life []) 0 0 = Some (Inr l) \<and> s_State (heap (l_core l) 0) = StateAlive \<and> nodeMap (l_core l) = [''me'' \<mapsto> 0]"
proof -
  let ?le = "demo_life []"
  let ?l0 = "snd (refreshAdvertise ?le (new_life ?le None))"
  have r: "refreshAdvertise ?le l = (Inr (''10.0.0.1'', 7946), setAdvertise ''10.0.0.1'' 7946 (upd_net (\<lambda>st. st\<lparr>calls := Suc (calls st)\<rparr>) l))" for l
    by (simp add: refreshAdvertise_def Let_def)
  have n: "NewMemberlist ?le = Inr ?l0"
    by (simp add: NewMemberlist_def r config_keyring_def) (simp add: demo_life_def demo_probe_def demo_strm_def demo_net_def demo_env_def)
  let ?l2 = "snd (refreshAdvertise ?le ?l0)"
  have m0: "core (net (strm ?l2)) = new_memberlist 8" by (simp add: r setAdvertise_def new_life_def)
  have "\<exists>m. aliveNode (le_env ?le) 0 0 \<lparr>a_Incarnation = 1, a_Node = c_Name (le_env ?le), a_Addr = ''10.0.0.1'', a_Port = of_int 7946,
      a_Meta = [], a_Vsn = BuildVsnArray (le_env ?le)\<rparr> None True (snd (nextIncarnation (core (net (strm ?l2))))) = Some m"
    using first_alive [of ?le "''10.0.0.1''" "snd (nextIncarnation (core (net (strm ?l2))))" 0 0 "of_int 7946" "[]"] m0
    by (auto simp: nextIncarnation_def new_memberlist_def)
  then obtain m where m: "aliveNode (le_env ?le) 0 0 \<lparr>a_Incarnation = 1, a_Node = c_Name (le_env ?le), a_Addr = ''10.0.0.1'', a_Port = of_int 7946,
      a_Meta = [], a_Vsn = BuildVsnArray (le_env ?le)\<rparr> None True (snd (nextIncarnation (core (net (strm ?l2))))) = Some m" ..
  have inc: "fst (nextIncarnation (core (net (strm ?l2)))) = 1" using m0 by (simp add: nextIncarnation_def new_memberlist_def)
  have "setAlive ?le 0 0 ?l0 = Some (Inr (), upd_core (\<lambda>_. m) ?l2)"
    using m inc unfolding setAlive_def by (simp add: r node_meta_def split_beta Let_def)
  then have c: "Create ?le 0 0 = Some (Inr (schedule ?le (upd_core (\<lambda>_. m) ?l2)))" using n by (simp add: Create_def)
  from create_starts_alive [OF _ _ c] demo_env_ok [of "[]"] have "nodeMap (l_core (schedule ?le (upd_core (\<lambda>_. m) ?l2))) = [''me'' \<mapsto> 0] \<and>
     s_State (heap (l_core (schedule ?le (upd_core (\<lambda>_. m) ?l2))) 0) = StateAlive" by simp
  then show ?thesis using c by blast
qed

theorem leave_is_final_witness:
  "\<exists>l res l'. s_State (heap (l_core l) 0) = StateAlive \<and> Leave (demo_life []) 7 True l = Some (res, l') \<and>
     s_State (heap (l_core l') 0) = StateLeft \<and> Leave (demo_life []) 8 False l' = Some (Inr (), l')"
proof -
  obtain m0 where m0: "member_reach (demo_env []) 8 m0" "nodeMap m0 = [''me'' \<mapsto> 0, ''n1'' \<mapsto> 1]" "s_State (heap m0 0) = StateAlive"
    "\<not> m_leave m0" using demo_two by blast
  let ?m = "m0\<lparr>m_shutdown := False\<rparr>"
  have ok0: "member_ok (demo_env []) m0" by (rule member_reach_ok [OF demo_env_ok _ m0(1)]) simp
  have "member_ok (demo_env []) ?m" by (rule member_ok_same [OF ok0]) (simp_all add: member_okD [OF ok0] member_okD(3) [OF ok0, simplified])
  then have ok: "net_ok (demo_net [] 1400) (demo_node ?m None)" by (simp add: net_ok_def)
  obtain res l' where "Leave (demo_life []) 7 True (demo_running ?m) = Some (res, l')" "s_State (heap (l_core l') 0) = StateLeft"
    "\<forall>now' w'. Leave (demo_life []) now' w' l' = Some (Inr (), l')"
    using leave_is_final [of "demo_life []" "demo_running ?m" 0 7 True] ok m0 demo_env_ok [of "[]"]
    by (auto simp: hasShutdown_def hasLeft_def DeadOrLeft_def)
  then show ?thesis using m0(3) by (intro exI [of _ "demo_running ?m"] exI [of _ res] exI [of _ l']) simp
qed

definition demo_pull_only :: "(limitedBroadcast list, nat) lifeenv" where
  "demo_pull_only = (demo_life [])\<lparr>le_probe := (demo_probe [])\<lparr>pe_strm := (demo_strm [])\<lparr>se_net :=
     (demo_net [] 1400)\<lparr>ne_env := (demo_env [])\<lparr>c_ProbeInterval := 0\<rparr>\<rparr>\<rparr>\<rparr>, c_GossipInterval := 0\<rparr>"

theorem tasks_stop_unless_only_push_pull_witness:
  "running (Shutdown (schedule (demo_life []) (new_life (demo_life []) None))) = [] \<and>
   (PushPullTask, 1) \<in> set (running (Shutdown (schedule demo_pull_only (new_life demo_pull_only None))))"
proof
  have n: "tickers (new_life le None) = []" "running (new_life le None) = []" "\<not> hasShutdown (new_life le None)" "nextCh (new_life le None) = 1" for le :: "(limitedBroadcast list, nat) lifeenv"
    by (simp_all add: new_life_def hasShutdown_def new_memberlist_def)
  show "running (Shutdown (schedule (demo_life []) (new_life (demo_life []) None))) = []"
    using tasks_stop_unless_only_push_pull [of "new_life (demo_life []) None" "demo_life []"] n [of "demo_life []"]
    by (simp add: ticking_def) (simp add: demo_life_def demo_probe_def)
  have "\<not> ticking demo_pull_only" "c_PushPullInterval demo_pull_only > 0"
    by (simp_all add: ticking_def demo_pull_only_def demo_life_def)
  then have "\<forall>fs. set fs \<subseteq> {schedule demo_pull_only, deschedule, Shutdown} \<longrightarrow>
      (PushPullTask, 1) \<in> set (running (fold id fs (schedule demo_pull_only (new_life demo_pull_only None))))"
    using tasks_stop_unless_only_push_pull [of "new_life demo_pull_only None" demo_pull_only] n [of demo_pull_only] by simp
  from this [THEN spec, of "[Shutdown]"]
  show "(PushPullTask, 1) \<in> set (running (Shutdown (schedule demo_pull_only (new_life demo_pull_only None))))" by simp
qed

theorem left_node_forgets_itself_witness:
  "\<exists>l. LocalNode (demo_env []) (l_core (upd_core (resetNodes (demo_env []) 40000000000 (\<lambda>i. i)) l)) = None \<and>
     nodeMap (l_core l) ''me'' = Some 0"
proof -
  obtain m where m: "member_reach (demo_env []) 8 m" "nodeMap m = [''me'' \<mapsto> 0, ''n1'' \<mapsto> 1]" "s_State (heap m 0) = StateAlive"
    "s_Name (heap m 0) = ''me''" using demo_two by blast
  let ?m1 = "m\<lparr>m_leave := True\<rparr>"
  let ?d = "\<lparr>d_Incarnation = s_Incarnation (heap m 0), d_Node = ''me'', d_From = ''me''\<rparr>"
  let ?m2 = "deadNode (demo_env []) 7 ?d ?m1"
  have ok: "member_ok (demo_env []) ?m2"
    by (rule member_reach_ok [of _ 8, OF demo_env_ok _ member_reach.step [OF member_reach.step [OF m(1) member_step.leave] member_step.dead]]) simp
  have f: "nodeMap ?m2 ''me'' = Some 0" "s_State (heap ?m2 0) = StateLeft" "s_StateChange (heap ?m2 0) = 7"
    using m(2-4) by (simp_all add: deadNode_def Let_def hasLeft_def DeadOrLeft_def)
  from left_node_forgets_itself [of "demo_life []" "demo_running ?m2" 0 40000000000, OF _ _ _ _ refl] ok f
  show ?thesis by (intro exI [of _ "demo_running ?m2"]) simp
qed

end
