(* ===== verification/Uow_Dependency.thy ===== *)
theory Uow_Dependency
  imports Prelude "HOL-Library.AList" "HOL-Library.Product_Lexorder" "HOL-Library.List_Lexorder" "HOL-Library.Char_ord"
begin

text \<open>
  The dependency manager of \<open>src/unitofwork/dependency.go\<close>: a graph of entity types, from
  which the order of insertions and deletions is computed by a topological sort (Kahn's
  algorithm).  A \<open>reflect.Type\<close> is an identity together with the name that \<open>String\<close>
  returns; an entity is a pointer, whose type is fixed while the fields it points to may change.

  Go iterates over a map in an order of its own, and \<open>sort.Slice\<close> leaves elements that
  compare equal in any order.  Both are arguments: \<open>any_order\<close> lists the elements in the order
  a source of numbers draws, and sorting is the stable sort of such a list.  Every theorem holds
  for all draws.

  The lemmas show that the insertion order respects every registered dependency and exists
  exactly when the dependencies among the types at hand are acyclic, and that the deletion order
  does not exist as soon as one dependency is registered among them.
\<close>

section \<open>Types, entities and the manager\<close>

datatype rtype = RType (rt_id: nat) (rt_String: string)

datatype eref = ERef (er_type: rtype) (er_addr: nat)

record DependencyManager =
  dependencyGraph :: "(rtype \<times> rtype list) list"
  entityWeights :: "rtype \<rightharpoonup> int"

fun any_order :: "(nat \<Rightarrow> nat) \<Rightarrow> 'a list \<Rightarrow> 'a list" where
  "any_order draw [] = []"
| "any_order draw (x # xs) =
     (let ys = any_order draw xs; k = draw (length xs) mod Suc (length xs) in take k ys @ x # drop k ys)"

definition NewDependencyManager :: DependencyManager where
  "NewDependencyManager = \<lparr>dependencyGraph = [], entityWeights = Map.empty\<rparr>"

definition DefaultDependencyManager :: DependencyManager where
  "DefaultDependencyManager = NewDependencyManager"

definition dependents_of :: "DependencyManager \<Rightarrow> rtype \<Rightarrow> rtype list" where
  "dependents_of dm t = (case map_of (dependencyGraph dm) t of None \<Rightarrow> [] | Some ds \<Rightarrow> ds)"

definition RegisterDependency :: "rtype \<Rightarrow> rtype \<Rightarrow> DependencyManager \<Rightarrow> DependencyManager" where
  "RegisterDependency dpnt dependency dm =
     (if dpnt = dependency then dm
      else if dpnt \<in> set (dependents_of dm dependency) then dm
      else dm\<lparr>dependencyGraph := AList.update dependency (dependents_of dm dependency @ [dpnt]) (dependencyGraph dm)\<rparr>)"

definition RegisterEntityWeight :: "rtype \<Rightarrow> int \<Rightarrow> DependencyManager \<Rightarrow> DependencyManager" where
  "RegisterEntityWeight entityType weight dm = dm\<lparr>entityWeights := (entityWeights dm)(entityType \<mapsto> weight)\<rparr>"

definition HasDependency :: "DependencyManager \<Rightarrow> rtype \<Rightarrow> rtype \<Rightarrow> bool" where
  "HasDependency dm dpnt dependency \<longleftrightarrow> dpnt \<in> set (dependents_of dm dependency)"

definition RemoveDependency :: "rtype \<Rightarrow> rtype \<Rightarrow> DependencyManager \<Rightarrow> DependencyManager" where
  "RemoveDependency dpnt dependency dm =
     dm\<lparr>dependencyGraph := AList.update dependency (filter (\<lambda>dep. dep \<noteq> dpnt) (dependents_of dm dependency)) (dependencyGraph dm)\<rparr>"

definition Clear_deps :: "DependencyManager \<Rightarrow> DependencyManager" where
  "Clear_deps dm = dm\<lparr>dependencyGraph := [], entityWeights := Map.empty\<rparr>"

definition GetAllEntityTypes :: "DependencyManager \<Rightarrow> rtype list" where
  "GetAllEntityTypes dm = remdups (concat (map (\<lambda>(dependency, dependents). dependency # dependents) (dependencyGraph dm)))"

section \<open>The topological sort\<close>

definition getEntityWeight :: "DependencyManager \<Rightarrow> rtype \<Rightarrow> int" where
  "getEntityWeight dm t = (case entityWeights dm t of Some w \<Rightarrow> w | None \<Rightarrow> 0)"

definition sortByWeight :: "(nat \<Rightarrow> nat) \<Rightarrow> DependencyManager \<Rightarrow> rtype list \<Rightarrow> rtype list" where
  "sortByWeight draw dm ts = sort_key (\<lambda>t. (getEntityWeight dm t, rt_String t)) (any_order draw ts)"

text \<open>
  \<open>toString\<close> of \<open>src/unitofwork/snapshot.go\<close> calls \<open>reflect.Value.String\<close>, which for a value
  that is not a string names its type: every identifier is printed as the same text.
\<close>

definition toString_uint :: "nat \<Rightarrow> string" where
  "toString_uint n = ''<uint Value>''"

definition sortEntitiesByID :: "(nat \<Rightarrow> nat) \<Rightarrow> (eref \<Rightarrow> nat) \<Rightarrow> eref list \<Rightarrow> eref list" where
  "sortEntitiesByID draw ids es = sort_key (\<lambda>e. toString_uint (ids e)) (any_order draw es)"

fun group_types :: "eref list \<Rightarrow> (rtype \<times> eref list) list \<Rightarrow> (rtype \<times> eref list) list" where
  "group_types [] m = m"
| "group_types (e # es) m =
     group_types es (AList.update (er_type e) ((case map_of m (er_type e) of None \<Rightarrow> [] | Some l \<Rightarrow> l) @ [e]) m)"

definition add_deg :: "rtype \<Rightarrow> int \<Rightarrow> (rtype \<times> int) list \<Rightarrow> (rtype \<times> int) list" where
  "add_deg t k ind = map (\<lambda>(u, d). (u, if u = t then d + k else d)) ind"

fun count_dependents :: "(rtype \<times> int) list \<Rightarrow> rtype list \<Rightarrow> (rtype \<times> int) list" where
  "count_dependents ind [] = ind"
| "count_dependents ind (dep # deps) =
     count_dependents (if map_of ind dep \<noteq> None then add_deg dep 1 ind else ind) deps"

fun count_all :: "DependencyManager \<Rightarrow> (rtype \<times> int) list \<Rightarrow> rtype list \<Rightarrow> (rtype \<times> int) list" where
  "count_all dm ind [] = ind"
| "count_all dm ind (dependency # rest) =
     count_all dm (if map_of ind dependency = None then ind else count_dependents ind (dependents_of dm dependency)) rest"

definition calculateInDegree :: "(nat \<Rightarrow> nat) \<Rightarrow> DependencyManager \<Rightarrow> rtype list \<Rightarrow> (rtype \<times> int) list" where
  "calculateInDegree draw dm entityTypes =
     count_all dm (map (\<lambda>t. (t, 0)) entityTypes) (any_order draw (map fst (dependencyGraph dm)))"

definition getNeighbors :: "(nat \<Rightarrow> nat) \<Rightarrow> DependencyManager \<Rightarrow> rtype \<Rightarrow> bool \<Rightarrow> rtype list" where
  "getNeighbors draw dm t reverse =
     (if \<not> reverse then dependents_of dm t
      else filter (\<lambda>dependency. t \<in> set (dependents_of dm dependency)) (any_order draw (map fst (dependencyGraph dm))))"

fun relax :: "(rtype \<times> int) list \<Rightarrow> rtype list \<Rightarrow> rtype list \<Rightarrow> rtype list \<times> (rtype \<times> int) list" where
  "relax ind [] nextLevel = (nextLevel, ind)"
| "relax ind (n # ns) nextLevel =
     (case map_of ind n of
        None \<Rightarrow> relax ind ns nextLevel
      | Some d \<Rightarrow> relax (add_deg n (- 1) ind) ns (if d - 1 = 0 then nextLevel @ [n] else nextLevel))"

section \<open>Orders that are drawn\<close>

lemma mset_any_order [simp]: "mset (any_order draw xs) = mset xs"
proof (induction xs)
  case (Cons x xs)
  let ?k = "draw (length xs) mod Suc (length xs)"
  have "mset (any_order draw (x # xs)) = add_mset x (mset (take ?k (any_order draw xs) @ drop ?k (any_order draw xs)))"
    by (simp only: any_order.simps Let_def mset_append mset.simps) simp
  then show ?case by (simp only: append_take_drop_id Cons.IH mset.simps)
qed simp

lemma set_any_order [simp]: "set (any_order draw xs) = set xs"
  by (metis mset_any_order set_mset_mset)

lemma length_any_order [simp]: "length (any_order draw xs) = length xs"
  by (metis mset_any_order size_mset)

lemma distinct_any_order [simp]: "distinct (any_order draw xs) = distinct xs"
  by (metis mset_any_order mset_eq_imp_distinct_iff)

lemma mset_sortByWeight [simp]: "mset (sortByWeight draw dm ts) = mset ts"
  by (simp add: sortByWeight_def)

lemma set_sortByWeight [simp]: "set (sortByWeight draw dm ts) = set ts"
  by (metis mset_sortByWeight set_mset_mset)

lemma length_sortByWeight [simp]: "length (sortByWeight draw dm ts) = length ts"
  by (metis mset_sortByWeight size_mset)

lemma distinct_sortByWeight [simp]: "distinct (sortByWeight draw dm ts) = distinct ts"
  by (metis mset_sortByWeight mset_eq_imp_distinct_iff)

lemma mset_sortEntitiesByID [simp]: "mset (sortEntitiesByID draw ids es) = mset es"
  by (simp add: sortEntitiesByID_def)

lemma set_sortEntitiesByID [simp]: "set (sortEntitiesByID draw ids es) = set es"
  by (metis mset_sortEntitiesByID set_mset_mset)

section \<open>The loop and its termination\<close>

definition positives :: "(rtype \<times> int) list \<Rightarrow> nat" where
  "positives ind = length (filter (\<lambda>(_, d). d > 0) ind)"

lemma positives_add_deg: "positives (add_deg t (- 1) ind) \<le> positives ind"
  by (induction ind) (auto simp: positives_def add_deg_def split: if_splits)

lemma positives_hit: "map_of ind t = Some 1 \<Longrightarrow> positives (add_deg t (- 1) ind) < positives ind"
proof (induction ind)
  case (Cons x ind)
  have le: "positives (add_deg t (- 1) ind) \<le> positives ind" by (rule positives_add_deg)
  show ?case using Cons le by (cases x) (auto simp: positives_def add_deg_def split: if_splits)
qed simp

lemma relax_measure:
  "relax ind ns nextLevel = (nl, ind') \<Longrightarrow> length nl + positives ind' \<le> length nextLevel + positives ind"
proof (induction ns arbitrary: ind nextLevel)
  case (Cons n ns)
  show ?case
  proof (cases "map_of ind n")
    case None
    then show ?thesis using Cons by simp
  next
    case (Some d)
    show ?thesis
      using Cons.IH [of "add_deg n (- 1) ind" "if d - 1 = 0 then nextLevel @ [n] else nextLevel"] Cons.prems Some
        positives_add_deg [of n ind] positives_hit [of ind n]
      by (cases "d = 1") auto
  qed
qed simp

record orders =
  o_types :: "nat \<Rightarrow> nat"
  o_graph :: "nat \<Rightarrow> nat \<Rightarrow> nat"
  o_sort :: "nat \<Rightarrow> nat \<Rightarrow> nat"
  o_ents :: "rtype \<Rightarrow> nat \<Rightarrow> nat"

function kahn :: "orders \<Rightarrow> DependencyManager \<Rightarrow> bool \<Rightarrow> rtype list \<Rightarrow> (rtype \<times> int) list \<Rightarrow> rtype list \<Rightarrow> rtype list" where
  "kahn ord dm reverse [] ind result = result"
| "kahn ord dm reverse (current # queue) ind result =
     (let k = Suc (length result);
          (nextLevel, ind') = relax ind (getNeighbors (o_graph ord k) dm current reverse) []
      in kahn ord dm reverse (queue @ sortByWeight (o_sort ord k) dm nextLevel) ind' (result @ [current]))"
  by pat_completeness auto
termination
proof (relation "measure (\<lambda>(ord, dm, reverse, queue, ind, result). length queue + positives ind)")
  fix ord dm reverse current queue ind result k x nextLevel ind'
  assume "x = relax ind (getNeighbors (o_graph ord k) dm current reverse) []" "(nextLevel, ind') = x"
  then show "((ord, dm, reverse, queue @ sortByWeight (o_sort ord k) dm nextLevel, ind', result @ [current]),
      (ord, dm, reverse, current # queue, ind, result)) \<in> measure (\<lambda>(ord, dm, reverse, queue, ind, result). length queue + positives ind)"
    using relax_measure [of ind _ "[]" nextLevel ind'] by fastforce
qed simp

definition topologicalSort :: "orders \<Rightarrow> (eref \<Rightarrow> nat) \<Rightarrow> DependencyManager \<Rightarrow> eref list \<Rightarrow> bool \<Rightarrow> eref list result" where
  "topologicalSort ord ids dm entities reverse =
     (if entities = [] then Inr entities
      else
        (let typeToEntities = group_types entities [];
             entityTypes = any_order (o_types ord) (map fst typeToEntities);
             inDegree = calculateInDegree (o_graph ord 0) dm entityTypes;
             queue = filter (\<lambda>t. map_of inDegree t = Some 0) entityTypes;
             result = kahn ord dm reverse (sortByWeight (o_sort ord 0) dm queue) inDegree []
         in if length result \<noteq> length entityTypes then Inl ''circular dependency detected in entity relationships''
            else Inr (concat (map (\<lambda>t. sortEntitiesByID (o_ents ord t) ids
                   (case map_of typeToEntities t of None \<Rightarrow> [] | Some l \<Rightarrow> l)) result))))"

definition GetInsertionOrder :: "orders \<Rightarrow> (eref \<Rightarrow> nat) \<Rightarrow> DependencyManager \<Rightarrow> eref list \<Rightarrow> eref list result" where
  "GetInsertionOrder ord ids dm entities = topologicalSort ord ids dm entities False"

definition GetDeletionOrder :: "orders \<Rightarrow> (eref \<Rightarrow> nat) \<Rightarrow> DependencyManager \<Rightarrow> eref list \<Rightarrow> eref list result" where
  "GetDeletionOrder ord ids dm entities = map_sum id rev (topologicalSort ord ids dm entities True)"

section \<open>Well-formed managers\<close>

inductive dm_reach :: "DependencyManager \<Rightarrow> bool" where
  new: "dm_reach NewDependencyManager"
| register: "dm_reach dm \<Longrightarrow> dm_reach (RegisterDependency a b dm)"
| weight: "dm_reach dm \<Longrightarrow> dm_reach (RegisterEntityWeight a w dm)"
| remove: "dm_reach dm \<Longrightarrow> dm_reach (RemoveDependency a b dm)"
| clear: "dm_reach dm \<Longrightarrow> dm_reach (Clear_deps dm)"

definition dm_ok :: "DependencyManager \<Rightarrow> bool" where
  "dm_ok dm \<longleftrightarrow> distinct (map fst (dependencyGraph dm)) \<and> (\<forall>t. distinct (dependents_of dm t) \<and> t \<notin> set (dependents_of dm t))"

lemma dependents_of_update [simp]:
  "dependents_of (dm\<lparr>dependencyGraph := AList.update k v (dependencyGraph dm)\<rparr>) t = (if t = k then v else dependents_of dm t)"
  by (simp add: dependents_of_def update_conv')

lemma dm_reach_ok: "dm_reach dm \<Longrightarrow> dm_ok dm"
proof (induction rule: dm_reach.induct)
  case new
  then show ?case by (simp add: dm_ok_def NewDependencyManager_def dependents_of_def)
next
  case (register dm a b)
  then show ?case by (auto simp: dm_ok_def RegisterDependency_def distinct_update)
next
  case (weight dm a w)
  then show ?case by (simp add: dm_ok_def RegisterEntityWeight_def dependents_of_def)
next
  case (remove dm a b)
  then show ?case by (auto simp: dm_ok_def RemoveDependency_def distinct_update)
next
  case (clear dm)
  then show ?case by (simp add: dm_ok_def Clear_deps_def dependents_of_def)
qed

lemma HasDependency_Register:
  "HasDependency (RegisterDependency a b dm) c d \<longleftrightarrow> HasDependency dm c d \<or> (c = a \<and> d = b \<and> a \<noteq> b)"
  by (auto simp: HasDependency_def RegisterDependency_def)

lemma HasDependency_Remove:
  "HasDependency (RemoveDependency a b dm) c d \<longleftrightarrow> HasDependency dm c d \<and> \<not> (c = a \<and> d = b)"
  by (auto simp: HasDependency_def RemoveDependency_def)

lemma dependents_keys: "u \<in> set (dependents_of dm t) \<Longrightarrow> t \<in> set (map fst (dependencyGraph dm))"
  by (cases "map_of (dependencyGraph dm) t") (auto simp: dependents_of_def dest!: map_of_SomeD intro: rev_image_eqI)

section \<open>Degrees\<close>

lemma map_of_add_deg: "map_of (add_deg t k ind) u = (if u = t then map_option (\<lambda>d. d + k) (map_of ind u) else map_of ind u)"
  by (induction ind) (auto simp: add_deg_def)

lemma map_of_count_dependents:
  "distinct deps \<Longrightarrow>
   map_of (count_dependents ind deps) u = map_option (\<lambda>d. d + (if u \<in> set deps then 1 else 0)) (map_of ind u)"
proof (induction ind deps rule: count_dependents.induct)
  case (1 ind)
  then show ?case by (cases "map_of ind u") auto
next
  case (2 ind dep deps)
  then show ?case by (cases "map_of ind u") (auto simp: map_of_add_deg)
qed

definition counted :: "DependencyManager \<Rightarrow> (rtype \<times> int) list \<Rightarrow> rtype list \<Rightarrow> rtype \<Rightarrow> nat" where
  "counted dm ind ks u = length (filter (\<lambda>a. map_of ind a \<noteq> None \<and> u \<in> set (dependents_of dm a)) ks)"

lemma map_of_count_all:
  assumes "dm_ok dm"
  shows "map_of (count_all dm ind ks) u = map_option (\<lambda>d. d + int (counted dm ind ks u)) (map_of ind u)"
proof (induction ks arbitrary: ind)
  case Nil
  then show ?case by (cases "map_of ind u") (auto simp: counted_def)
next
  case (Cons a ks)
  have d: "distinct (dependents_of dm a)" using assms by (simp add: dm_ok_def)
  let ?ind = "count_dependents ind (dependents_of dm a)"
  have dom: "map_of ?ind b = None \<longleftrightarrow> map_of ind b = None" for b
    using d by (simp add: map_of_count_dependents)
  have "counted dm ?ind ks u = counted dm ind ks u" by (simp add: counted_def dom)
  then show ?case
    using Cons.IH [of ?ind] Cons.IH [of ind] d
    by (cases "map_of ind a"; cases "map_of ind u") (auto simp: map_of_count_dependents counted_def)
qed

definition preds :: "DependencyManager \<Rightarrow> rtype set \<Rightarrow> rtype \<Rightarrow> rtype set" where
  "preds dm T u = {a \<in> T. HasDependency dm u a}"

lemma finite_preds [simp]: "finite T \<Longrightarrow> finite (preds dm T u)"
  by (simp add: preds_def)

lemma map_of_zeros: "map_of (map (\<lambda>t. (t, 0::int)) ts) u = (if u \<in> set ts then Some 0 else None)"
  by (induction ts) auto

lemma map_of_zeros_None: "map_of (map (\<lambda>t. (t, 0::int)) ts) u = None \<longleftrightarrow> u \<notin> set ts"
  by (simp add: map_of_zeros)

lemma calculateInDegree_preds:
  assumes "dm_ok dm"
  shows "map_of (calculateInDegree draw dm ts) u = (if u \<in> set ts then Some (int (card (preds dm (set ts) u))) else None)"
proof -
  let ?ks = "any_order draw (map fst (dependencyGraph dm))"
  have "counted dm (map (\<lambda>t. (t, 0)) ts) ?ks u = card (set (filter (\<lambda>a. a \<in> set ts \<and> u \<in> set (dependents_of dm a)) ?ks))"
    using assms by (subst distinct_card) (simp_all add: counted_def map_of_zeros_None dm_ok_def)
  also have "set (filter (\<lambda>a. a \<in> set ts \<and> u \<in> set (dependents_of dm a)) ?ks) = preds dm (set ts) u"
    using dependents_keys [of u dm] by (auto simp: preds_def HasDependency_def)
  finally show ?thesis using assms by (simp add: calculateInDegree_def map_of_count_all map_of_zeros)
qed

lemma relax_result:
  "distinct ns \<Longrightarrow>
   fst (relax ind ns nl) = nl @ filter (\<lambda>n. map_of ind n = Some 1) ns \<and>
   map_of (snd (relax ind ns nl)) u = map_option (\<lambda>d. if u \<in> set ns then d - 1 else d) (map_of ind u)"
proof (induction ns arbitrary: ind nl)
  case Nil
  then show ?case by (cases "map_of ind u") auto
next
  case (Cons n ns)
  have same: "filter (\<lambda>m. map_of (add_deg n (- 1) ind) m = Some 1) ns = filter (\<lambda>m. map_of ind m = Some 1) ns"
    using Cons.prems by (intro filter_cong) (auto simp: map_of_add_deg)
  show ?case using Cons same by (cases "map_of ind n"; cases "map_of ind u") (auto simp: map_of_add_deg)
qed

section \<open>Correctness of the loop for insertions\<close>

definition topo :: "DependencyManager \<Rightarrow> rtype set \<Rightarrow> rtype list \<Rightarrow> bool" where
  "topo dm T ts \<longleftrightarrow> (\<forall>i < length ts. preds dm T (ts ! i) \<subseteq> set (take i ts))"

lemma topo_snoc: "topo dm T (ts @ [t]) \<longleftrightarrow> topo dm T ts \<and> preds dm T t \<subseteq> set ts"
  by (auto simp: topo_def nth_append less_Suc_eq)

definition ready :: "DependencyManager \<Rightarrow> rtype set \<Rightarrow> rtype set \<Rightarrow> rtype set" where
  "ready dm T D = {u \<in> T. preds dm T u \<subseteq> D}"

definition kahn_inv :: "DependencyManager \<Rightarrow> rtype set \<Rightarrow> rtype list \<Rightarrow> (rtype \<times> int) list \<Rightarrow> rtype list \<Rightarrow> bool" where
  "kahn_inv dm T queue ind result \<longleftrightarrow>
     distinct (queue @ result) \<and> set queue \<union> set result = ready dm T (set result) \<and> topo dm T result \<and>
     (\<forall>u. map_of ind u = (if u \<in> T then Some (int (card (preds dm T u - set result))) else None))"

lemma card_1_mem: "c \<in> X \<Longrightarrow> card X = 1 \<longleftrightarrow> X = {c}"
  by (auto simp: card_1_singleton_iff)

lemma ready_step:
  assumes "finite T" and c: "c \<in> T" "c \<notin> D"
  shows "ready dm T (insert c D) = ready dm T D \<union> {u \<in> T. HasDependency dm u c \<and> card (preds dm T u - D) = 1}"
proof -
  have "preds dm T u \<subseteq> insert c D \<longleftrightarrow> preds dm T u \<subseteq> D \<or> (HasDependency dm u c \<and> card (preds dm T u - D) = 1)" for u
  proof (cases "c \<in> preds dm T u")
    case True
    then have "card (preds dm T u - D) = 1 \<longleftrightarrow> preds dm T u - D = {c}"
      using c by (intro card_1_mem) simp
    then show ?thesis using True c by (auto simp: preds_def)
  next
    case False
    then show ?thesis using c by (auto simp: preds_def)
  qed
  then show ?thesis by (auto simp: ready_def)
qed

lemma kahn_step:
  assumes T: "finite T" and ok: "dm_ok dm" and inv: "kahn_inv dm T (c # queue) ind result"
    and r: "relax ind (dependents_of dm c) [] = (nl, ind')"
  shows "kahn_inv dm T (queue @ sortByWeight draw dm nl) ind' (result @ [c])"
proof -
  have deg: "map_of ind u = (if u \<in> T then Some (int (card (preds dm T u - set result))) else None)" for u
    using inv by (auto simp: kahn_inv_def)
  have all: "insert c (set queue) \<union> set result = ready dm T (set result)"
    and dist: "distinct (c # queue @ result)" and tp: "topo dm T result"
    using inv by (auto simp: kahn_inv_def)
  have c: "c \<in> T" "c \<notin> set result" "preds dm T c \<subseteq> set result" using all dist by (auto simp: ready_def)
  have dd: "distinct (dependents_of dm c)" using ok by (simp add: dm_ok_def)
  have nl: "nl = filter (\<lambda>n. map_of ind n = Some 1) (dependents_of dm c)"
    using relax_result [OF dd, of ind "[]"] r by auto
  have ind': "map_of ind' u = map_option (\<lambda>d. if u \<in> set (dependents_of dm c) then d - 1 else d) (map_of ind u)" for u
    using relax_result [OF dd, of ind "[]" u] r by auto
  have set_nl: "set nl = {u \<in> T. HasDependency dm u c \<and> card (preds dm T u - set result) = 1}"
    by (auto simp: nl deg HasDependency_def split: if_splits)
  have cnt: "int (card (preds dm T u - insert c (set result))) =
      (if u \<in> set (dependents_of dm c) then int (card (preds dm T u - set result)) - 1 else int (card (preds dm T u - set result)))"
    for u
  proof (cases "u \<in> set (dependents_of dm c)")
    case True
    then have m: "c \<in> preds dm T u - set result" using c by (auto simp: preds_def HasDependency_def)
    have "card (preds dm T u - set result - {c}) = card (preds dm T u - set result) - 1"
      using m T by (simp add: card_Diff_singleton)
    moreover have "card (preds dm T u - set result) > 0" using m T by (metis card_gt_0_iff empty_iff finite_Diff finite_preds)
    moreover have "preds dm T u - insert c (set result) = preds dm T u - set result - {c}" by auto
    ultimately show ?thesis using True by simp
  next
    case False
    then have "preds dm T u - insert c (set result) = preds dm T u - set result"
      by (auto simp: preds_def HasDependency_def)
    then show ?thesis using False by simp
  qed
  have "u \<notin> ready dm T (set result)" if "u \<in> set nl" for u
  proof
    assume "u \<in> ready dm T (set result)"
    then have "preds dm T u - set result = {}" by (auto simp: ready_def)
    then have "card (preds dm T u - set result) = 0" by (simp only: card.empty)
    then show False using that unfolding set_nl by (simp only: mem_Collect_eq zero_neq_one simp_thms)
  qed
  then have disj: "set nl \<inter> (insert c (set queue) \<union> set result) = {}" unfolding all by blast
  show ?thesis
    unfolding kahn_inv_def
  proof (intro conjI allI)
    show "distinct ((queue @ sortByWeight draw dm nl) @ result @ [c])"
      using dist disj dd by (auto simp: nl)
    show "set (queue @ sortByWeight draw dm nl) \<union> set (result @ [c]) = ready dm T (set (result @ [c]))"
      using all ready_step [OF T c(1,2), of dm] set_nl by auto
    show "topo dm T (result @ [c])" using tp c by (simp add: topo_snoc)
    show "map_of ind' u = (if u \<in> T then Some (int (card (preds dm T u - set (result @ [c])))) else None)" for u
      using cnt [of u] by (simp add: ind' deg)
  qed
qed

lemma kahn_forward:
  "finite T \<Longrightarrow> dm_ok dm \<Longrightarrow> kahn_inv dm T queue ind result \<Longrightarrow>
   \<exists>ind'. kahn_inv dm T [] ind' (kahn ord dm False queue ind result)"
proof (induction ord dm False queue ind result rule: kahn.induct)
  case (1 ord dm ind result)
  then show ?case by auto
next
  case (2 ord dm c queue ind result)
  obtain nl ind' where r: "relax ind (dependents_of dm c) [] = (nl, ind')" by fastforce
  show ?case
    using 2 r kahn_step [OF 2(2,3,4) r, of "o_sort ord (Suc (length result))"]
    by (simp add: getNeighbors_def Let_def)
qed

definition dep_rel :: "DependencyManager \<Rightarrow> rtype set \<Rightarrow> (rtype \<times> rtype) set" where
  "dep_rel dm T = {(a, b). a \<in> T \<and> b \<in> T \<and> HasDependency dm b a}"

lemma topo_acyclic:
  assumes tp: "topo dm T ts" and d: "distinct ts" and s: "set ts = T"
  shows "acyclic (dep_rel dm T)"
proof -
  have "\<exists>i j. i < j \<and> j < length ts \<and> a = ts ! i \<and> b = ts ! j" if "(a, b) \<in> dep_rel dm T" for a b
  proof -
    have "b \<in> set ts" using that s by (simp add: dep_rel_def)
    then obtain j where j: "j < length ts" "b = ts ! j" by (metis in_set_conv_nth)
    then have "a \<in> set (take j ts)" using tp that by (auto simp: topo_def preds_def dep_rel_def)
    then obtain i where "i < j" "a = ts ! i" using j by (auto simp: in_set_conv_nth)
    then show ?thesis using j by blast
  qed
  then have "dep_rel dm T \<subseteq> inv_image less_than (\<lambda>t. SOME i. i < length ts \<and> ts ! i = t)"
  proof (intro subrelI)
    fix a b assume "(a, b) \<in> dep_rel dm T"
    assume "\<And>a b. (a, b) \<in> dep_rel dm T \<Longrightarrow> \<exists>i j. i < j \<and> j < length ts \<and> a = ts ! i \<and> b = ts ! j"
    then obtain i j where ij: "i < j" "j < length ts" "a = ts ! i" "b = ts ! j" using \<open>(a, b) \<in> dep_rel dm T\<close> by blast
    have u: "(SOME k. k < length ts \<and> ts ! k = ts ! n) = n" if "n < length ts" for n
      using that d by (intro some_equality) (auto simp: nth_eq_iff_index_eq)
    show "(a, b) \<in> inv_image less_than (\<lambda>t. SOME i. i < length ts \<and> ts ! i = t)"
      using ij u by simp
  qed
  then show ?thesis by (meson acyclic_subset wf_acyclic wf_inv_image wf_less_than)
qed

lemma ready_closed_cycle:
  assumes T: "finite T" and r: "R = ready dm T R" and "R \<noteq> T"
  shows "\<not> acyclic (dep_rel dm T)"
proof
  assume "acyclic (dep_rel dm T)"
  moreover have "finite (dep_rel dm T)"
    by (rule finite_subset [of _ "T \<times> T"]) (auto simp: dep_rel_def T)
  ultimately have wf: "wf (dep_rel dm T)" by (intro finite_acyclic_wf)
  have "R \<subseteq> T" using equalityD1 [OF r] unfolding ready_def by blast
  then obtain u where "u \<in> T - R" using \<open>R \<noteq> T\<close> by auto
  then obtain z where z: "z \<in> T - R" "\<And>y. (y, z) \<in> dep_rel dm T \<Longrightarrow> y \<notin> T - R"
    using wf by (metis wfE_min)
  then have "z \<in> ready dm T R" by (auto simp: preds_def dep_rel_def ready_def)
  then show False using z(1) equalityD2 [OF r] by blast
qed

lemma kahn_start:
  assumes ok: "dm_ok dm" and d: "distinct ts"
  shows "kahn_inv dm (set ts)
     (sortByWeight draw dm (filter (\<lambda>t. map_of (calculateInDegree draw' dm ts) t = Some 0) ts)) (calculateInDegree draw' dm ts) []"
proof -
  have "map_of (calculateInDegree draw' dm ts) t = Some 0 \<longleftrightarrow> t \<in> set ts \<and> preds dm (set ts) t = {}" for t
    using calculateInDegree_preds [OF ok] by auto
  then show ?thesis
    using d by (auto simp: kahn_inv_def topo_def ready_def calculateInDegree_preds [OF ok])
qed

lemma kahn_types:
  assumes ok: "dm_ok dm" and d: "distinct ts"
    and R: "R = kahn ord dm False (sortByWeight draw dm (filter (\<lambda>t. map_of (calculateInDegree draw' dm ts) t = Some 0) ts))
              (calculateInDegree draw' dm ts) []"
  shows "distinct R \<and> set R \<subseteq> set ts \<and> topo dm (set ts) R \<and> (length R = length ts \<longleftrightarrow> acyclic (dep_rel dm (set ts)))"
proof -
  obtain ind' where inv: "kahn_inv dm (set ts) [] ind' R"
    unfolding R using kahn_forward [OF _ ok kahn_start [OF ok d]] by blast
  then have R': "distinct R" "set R = ready dm (set ts) (set R)" "topo dm (set ts) R"
    by (simp_all add: kahn_inv_def)
  have sub: "set R \<subseteq> set ts" using equalityD1 [OF R'(2)] unfolding ready_def by blast
  have "length R = length ts \<longleftrightarrow> set R = set ts"
    using sub d R'(1) by (metis List.finite_set card_subset_eq distinct_card)
  moreover have "set R = set ts \<longleftrightarrow> acyclic (dep_rel dm (set ts))"
    using topo_acyclic [of dm "set ts" R] ready_closed_cycle [of "set ts" "set R" dm] R' by (metis List.finite_set)
  ultimately show ?thesis using R' sub by simp
qed

section \<open>From types to entities\<close>

abbreviation types_of :: "eref list \<Rightarrow> rtype set" where "types_of es \<equiv> er_type ` set es"

definition of_type :: "rtype \<Rightarrow> eref list \<Rightarrow> eref list" where
  "of_type t es = filter (\<lambda>e. er_type e = t) es"

lemma group_types_keys: "distinct (map fst m) \<Longrightarrow> distinct (map fst (group_types es m))"
  by (induction es m rule: group_types.induct) (simp_all add: distinct_update)

lemma group_types_set: "set (map fst (group_types es m)) = set (map fst m) \<union> types_of es"
  by (induction es m rule: group_types.induct) (auto simp: dom_update)

lemma map_of_group_types:
  "(case map_of (group_types es m) t of None \<Rightarrow> [] | Some l \<Rightarrow> l) = (case map_of m t of None \<Rightarrow> [] | Some l \<Rightarrow> l) @ of_type t es"
proof (induction es m rule: group_types.induct)
  case (2 e es m)
  then show ?case by (cases "er_type e = t") (auto simp: of_type_def update_conv')
qed (simp add: of_type_def)

lemma mset_concat_of_type:
  "distinct R \<Longrightarrow> mset (concat (map (\<lambda>t. of_type t es) R)) = mset (filter (\<lambda>e. er_type e \<in> set R) es)"
proof (induction R)
  case (Cons t R)
  have "filter_mset (\<lambda>e. er_type e \<in> insert t (set R)) (mset es) =
      filter_mset (\<lambda>e. er_type e = t) (mset es) + filter_mset (\<lambda>e. er_type e \<in> set R) (mset es)"
    using Cons.prems by (induction es) auto
  then show ?case using Cons by (simp add: of_type_def mset_filter)
qed simp

lemma mset_concat_sorted:
  "mset (concat (map (\<lambda>t. sortEntitiesByID (d t) ids (of_type t es)) R)) = mset (concat (map (\<lambda>t. of_type t es) R))"
  by (induction R) simp_all

lemma topo_sorted:
  assumes "topo dm T R" "distinct R" "set R \<subseteq> T"
  shows "sorted_wrt (\<lambda>a b. \<not> HasDependency dm a b) R"
proof (unfold sorted_wrt_iff_nth_less, intro allI impI notI)
  fix i j assume ij: "i < j" "j < length R" and "HasDependency dm (R ! i) (R ! j)"
  then have "R ! j \<in> preds dm T (R ! i)" "i < length R"
    using assms(3) nth_mem [of j R] by (auto simp: preds_def)
  then have "R ! j \<in> set (take i R)" using assms(1) by (auto simp: topo_def)
  then show False using ij assms(2) by (auto simp: in_set_conv_nth nth_eq_iff_index_eq)
qed

lemma concat_sorted:
  assumes "sorted_wrt (\<lambda>a b. \<not> HasDependency dm a b) R" and "\<And>t. \<not> HasDependency dm t t"
    and "\<And>t e. e \<in> set (g t) \<Longrightarrow> er_type e = t"
  shows "sorted_wrt (\<lambda>x y. \<not> HasDependency dm (er_type x) (er_type y)) (concat (map g R))"
  using assms(1)
proof (induction R)
  case (Cons t R)
  have "sorted_wrt (\<lambda>x y. \<not> HasDependency dm (er_type x) (er_type y)) (g t)"
    unfolding sorted_wrt_iff_nth_less using assms(2,3) by (metis nth_mem order_less_trans)
  then show ?case using Cons assms(3) by (fastforce simp: sorted_wrt_append)
qed simp

definition entity_types :: "orders \<Rightarrow> eref list \<Rightarrow> rtype list" where
  "entity_types ord es = any_order (o_types ord) (map fst (group_types es []))"

lemma entity_types: "distinct (entity_types ord es)" "set (entity_types ord es) = types_of es"
  using group_types_keys [of "[]" es] group_types_set [of es "[]"] by (simp_all add: entity_types_def)

lemma topologicalSort_unfold:
  fixes ord dm reverse
  assumes "es \<noteq> []"
  defines "ts \<equiv> entity_types ord es"
  defines "ind \<equiv> calculateInDegree (o_graph ord 0) dm ts"
  defines "R \<equiv> kahn ord dm reverse (sortByWeight (o_sort ord 0) dm (filter (\<lambda>t. map_of ind t = Some 0) ts)) ind []"
  shows "topologicalSort ord ids dm es reverse =
     (if length R \<noteq> card (types_of es) then Inl ''circular dependency detected in entity relationships''
      else Inr (concat (map (\<lambda>t. sortEntitiesByID (o_ents ord t) ids (of_type t es)) R)))"
proof -
  have "length ts = card (types_of es)" using distinct_card [OF entity_types(1)] by (simp add: ts_def entity_types(2))
  then show ?thesis
    using assms map_of_group_types [of es "[]"] by (simp add: topologicalSort_def entity_types_def Let_def)
qed

lemma insertion_sort_types:
  assumes ok: "dm_ok dm" and "es \<noteq> []"
  obtains R where "distinct R" "set R \<subseteq> types_of es" "topo dm (types_of es) R"
    "length R = card (types_of es) \<longleftrightarrow> acyclic (dep_rel dm (types_of es))"
    "GetInsertionOrder ord ids dm es =
       (if length R \<noteq> card (types_of es) then Inl ''circular dependency detected in entity relationships''
        else Inr (concat (map (\<lambda>t. sortEntitiesByID (o_ents ord t) ids (of_type t es)) R)))"
proof -
  let ?ts = "entity_types ord es"
  let ?ind = "calculateInDegree (o_graph ord 0) dm ?ts"
  let ?R = "kahn ord dm False (sortByWeight (o_sort ord 0) dm (filter (\<lambda>t. map_of ?ind t = Some 0) ?ts)) ?ind []"
  note k = kahn_types [OF ok entity_types(1) refl, of ord "o_sort ord 0" "o_graph ord 0" ord es]
  have len: "length ?ts = card (types_of es)"
    using distinct_card [OF entity_types(1)] by (simp add: entity_types(2))
  show ?thesis
  proof (rule that [of ?R])
    show "distinct ?R" "set ?R \<subseteq> types_of es" "topo dm (types_of es) ?R"
      "length ?R = card (types_of es) \<longleftrightarrow> acyclic (dep_rel dm (types_of es))"
      using k by (simp_all add: entity_types(2) len)
  qed (unfold GetInsertionOrder_def, rule topologicalSort_unfold [OF assms(2)])
qed

section \<open>The order of insertions\<close>

lemma insertion_order_mset:
  assumes "dm_ok dm" "GetInsertionOrder ord ids dm es = Inr res"
  shows "mset res = mset es"
proof (cases "es = []")
  case False
  obtain R where R: "distinct R" "set R \<subseteq> types_of es"
    "GetInsertionOrder ord ids dm es =
       (if length R \<noteq> card (types_of es) then Inl ''circular dependency detected in entity relationships''
        else Inr (concat (map (\<lambda>t. sortEntitiesByID (o_ents ord t) ids (of_type t es)) R)))"
    by (rule insertion_sort_types [OF assms(1) False])
  then have len: "length R = card (types_of es)"
    and res: "res = concat (map (\<lambda>t. sortEntitiesByID (o_ents ord t) ids (of_type t es)) R)"
    using assms(2) by (auto split: if_splits)
  have "set R = types_of es" using R(1,2) len by (simp add: card_subset_eq distinct_card)
  then show ?thesis using R(1) by (simp only: res mset_concat_sorted mset_concat_of_type) simp
qed (use assms in \<open>simp add: GetInsertionOrder_def topologicalSort_def\<close>)

lemma insertion_order_sorted:
  assumes "dm_ok dm" "GetInsertionOrder ord ids dm es = Inr res"
  shows "sorted_wrt (\<lambda>x y. \<not> HasDependency dm (er_type x) (er_type y)) res"
proof (cases "es = []")
  case False
  obtain R where R: "distinct R" "set R \<subseteq> types_of es" "topo dm (types_of es) R"
    "GetInsertionOrder ord ids dm es =
       (if length R \<noteq> card (types_of es) then Inl ''circular dependency detected in entity relationships''
        else Inr (concat (map (\<lambda>t. sortEntitiesByID (o_ents ord t) ids (of_type t es)) R)))"
    by (rule insertion_sort_types [OF assms(1) False])
  have "res = concat (map (\<lambda>t. sortEntitiesByID (o_ents ord t) ids (of_type t es)) R)"
    using R(4) assms(2) by (auto split: if_splits)
  moreover have "\<not> HasDependency dm t t" for t using assms(1) by (simp add: dm_ok_def HasDependency_def)
  ultimately show ?thesis
    by (simp only:) (rule concat_sorted [OF topo_sorted [OF R(3,1,2)]], simp_all add: of_type_def)
qed (use assms in \<open>simp add: GetInsertionOrder_def topologicalSort_def\<close>)

text \<open>
  C17. When the insertion order exists it lists every entity exactly once, and an entity comes
  after all entities of the types its own type depends on, whatever the order in which Go
  iterates over its maps.
\<close>

theorem insertion_order_topological:
  assumes "dm_reach dm" "GetInsertionOrder ord ids dm es = Inr res"
  shows "mset res = mset es \<and>
    (\<forall>i j. i < length res \<longrightarrow> j < length res \<longrightarrow> HasDependency dm (er_type (res ! j)) (er_type (res ! i)) \<longrightarrow> i < j)"
proof (intro conjI allI impI)
  note ok = dm_reach_ok [OF assms(1)]
  show "mset res = mset es" by (rule insertion_order_mset [OF ok assms(2)])
  fix i j assume ij: "i < length res" "j < length res" "HasDependency dm (er_type (res ! j)) (er_type (res ! i))"
  show "i < j"
  proof (rule ccontr)
    assume "\<not> i < j"
    moreover have "i \<noteq> j" using ij ok by (auto simp: dm_ok_def HasDependency_def)
    ultimately show False
      using insertion_order_sorted [OF ok assms(2)] ij by (simp add: sorted_wrt_iff_nth_less)
  qed
qed

definition demo_orders :: orders where
  "demo_orders = \<lparr>o_types = (\<lambda>_. 1), o_graph = (\<lambda>_ _. 1), o_sort = (\<lambda>_ _. 1), o_ents = (\<lambda>_ _. 1)\<rparr>"

definition demo_deps :: DependencyManager where
  "demo_deps = RegisterDependency (RType 2 ''Post'') (RType 1 ''User'') NewDependencyManager"

definition demo_refs :: "eref list" where
  "demo_refs = [ERef (RType 2 ''Post'') 10, ERef (RType 1 ''User'') 11, ERef (RType 2 ''Post'') 12]"

lemmas demo_dep_simps = demo_orders_def demo_deps_def demo_refs_def RegisterDependency_def NewDependencyManager_def dependents_of_def

lemma demo_insertion:
  "GetInsertionOrder demo_orders er_addr demo_deps demo_refs =
     Inr [ERef (RType 1 ''User'') 11, ERef (RType 2 ''Post'') 12, ERef (RType 2 ''Post'') 10]"
  by code_simp

theorem insertion_order_topological_witness:
  "\<exists>res. GetInsertionOrder demo_orders er_addr demo_deps demo_refs = Inr res \<and> mset res = mset demo_refs \<and> res \<noteq> demo_refs"
  using insertion_order_topological [OF _ demo_insertion] demo_insertion
  by (auto simp: demo_deps_def demo_refs_def intro: dm_reach.intros)

text \<open>
  C18. The insertion order exists exactly when the dependencies among the types of the given
  entities have no cycle; otherwise the error about a circular dependency is returned.
\<close>

theorem insertion_order_iff_acyclic:
  assumes "dm_reach dm"
  shows "GetInsertionOrder ord ids dm es = Inl ''circular dependency detected in entity relationships'' \<longleftrightarrow>
    (\<exists>t. (t, t) \<in> (dep_rel dm (types_of es))\<^sup>+)"
proof (cases "es = []")
  case True
  then show ?thesis by (simp add: GetInsertionOrder_def topologicalSort_def dep_rel_def)
next
  case False
  obtain R where "length R = card (types_of es) \<longleftrightarrow> acyclic (dep_rel dm (types_of es))"
    "GetInsertionOrder ord ids dm es =
       (if length R \<noteq> card (types_of es) then Inl ''circular dependency detected in entity relationships''
        else Inr (concat (map (\<lambda>t. sortEntitiesByID (o_ents ord t) ids (of_type t es)) R)))"
    by (rule insertion_sort_types [OF dm_reach_ok [OF assms] False])
  then show ?thesis by (auto simp: acyclic_def)
qed

theorem insertion_order_iff_acyclic_witness:
  "GetInsertionOrder demo_orders er_addr (RegisterDependency (RType 1 ''User'') (RType 2 ''Post'') demo_deps) demo_refs =
     Inl ''circular dependency detected in entity relationships''"
proof -
  let ?dm = "RegisterDependency (RType 1 ''User'') (RType 2 ''Post'') demo_deps"
  have "(RType 1 ''User'', RType 2 ''Post'') \<in> dep_rel ?dm (types_of demo_refs)"
    "(RType 2 ''Post'', RType 1 ''User'') \<in> dep_rel ?dm (types_of demo_refs)"
    by (simp_all add: dep_rel_def HasDependency_Register HasDependency_def demo_dep_simps)
  then have "(RType 1 ''User'', RType 1 ''User'') \<in> (dep_rel ?dm (types_of demo_refs))\<^sup>+"
    by (meson r_into_trancl' trancl_into_trancl)
  moreover have "dm_reach ?dm" by (simp add: demo_deps_def dm_reach.intros)
  ultimately show ?thesis using insertion_order_iff_acyclic by blast
qed

section \<open>The order of deletions\<close>

lemma relax_outside: "(\<And>n. n \<in> set ns \<Longrightarrow> map_of ind n = None) \<Longrightarrow> relax ind ns nl = (nl, ind)"
  by (induction ns) simp_all

lemma kahn_reverse:
  "(\<And>c draw n. c \<in> set queue \<Longrightarrow> n \<in> set (getNeighbors draw dm c True) \<Longrightarrow> map_of ind n = None) \<Longrightarrow>
   kahn ord dm True queue ind result = result @ queue"
proof (induction queue arbitrary: result)
  case (Cons c queue)
  have "relax ind (getNeighbors (o_graph ord (Suc (length result))) dm c True) [] = ([], ind)"
    using Cons.prems by (intro relax_outside) auto
  moreover have "sortByWeight d dm [] = []" for d by (simp add: sortByWeight_def)
  moreover have "kahn ord dm True queue ind (result @ [c]) = (result @ [c]) @ queue"
    using Cons.prems by (intro Cons.IH) auto
  ultimately show ?case by (simp add: Let_def)
qed simp

lemma root_types:
  assumes "dm_ok dm"
  shows "map_of (calculateInDegree draw dm (entity_types ord es)) t = Some 0 \<longleftrightarrow> t \<in> types_of es \<and> preds dm (types_of es) t = {}"
  by (simp add: calculateInDegree_preds [OF assms] entity_types(2))

lemma deletion_types:
  fixes ord dm
  assumes ok: "dm_ok dm" and "es \<noteq> []"
  defines "ts \<equiv> entity_types ord es"
  defines "R \<equiv> sortByWeight (o_sort ord 0) dm (filter (\<lambda>t. map_of (calculateInDegree (o_graph ord 0) dm ts) t = Some 0) ts)"
  shows "topologicalSort ord ids dm es True =
     (if length R \<noteq> card (types_of es) then Inl ''circular dependency detected in entity relationships''
      else Inr (concat (map (\<lambda>t. sortEntitiesByID (o_ents ord t) ids (of_type t es)) R)))"
proof -
  have "kahn ord dm True R (calculateInDegree (o_graph ord 0) dm ts) [] = [] @ R"
    unfolding R_def ts_def
    by (rule kahn_reverse)
      (auto simp: getNeighbors_def root_types [OF ok] calculateInDegree_preds [OF ok] entity_types(2) preds_def HasDependency_def)
  then show ?thesis
    using topologicalSort_unfold [OF assms(2), where ord = ord and dm = dm and reverse = True and ids = ids]
    by (simp add: R_def ts_def)
qed

lemma deletion_roots:
  assumes ok: "dm_ok dm"
  shows "length (filter (\<lambda>t. map_of (calculateInDegree draw dm (entity_types ord es)) t = Some 0) (entity_types ord es)) = card (types_of es)
    \<longleftrightarrow> (\<forall>t \<in> types_of es. preds dm (types_of es) t = {})"
proof -
  let ?ts = "entity_types ord es" and ?ind = "calculateInDegree draw dm (entity_types ord es)"
  have "length (filter (\<lambda>t. map_of ?ind t = Some 0) ?ts) = length ?ts \<longleftrightarrow> (\<forall>t \<in> set ?ts. map_of ?ind t = Some 0)"
    by (metis (mono_tags, lifting) filter_True length_filter_less less_irrefl)
  then show ?thesis using distinct_card [OF entity_types(1), of ord es] by (simp add: entity_types(2) root_types [OF ok])
qed

lemma deletion_order_iff:
  assumes ok: "dm_ok dm"
  shows "GetDeletionOrder ord ids dm es = Inl ''circular dependency detected in entity relationships'' \<longleftrightarrow>
    (\<exists>a \<in> set es. \<exists>b \<in> set es. HasDependency dm (er_type a) (er_type b))"
proof (cases "es = []")
  case True
  then show ?thesis by (simp add: GetDeletionOrder_def topologicalSort_def)
next
  case False
  show ?thesis
    using deletion_types [OF ok False, of ord ids] deletion_roots [OF ok]
    by (auto simp: GetDeletionOrder_def preds_def)
qed

lemma deletion_order_mset:
  assumes ok: "dm_ok dm" and r: "GetDeletionOrder ord ids dm es = Inr res"
  shows "mset res = mset es"
proof (cases "es = []")
  case False
  let ?R = "sortByWeight (o_sort ord 0) dm (filter (\<lambda>t. map_of (calculateInDegree (o_graph ord 0) dm (entity_types ord es)) t = Some 0) (entity_types ord es))"
  have len: "length ?R = card (types_of es)"
    and res: "rev res = concat (map (\<lambda>t. sortEntitiesByID (o_ents ord t) ids (of_type t es)) ?R)"
    using deletion_types [OF ok False, of ord ids] r by (auto simp: GetDeletionOrder_def split: if_splits)
  have "distinct ?R" "set ?R \<subseteq> types_of es" by (auto simp: entity_types)
  then have R: "distinct ?R" "set ?R = types_of es" using len by (simp_all add: card_subset_eq distinct_card [symmetric])
  have "mset (rev res) = mset es"
    by (simp only: res mset_concat_sorted mset_concat_of_type [OF R(1)] R(2)) simp
  then show ?thesis by simp
qed (use r in \<open>simp add: GetDeletionOrder_def topologicalSort_def\<close>)

text \<open>
  The in-degrees are counted along the dependencies, the loop for deletions walks them
  backwards: no in-degree is ever decremented.  The deletion order therefore exists exactly when
  no dependency is registered among the types of the given entities, although any acyclic set of
  dependencies has one.
\<close>

theorem deletion_order_fails_on_dependency:
  assumes "dm_reach dm"
  shows "GetDeletionOrder ord ids dm es = Inl ''circular dependency detected in entity relationships'' \<longleftrightarrow>
    (\<exists>a \<in> set es. \<exists>b \<in> set es. HasDependency dm (er_type a) (er_type b))"
  by (rule deletion_order_iff [OF dm_reach_ok [OF assms]])

theorem deletion_order_fails_on_dependency_witness:
  "GetDeletionOrder demo_orders er_addr demo_deps demo_refs = Inl ''circular dependency detected in entity relationships''"
proof -
  have "dm_reach demo_deps" by (simp add: demo_deps_def dm_reach.intros)
  then show ?thesis
    using deletion_order_fails_on_dependency [of demo_deps demo_orders er_addr demo_refs]
    by (simp add: HasDependency_def demo_dep_simps)
qed

end
