(* ===== verification/Uow_Snapshot.thy ===== *)
theory Uow_Snapshot
  imports Uow_Dependency
begin

text \<open>
  Entities and the snapshots for the dirty check, from \<open>src/unitofwork/entity.go\<close> and
  \<open>src/unitofwork/snapshot.go\<close>.  An entity lives in a heap behind its pointer: the fields that
  \<open>BaseEntity\<close> gives it and the user's own part, whose type is a parameter.  What reflection shows
  of a struct, the deep copy through JSON and \<open>reflect.DeepEqual\<close> are parameters too (record
  \<open>reflection\<close>).

  The lemmas relate \<open>IsDirty\<close> to \<open>GetChangedFields\<close>, and show that two entities of one type share
  a single snapshot, because every identifier is printed as the same text.
\<close>

section \<open>Entities\<close>

record 'v entity =
  e_ID :: nat
  e_CreatedAt :: time
  e_UpdatedAt :: time
  e_DeletedAt :: "time option"
  e_Revision :: int
  e_data :: 'v

type_synonym 'v eheap = "eref \<Rightarrow> 'v entity"

definition GetID :: "'v eheap \<Rightarrow> eref \<Rightarrow> nat" where "GetID h e = e_ID (h e)"

definition SetID :: "nat \<Rightarrow> eref \<Rightarrow> 'v eheap \<Rightarrow> 'v eheap" where "SetID i e h = h(e := (h e)\<lparr>e_ID := i\<rparr>)"

definition IsNew :: "'v eheap \<Rightarrow> eref \<Rightarrow> bool" where "IsNew h e \<longleftrightarrow> e_ID (h e) = 0"

definition GetRevision :: "'v eheap \<Rightarrow> eref \<Rightarrow> int" where "GetRevision h e = e_Revision (h e)"

definition SetRevision :: "int \<Rightarrow> eref \<Rightarrow> 'v eheap \<Rightarrow> 'v eheap" where "SetRevision r e h = h(e := (h e)\<lparr>e_Revision := r\<rparr>)"

text \<open>The revision is an \<open>int64\<close>: the next one wraps.\<close>

definition GetRevisionNext :: "'v eheap \<Rightarrow> eref \<Rightarrow> int" where
  "GetRevisionNext h e = sint (of_int (e_Revision (h e) + 1) :: 64 word)"

definition SetCreatedAt :: "time \<Rightarrow> eref \<Rightarrow> 'v eheap \<Rightarrow> 'v eheap" where "SetCreatedAt t e h = h(e := (h e)\<lparr>e_CreatedAt := t\<rparr>)"

definition SetUpdatedAt :: "time \<Rightarrow> eref \<Rightarrow> 'v eheap \<Rightarrow> 'v eheap" where "SetUpdatedAt t e h = h(e := (h e)\<lparr>e_UpdatedAt := t\<rparr>)"

definition SetDeletedAt :: "time \<Rightarrow> eref \<Rightarrow> 'v eheap \<Rightarrow> 'v eheap" where "SetDeletedAt t e h = h(e := (h e)\<lparr>e_DeletedAt := Some t\<rparr>)"

definition IsDeleted :: "'v eheap \<Rightarrow> eref \<Rightarrow> bool" where "IsDeleted h e \<longleftrightarrow> e_DeletedAt (h e) \<noteq> None"

section \<open>Field values\<close>

datatype go_kind = KSlice | KMap | KChan | KFunc | KPtr | KStruct bool | KOther

record 'g field =
  f_Name :: string
  f_exported :: bool
  f_tag :: string
  f_kind :: go_kind
  f_value :: "'g option"

record ('v, 'g) reflection =
  x_fields :: "'v entity \<Rightarrow> 'g field list"
  x_DeepCopy :: "'g option \<Rightarrow> 'g option result"
  x_TypeOf :: "'g \<Rightarrow> string"
  x_DeepEqual :: "'g \<Rightarrow> 'g \<Rightarrow> bool"

definition needDeepCopy :: "go_kind \<Rightarrow> bool" where
  "needDeepCopy k =
     (case k of
        KSlice \<Rightarrow> True | KMap \<Rightarrow> True | KChan \<Rightarrow> True | KFunc \<Rightarrow> True | KPtr \<Rightarrow> True
      | KStruct is_time \<Rightarrow> \<not> is_time
      | KOther \<Rightarrow> False)"

definition field_copy :: "('v, 'g) reflection \<Rightarrow> 'g field \<Rightarrow> 'g option" where
  "field_copy rf f =
     (if needDeepCopy (f_kind f) then (case x_DeepCopy rf (f_value f) of Inr v \<Rightarrow> v | Inl err \<Rightarrow> f_value f) else f_value f)"

definition extractFieldValues :: "('v, 'g) reflection \<Rightarrow> 'v entity \<Rightarrow> (string \<times> 'g option) list" where
  "extractFieldValues rf ent =
     map (\<lambda>f. (f_Name f, field_copy rf f)) (filter (\<lambda>f. f_exported f \<and> f_tag f \<noteq> ''ignore'') (x_fields rf ent))"

definition deepEqual :: "('v, 'g) reflection \<Rightarrow> 'g option \<Rightarrow> 'g option \<Rightarrow> bool" where
  "deepEqual rf a b =
     (case (a, b) of
        (None, None) \<Rightarrow> True
      | (None, Some _) \<Rightarrow> False
      | (Some _, None) \<Rightarrow> False
      | (Some x, Some y) \<Rightarrow> if x_TypeOf rf x \<noteq> x_TypeOf rf y then False else x_DeepEqual rf x y)"

section \<open>Snapshots\<close>

record 'g EntitySnapshot =
  ss_entityType :: rtype
  ss_entityID :: nat
  ss_fieldValues :: "(string \<times> 'g option) list"

datatype FieldChangeType = FieldChangeTypeAdded | FieldChangeTypeModified | FieldChangeTypeDeleted

record 'g FieldChange =
  fc_FieldName :: string
  fc_OldValue :: "'g option"
  fc_NewValue :: "'g option"
  fc_Type :: FieldChangeType

definition NewEntitySnapshot :: "('v, 'g) reflection \<Rightarrow> 'v eheap \<Rightarrow> eref \<Rightarrow> 'g EntitySnapshot" where
  "NewEntitySnapshot rf h e =
     \<lparr>ss_entityType = er_type e, ss_entityID = GetID h e, ss_fieldValues = extractFieldValues rf (h e)\<rparr>"

definition field_changed :: "('v, 'g) reflection \<Rightarrow> (string \<times> 'g option) list \<Rightarrow> string \<times> 'g option \<Rightarrow> bool" where
  "field_changed rf currentValues fv =
     (case map_of currentValues (fst fv) of None \<Rightarrow> True | Some v \<Rightarrow> \<not> deepEqual rf (snd fv) v)"

definition snapshot_IsDirty :: "('v, 'g) reflection \<Rightarrow> 'g EntitySnapshot \<Rightarrow> 'v eheap \<Rightarrow> eref \<Rightarrow> bool" where
  "snapshot_IsDirty rf s h e =
     (if ss_entityType s \<noteq> er_type e then True
      else if ss_entityID s \<noteq> GetID h e then True
      else
        (let currentValues = extractFieldValues rf (h e) in
         list_ex (field_changed rf currentValues) (ss_fieldValues s) \<or>
         list_ex (\<lambda>(fieldName, _). map_of (ss_fieldValues s) fieldName = None) currentValues))"

definition change_of :: "('v, 'g) reflection \<Rightarrow> (string \<times> 'g option) list \<Rightarrow> string \<times> 'g option \<Rightarrow> 'g FieldChange option" where
  "change_of rf currentValues fv =
     (case map_of currentValues (fst fv) of
        None \<Rightarrow> Some \<lparr>fc_FieldName = fst fv, fc_OldValue = snd fv, fc_NewValue = None, fc_Type = FieldChangeTypeDeleted\<rparr>
      | Some v \<Rightarrow>
          if \<not> deepEqual rf (snd fv) v
          then Some \<lparr>fc_FieldName = fst fv, fc_OldValue = snd fv, fc_NewValue = v, fc_Type = FieldChangeTypeModified\<rparr>
          else None)"

definition snapshot_GetChangedFields :: "('v, 'g) reflection \<Rightarrow> 'g EntitySnapshot \<Rightarrow> 'v eheap \<Rightarrow> eref \<Rightarrow> 'g FieldChange list" where
  "snapshot_GetChangedFields rf s h e =
     (if ss_entityType s \<noteq> er_type e then []
      else
        (let currentValues = extractFieldValues rf (h e) in
         List.map_filter (change_of rf currentValues) (ss_fieldValues s) @
         map (\<lambda>(fieldName, v). \<lparr>fc_FieldName = fieldName, fc_OldValue = None, fc_NewValue = v, fc_Type = FieldChangeTypeAdded\<rparr>)
           (filter (\<lambda>(fieldName, _). map_of (ss_fieldValues s) fieldName = None) currentValues)))"

type_synonym 'g SnapshotManager = "string \<rightharpoonup> 'g EntitySnapshot"

definition NewSnapshotManager :: "'g SnapshotManager" where "NewSnapshotManager = Map.empty"

definition buildKey :: "'v eheap \<Rightarrow> eref \<Rightarrow> string" where
  "buildKey h e = rt_String (er_type e) @ ''#'' @ toString_uint (GetID h e)"

definition TakeSnapshot :: "('v, 'g) reflection \<Rightarrow> 'v eheap \<Rightarrow> eref \<Rightarrow> 'g SnapshotManager \<Rightarrow> 'g SnapshotManager" where
  "TakeSnapshot rf h e sm = sm(buildKey h e \<mapsto> NewEntitySnapshot rf h e)"

definition IsDirty :: "('v, 'g) reflection \<Rightarrow> 'g SnapshotManager \<Rightarrow> 'v eheap \<Rightarrow> eref \<Rightarrow> bool" where
  "IsDirty rf sm h e = (case sm (buildKey h e) of None \<Rightarrow> False | Some s \<Rightarrow> snapshot_IsDirty rf s h e)"

definition GetChangedFields :: "('v, 'g) reflection \<Rightarrow> 'g SnapshotManager \<Rightarrow> 'v eheap \<Rightarrow> eref \<Rightarrow> 'g FieldChange list" where
  "GetChangedFields rf sm h e = (case sm (buildKey h e) of None \<Rightarrow> [] | Some s \<Rightarrow> snapshot_GetChangedFields rf s h e)"

definition RemoveSnapshot :: "'v eheap \<Rightarrow> eref \<Rightarrow> 'g SnapshotManager \<Rightarrow> 'g SnapshotManager" where
  "RemoveSnapshot h e sm = sm(buildKey h e := None)"

definition Clear_snapshots :: "'g SnapshotManager \<Rightarrow> 'g SnapshotManager" where "Clear_snapshots sm = Map.empty"

section \<open>The dirty check\<close>

lemma map_filter_empty: "List.map_filter f xs = [] \<longleftrightarrow> (\<forall>x \<in> set xs. f x = None)"
  by (induction xs) (auto simp: List.map_filter_simps split: option.splits)

lemma change_of_None: "change_of rf cur fv = None \<longleftrightarrow> \<not> field_changed rf cur fv"
  by (simp add: change_of_def field_changed_def split: option.splits)

lemma snapshot_dirty_iff_changes:
  "ss_entityType s = er_type e \<Longrightarrow>
   snapshot_IsDirty rf s h e \<longleftrightarrow> ss_entityID s \<noteq> GetID h e \<or> snapshot_GetChangedFields rf s h e \<noteq> []"
  by (auto simp: snapshot_IsDirty_def snapshot_GetChangedFields_def Let_def map_filter_empty change_of_None
      list_ex_iff filter_empty_conv)

lemma buildKey_ids: "buildKey h e = buildKey h' e" "er_type e = er_type e' \<Longrightarrow> buildKey h e = buildKey h' e'"
  by (simp_all add: buildKey_def toString_uint_def)

text \<open>
  C36. After a snapshot of an entity, and as long as no other entity of its type is photographed,
  the entity counts as dirty exactly when its identifier or one of its tracked fields changed, and
  the changes reported are those fields.
\<close>

theorem snapshot_detects_changes:
  "IsDirty rf (TakeSnapshot rf h e sm) h' e =
     (\<not> (GetID h e = GetID h' e \<and> GetChangedFields rf (TakeSnapshot rf h e sm) h' e = []))"
proof -
  have "TakeSnapshot rf h e sm (buildKey h' e) = Some (NewEntitySnapshot rf h e)"
    by (simp add: TakeSnapshot_def buildKey_ids(1) [of h' e h])
  then show ?thesis
    by (simp add: IsDirty_def GetChangedFields_def snapshot_dirty_iff_changes NewEntitySnapshot_def)
qed

text \<open>
  Every identifier is printed as \<open><uint Value>\<close>, so entities of one type share their snapshot:
  after a snapshot of a second entity the first one is dirty although nothing changed.
\<close>

theorem snapshots_collide:
  assumes "er_type e = er_type e'" "GetID h e \<noteq> GetID h e'"
  shows "IsDirty rf (TakeSnapshot rf h e' (TakeSnapshot rf h e sm)) h e"
proof -
  have "TakeSnapshot rf h e' (TakeSnapshot rf h e sm) (buildKey h e) = Some (NewEntitySnapshot rf h e')"
    using assms(1) by (simp add: TakeSnapshot_def buildKey_ids(2) [of e e' h h])
  then show ?thesis using assms by (simp add: IsDirty_def snapshot_IsDirty_def NewEntitySnapshot_def)
qed

end
