(* ===== verification/Uow_Operation.thy ===== *)
theory Uow_Operation
  imports Uow_Snapshot
begin

text \<open>
  The database operations of \<open>src/unitofwork/operation.go\<close>.  An operation is a value of the
  datatype \<open>operation\<close>, whose constructors are the six structs that implement the interface; the
  methods are functions on it.  The pointer of an insertion to its unit of work serves only to read
  the batch size, which is an argument of \<open>Execute\<close>.

  GORM is a parameter: a call of the database takes the heap (GORM fills in identifiers) and
  answers with an error or the number of rows affected.  The calls are recorded in the order they
  are made.
\<close>

section \<open>Operations\<close>

datatype OperationType =
    OperationTypeInsert | OperationTypeUpdate | OperationTypeDelete
  | OperationTypeBulkInsert | OperationTypeBulkUpdate | OperationTypeBulkDelete

datatype 'g operation =
    InsertOperation eref
  | UpdateOperation eref "'g FieldChange list"
  | DeleteOperation eref
  | BulkInsertOperation "eref list"
  | BulkUpdateOperation "eref list"
  | BulkDeleteOperation "eref list"

fun GetOperationType :: "'g operation \<Rightarrow> OperationType" where
  "GetOperationType (InsertOperation e) = OperationTypeInsert"
| "GetOperationType (UpdateOperation e c) = OperationTypeUpdate"
| "GetOperationType (DeleteOperation e) = OperationTypeDelete"
| "GetOperationType (BulkInsertOperation es) = OperationTypeBulkInsert"
| "GetOperationType (BulkUpdateOperation es) = OperationTypeBulkUpdate"
| "GetOperationType (BulkDeleteOperation es) = OperationTypeBulkDelete"

fun GetEntities :: "'g operation \<Rightarrow> eref list" where
  "GetEntities (InsertOperation e) = [e]"
| "GetEntities (UpdateOperation e c) = [e]"
| "GetEntities (DeleteOperation e) = [e]"
| "GetEntities (BulkInsertOperation es) = es"
| "GetEntities (BulkUpdateOperation es) = es"
| "GetEntities (BulkDeleteOperation es) = es"

definition GetEntity :: "'g operation \<Rightarrow> eref option" where
  "GetEntity op = (case GetEntities op of [] \<Rightarrow> None | e # _ \<Rightarrow> Some e)"

definition GetEntityType :: "'g operation \<Rightarrow> rtype option" where
  "GetEntityType op = map_option er_type (GetEntity op)"

definition same_entity :: "'v eheap \<Rightarrow> eref \<Rightarrow> eref option \<Rightarrow> bool" where
  "same_entity h e other = (case other of None \<Rightarrow> False | Some e' \<Rightarrow> GetID h e = GetID h e' \<and> er_type e = er_type e')"

fun SameIdentity :: "'v eheap \<Rightarrow> 'g operation \<Rightarrow> 'g operation \<Rightarrow> bool" where
  "SameIdentity h (InsertOperation e) other =
     (if GetOperationType other \<noteq> OperationTypeInsert then False else same_entity h e (GetEntity other))"
| "SameIdentity h (UpdateOperation e c) other =
     (if GetOperationType other \<noteq> OperationTypeUpdate then False else same_entity h e (GetEntity other))"
| "SameIdentity h (DeleteOperation e) other =
     (if GetOperationType other \<noteq> OperationTypeDelete then False else same_entity h e (GetEntity other))"
| "SameIdentity h (BulkInsertOperation es) other = False"
| "SameIdentity h (BulkUpdateOperation es) other = False"
| "SameIdentity h (BulkDeleteOperation es) other = False"

fun CanMerge :: "'g operation \<Rightarrow> 'g operation \<Rightarrow> bool" where
  "CanMerge (InsertOperation e) other \<longleftrightarrow>
     GetOperationType other = OperationTypeInsert \<and> Some (er_type e) = GetEntityType other"
| "CanMerge (UpdateOperation e c) other \<longleftrightarrow>
     GetOperationType other = OperationTypeUpdate \<and> Some (er_type e) = GetEntityType other"
| "CanMerge (DeleteOperation e) other \<longleftrightarrow>
     GetOperationType other = OperationTypeDelete \<and> Some (er_type e) = GetEntityType other"
| "CanMerge (BulkInsertOperation es) other \<longleftrightarrow>
     GetOperationType other \<in> {OperationTypeInsert, OperationTypeBulkInsert} \<and>
     GetEntityType (BulkInsertOperation es :: 'g operation) = GetEntityType other"
| "CanMerge (BulkUpdateOperation es) other \<longleftrightarrow>
     GetOperationType other \<in> {OperationTypeUpdate, OperationTypeBulkUpdate} \<and>
     GetEntityType (BulkUpdateOperation es :: 'g operation) = GetEntityType other"
| "CanMerge (BulkDeleteOperation es) other \<longleftrightarrow>
     GetOperationType other \<in> {OperationTypeDelete, OperationTypeBulkDelete} \<and>
     GetEntityType (BulkDeleteOperation es :: 'g operation) = GetEntityType other"

fun Merge :: "'g operation \<Rightarrow> 'g operation \<Rightarrow> 'g operation" where
  "Merge (InsertOperation e) other =
     (if \<not> CanMerge (InsertOperation e) other then InsertOperation e else BulkInsertOperation (e # GetEntities other))"
| "Merge (UpdateOperation e c) other =
     (if \<not> CanMerge (UpdateOperation e c) other then UpdateOperation e c else BulkUpdateOperation (e # GetEntities other))"
| "Merge (DeleteOperation e) other =
     (if \<not> CanMerge (DeleteOperation e) other then DeleteOperation e else BulkDeleteOperation (e # GetEntities other))"
| "Merge (BulkInsertOperation es) other =
     (if \<not> CanMerge (BulkInsertOperation es) other then BulkInsertOperation es else BulkInsertOperation (es @ GetEntities other))"
| "Merge (BulkUpdateOperation es) other =
     (if \<not> CanMerge (BulkUpdateOperation es) other then BulkUpdateOperation es else BulkUpdateOperation (es @ GetEntities other))"
| "Merge (BulkDeleteOperation es) other =
     (if \<not> CanMerge (BulkDeleteOperation es) other then BulkDeleteOperation es else BulkDeleteOperation (es @ GetEntities other))"

section \<open>Execution\<close>

datatype dbcall =
    DbCreate eref
  | DbCreateInBatches "eref list" int
  | DbUpdates eref nat int
  | DbSave eref
  | DbDelete eref
  | DbDeleteAll "eref list"

record 'v dbenv =
  x_Validatable :: "rtype \<Rightarrow> bool"
  x_HasTimestamps :: "rtype \<Rightarrow> bool"
  x_HasRevision :: "rtype \<Rightarrow> bool"
  x_SoftDelete :: "rtype \<Rightarrow> bool"
  x_Validate :: "'v entity \<Rightarrow> string option"
  x_Now :: "nat \<Rightarrow> time"
  x_call :: "nat \<Rightarrow> dbcall \<Rightarrow> 'v eheap \<Rightarrow> (nat result) \<times> 'v eheap"

record 'v world =
  w_heap :: "'v eheap"
  w_log :: "dbcall list"
  w_clock :: nat

definition db_call :: "'v dbenv \<Rightarrow> dbcall \<Rightarrow> 'v world \<Rightarrow> nat result \<times> 'v world" where
  "db_call db c w =
     (case x_call db (w_clock w) c (w_heap w) of
        (res, h) \<Rightarrow> (res, w\<lparr>w_heap := h, w_log := w_log w @ [c], w_clock := Suc (w_clock w)\<rparr>))"

definition upd_heap :: "('v eheap \<Rightarrow> 'v eheap) \<Rightarrow> 'v world \<Rightarrow> 'v world" where
  "upd_heap f w = w\<lparr>w_heap := f (w_heap w), w_clock := Suc (w_clock w)\<rparr>"

definition validate :: "'v dbenv \<Rightarrow> eref \<Rightarrow> 'v world \<Rightarrow> string option" where
  "validate db e w = (if x_Validatable db (er_type e) then x_Validate db (w_heap w e) else None)"

definition stamp_new :: "'v dbenv \<Rightarrow> eref \<Rightarrow> 'v world \<Rightarrow> 'v world" where
  "stamp_new db e w =
     (if x_HasTimestamps db (er_type e) \<and> IsNew (w_heap w) e
      then upd_heap (\<lambda>h. SetUpdatedAt (x_Now db (w_clock w)) e (SetCreatedAt (x_Now db (w_clock w)) e h)) w
      else w)"

definition stamp_updated :: "'v dbenv \<Rightarrow> eref \<Rightarrow> 'v world \<Rightarrow> 'v world" where
  "stamp_updated db e w =
     (if x_HasTimestamps db (er_type e) then upd_heap (SetUpdatedAt (x_Now db (w_clock w)) e) w else w)"

definition execute_insert :: "'v dbenv \<Rightarrow> eref \<Rightarrow> 'v world \<Rightarrow> unit result \<times> 'v world" where
  "execute_insert db e w =
     (case validate db e w of
        Some err \<Rightarrow> (Inl (''validation failed: '' @ err), w)
      | None \<Rightarrow>
          (case db_call db (DbCreate e) (stamp_new db e w) of
             (Inl err, w1) \<Rightarrow> (Inl (''failed to insert entity: '' @ err), w1)
           | (Inr _, w1) \<Rightarrow> (Inr (), w1)))"

definition execute_update :: "'v dbenv \<Rightarrow> eref \<Rightarrow> 'v world \<Rightarrow> unit result \<times> 'v world" where
  "execute_update db e w =
     (case validate db e w of
        Some err \<Rightarrow> (Inl (''validation failed: '' @ err), w)
      | None \<Rightarrow>
          (let w1 = stamp_updated db e w in
           if x_HasRevision db (er_type e) then
             (let originalRevision = GetRevision (w_heap w1) e;
                  w2 = upd_heap (\<lambda>h. SetRevision (GetRevisionNext h e) e h) w1
              in case db_call db (DbUpdates e (GetID (w_heap w2) e) originalRevision) w2 of
                   (Inl err, w3) \<Rightarrow> (Inl (''failed to update entity: '' @ err), w3)
                 | (Inr rows, w3) \<Rightarrow> (if rows = 0 then Inl ''optimistic lock failed'' else Inr (), w3))
           else
             (case db_call db (DbSave e) w1 of
                (Inl err, w2) \<Rightarrow> (Inl (''failed to update entity: '' @ err), w2)
              | (Inr _, w2) \<Rightarrow> (Inr (), w2))))"

definition execute_delete :: "'v dbenv \<Rightarrow> eref \<Rightarrow> 'v world \<Rightarrow> unit result \<times> 'v world" where
  "execute_delete db e w =
     (if x_SoftDelete db (er_type e) then
        (let now = x_Now db (w_clock w);
             w1 = upd_heap (\<lambda>h. let h1 = SetDeletedAt now e h in if x_HasTimestamps db (er_type e) then SetUpdatedAt now e h1 else h1) w
         in case db_call db (DbSave e) w1 of
              (Inl err, w2) \<Rightarrow> (Inl (''failed to soft delete entity: '' @ err), w2)
            | (Inr _, w2) \<Rightarrow> (Inr (), w2))
      else
        (case db_call db (DbDelete e) w of
           (Inl err, w1) \<Rightarrow> (Inl (''failed to delete entity: '' @ err), w1)
         | (Inr _, w1) \<Rightarrow> (Inr (), w1)))"

fun execute_each :: "(eref \<Rightarrow> 'v world \<Rightarrow> unit result \<times> 'v world) \<Rightarrow> eref list \<Rightarrow> 'v world \<Rightarrow> unit result \<times> 'v world" where
  "execute_each f [] w = (Inr (), w)"
| "execute_each f (e # es) w = (case f e w of (Inl err, w1) \<Rightarrow> (Inl err, w1) | (Inr _, w1) \<Rightarrow> execute_each f es w1)"

definition prepare_insert :: "'v dbenv \<Rightarrow> eref \<Rightarrow> 'v world \<Rightarrow> unit result \<times> 'v world" where
  "prepare_insert db e w =
     (case validate db e w of Some err \<Rightarrow> (Inl (''validation failed: '' @ err), w) | None \<Rightarrow> (Inr (), stamp_new db e w))"

text \<open>
  \<open>ConvertToTypedSlice\<close> panics on an entity of another type (\<open>None\<close>).  The soft deletion of a bulk
  is decided by its first entity.
\<close>

definition ConvertToTypedSlice :: "eref list \<Rightarrow> rtype \<Rightarrow> eref list option" where
  "ConvertToTypedSlice es t = (if list_all (\<lambda>e. er_type e = t) es then Some es else None)"

fun Execute :: "'v dbenv \<Rightarrow> int \<Rightarrow> 'g operation \<Rightarrow> 'v world \<Rightarrow> (unit result \<times> 'v world) option" where
  "Execute db batchSize (InsertOperation e) w = Some (execute_insert db e w)"
| "Execute db batchSize (UpdateOperation e c) w = Some (execute_update db e w)"
| "Execute db batchSize (DeleteOperation e) w = Some (execute_delete db e w)"
| "Execute db batchSize (BulkInsertOperation es) w =
     (case es of
        [] \<Rightarrow> Some (Inr (), w)
      | e # _ \<Rightarrow>
          (case execute_each (prepare_insert db) es w of
             (Inl err, w1) \<Rightarrow> Some (Inl err, w1)
           | (Inr _, w1) \<Rightarrow>
               (case ConvertToTypedSlice es (er_type e) of
                  None \<Rightarrow> None
                | Some typed \<Rightarrow>
                    (case db_call db (DbCreateInBatches typed batchSize) w1 of
                       (Inl err, w2) \<Rightarrow> Some (Inl (''failed to bulk insert entities: '' @ err), w2)
                     | (Inr _, w2) \<Rightarrow> Some (Inr (), w2)))))"
| "Execute db batchSize (BulkUpdateOperation es) w = Some (execute_each (execute_update db) es w)"
| "Execute db batchSize (BulkDeleteOperation es) w =
     (case es of
        [] \<Rightarrow> Some (Inr (), w)
      | e # _ \<Rightarrow>
          if x_SoftDelete db (er_type e) then Some (execute_each (execute_delete db) es w)
          else
            (case db_call db (DbDeleteAll es) w of
               (Inl err, w1) \<Rightarrow> Some (Inl (''failed to bulk delete entities: '' @ err), w1)
             | (Inr _, w1) \<Rightarrow> Some (Inr (), w1)))"

end
