(* ===== verification/Uow_Correct.thy ===== *)
theory Uow_Correct
  imports Unit_Of_Work
begin

text \<open>
  Correctness of the unit of work (\<open>src/unitofwork\<close>).  Abstractly a unit of work is a map from the
  identity of an entity, its type and identifier, to what is pending for it; the first part shows
  that \<open>Create\<close>, \<open>Update\<close> and \<open>Delete\<close> implement this map and that the queue holds exactly the
  operation the map calls for.  The second part is about the plan that \<open>Commit\<close> makes of the queue,
  the third about its execution.
\<close>

section \<open>The pending state of an entity\<close>

type_synonym ekey = "rtype \<times> nat"

datatype pending = PNew | PDirty | PRemoved

definition key_of :: "(eref \<Rightarrow> nat) \<Rightarrow> eref \<Rightarrow> ekey" where
  "key_of ids e = (er_type e, ids e)"

definition listed :: "(eref \<Rightarrow> nat) \<Rightarrow> entity_map \<Rightarrow> ekey \<Rightarrow> bool" where
  "listed ids m k \<longleftrightarrow> (\<exists>x \<in> set (entities_at m (fst k)). ids x = snd k)"

definition status :: "(eref \<Rightarrow> nat) \<Rightarrow> 'g UnitOfWork \<Rightarrow> ekey \<Rightarrow> pending option" where
  "status ids u k =
     (if listed ids (newEntities u) k then Some PNew
      else if listed ids (dirtyEntities u) k then Some PDirty
      else if listed ids (removedEntities u) k then Some PRemoved
      else None)"

definition spec_create :: "unit result \<Rightarrow> pending option \<Rightarrow> unit result \<times> pending option" where
  "spec_create limit s =
     (case s of
        None \<Rightarrow> (limit, if limit = Inr () then Some PNew else None)
      | Some PNew \<Rightarrow> (Inr (), s)
      | Some PDirty \<Rightarrow> (Inl ''entity is already marked as dirty'', s)
      | Some PRemoved \<Rightarrow> (Inl ''entity is already marked for removal'', s))"

definition spec_update :: "bool \<Rightarrow> pending option \<Rightarrow> unit result \<times> pending option" where
  "spec_update changed s =
     (case s of
        None \<Rightarrow> (Inr (), if changed then Some PDirty else None)
      | Some PRemoved \<Rightarrow> (Inl ''cannot mark removed entity as dirty'', s)
      | Some _ \<Rightarrow> (Inr (), s))"

definition spec_delete :: "pending option \<Rightarrow> unit result \<times> pending option" where
  "spec_delete s = (Inr (), if s = Some PNew then None else Some PRemoved)"

definition kind_of :: "pending option \<Rightarrow> OperationType list" where
  "kind_of s =
     (case s of
        None \<Rightarrow> []
      | Some PNew \<Rightarrow> [OperationTypeInsert]
      | Some PDirty \<Rightarrow> [OperationTypeUpdate]
      | Some PRemoved \<Rightarrow> [OperationTypeDelete])"

definition single :: "'g operation \<Rightarrow> bool" where
  "single op \<longleftrightarrow> GetOperationType op \<in> {OperationTypeInsert, OperationTypeUpdate, OperationTypeDelete}"

definition op_entity :: "'g operation \<Rightarrow> eref" where "op_entity op = hd (GetEntities op)"

definition kinds_at :: "(eref \<Rightarrow> nat) \<Rightarrow> 'g operation list \<Rightarrow> ekey \<Rightarrow> OperationType list" where
  "kinds_at ids ops k = map GetOperationType (filter (\<lambda>op. key_of ids (op_entity op) = k) ops)"

definition lists_ok :: "(eref \<Rightarrow> nat) \<Rightarrow> 'g UnitOfWork \<Rightarrow> bool" where
  "lists_ok ids u \<longleftrightarrow>
     (\<forall>t. distinct (map ids (entities_at (newEntities u) t)) \<and> distinct (map ids (entities_at (dirtyEntities u) t))) \<and>
     (\<forall>k. \<not> (listed ids (newEntities u) k \<and> listed ids (dirtyEntities u) k) \<and>
          \<not> (listed ids (newEntities u) k \<and> listed ids (removedEntities u) k) \<and>
          \<not> (listed ids (dirtyEntities u) k \<and> listed ids (removedEntities u) k))"

definition uow_ok :: "(eref \<Rightarrow> nat) \<Rightarrow> 'g UnitOfWork \<Rightarrow> bool" where
  "uow_ok ids u \<longleftrightarrow> lists_ok ids u \<and> (\<forall>op \<in> set (operations u). single op) \<and>
     (\<forall>k. kinds_at ids (operations u) k = kind_of (status ids u k))"

section \<open>Lists of entities\<close>

lemma entities_at_append [simp]:
  "entities_at (append_entity e m) t = entities_at m t @ (if t = er_type e then [e] else [])"
  by (simp add: entities_at_def append_entity_def update_conv')

lemma entities_at_update [simp]: "entities_at (AList.update t es m) t' = (if t' = t then es else entities_at m t')"
  by (simp add: entities_at_def update_conv')

lemma containsEntity_listed: "containsEntity h m e \<longleftrightarrow> listed (GetID h) m (key_of (GetID h) e)"
  by (auto simp: containsEntity_def listed_def key_of_def list_ex_iff)

lemma listed_append [simp]: "listed ids (append_entity e m) k \<longleftrightarrow> listed ids m k \<or> k = key_of ids e"
  by (cases k) (auto simp: listed_def key_of_def)

lemma remove_first_None: "remove_first p xs = None \<longleftrightarrow> (\<forall>x \<in> set xs. \<not> p x)"
  by (induction xs) auto

lemma remove_first_distinct:
  "distinct (map ids xs) \<Longrightarrow> remove_first (\<lambda>x. ids x = i) xs = Some ys \<Longrightarrow> ys = filter (\<lambda>x. ids x \<noteq> i) xs"
proof (induction xs arbitrary: ys)
  case (Cons x xs)
  have "filter (\<lambda>y. ids y \<noteq> ids x) xs = xs" using Cons.prems(1) by (simp add: filter_id_conv image_iff) metis
  then show ?case using Cons by (cases "ids x = i") auto
qed simp

lemma removeFrom_found: "fst (removeFromEntityList h e m) \<longleftrightarrow> listed (GetID h) m (key_of (GetID h) e)"
proof -
  have "fst (removeFromEntityList h e m) \<longleftrightarrow> remove_first (\<lambda>x. GetID h x = GetID h e) (entities_at m (er_type e)) \<noteq> None"
    by (simp add: removeFromEntityList_def split: option.splits)
  then show ?thesis unfolding remove_first_None by (auto simp: listed_def key_of_def)
qed

lemma removeFrom_entities:
  assumes "distinct (map (GetID h) (entities_at m (er_type e)))"
  shows "entities_at (snd (removeFromEntityList h e m)) t =
    (if t = er_type e then filter (\<lambda>x. GetID h x \<noteq> GetID h e) (entities_at m t) else entities_at m t)"
proof (cases "remove_first (\<lambda>x. GetID h x = GetID h e) (entities_at m (er_type e))")
  case None
  then have "filter (\<lambda>x. GetID h x \<noteq> GetID h e) (entities_at m (er_type e)) = entities_at m (er_type e)"
    by (simp add: remove_first_None filter_id_conv)
  then show ?thesis using None by (simp add: removeFromEntityList_def)
next
  case (Some ys)
  then show ?thesis using remove_first_distinct [OF assms Some] by (simp add: removeFromEntityList_def)
qed

lemma removeFrom_listed:
  assumes "distinct (map (GetID h) (entities_at m (er_type e)))"
  shows "listed (GetID h) (snd (removeFromEntityList h e m)) k \<longleftrightarrow> listed (GetID h) m k \<and> k \<noteq> key_of (GetID h) e"
  using removeFrom_entities [OF assms, of "fst k"] by (cases k) (auto simp: listed_def key_of_def)

lemma removeFrom_distinct:
  assumes "distinct (map (GetID h) (entities_at m (er_type e)))" "distinct (map (GetID h) (entities_at m t))"
  shows "distinct (map (GetID h) (entities_at (snd (removeFromEntityList h e m)) t))"
  using assms by (simp add: removeFrom_entities [OF assms(1)] distinct_map_filter)

lemma removeOperation_filter:
  "(\<forall>op \<in> set ops. single op) \<Longrightarrow>
   removeOperationByEntity h e ops = filter (\<lambda>op. key_of (GetID h) (op_entity op) \<noteq> key_of (GetID h) e) ops"
  unfolding removeOperationByEntity_def
proof (rule filter_cong [OF refl])
  fix op :: "'a operation" assume "\<forall>op \<in> set ops. single op" "op \<in> set ops"
  then have "single op" by blast
  then show "(\<not> SameIdentity h op (InsertOperation e) \<and> \<not> SameIdentity h op (UpdateOperation e []) \<and>
      \<not> SameIdentity h op (DeleteOperation e)) = (key_of (GetID h) (op_entity op) \<noteq> key_of (GetID h) e)"
    by (cases op) (auto simp: single_def same_entity_def GetEntity_def key_of_def op_entity_def)
qed

lemma kinds_at_snoc [simp]:
  "kinds_at ids (ops @ [op]) k = kinds_at ids ops k @ (if key_of ids (op_entity op) = k then [GetOperationType op] else [])"
  by (simp add: kinds_at_def)

lemma kinds_at_removed:
  "kinds_at ids (filter (\<lambda>op. key_of ids (op_entity op) \<noteq> k') ops) k = (if k = k' then [] else kinds_at ids ops k)"
  by (auto simp: kinds_at_def filter_empty_conv intro!: arg_cong [where f = "map GetOperationType"] filter_cong)

section \<open>Refinement\<close>

lemma op_entity_simps [simp]:
  "op_entity (InsertOperation e) = e" "op_entity (UpdateOperation e c) = e" "op_entity (DeleteOperation e) = e"
  by (simp_all add: op_entity_def)

lemma single_simps [simp]: "single (InsertOperation e)" "single (UpdateOperation e c)" "single (DeleteOperation e)"
  by (simp_all add: single_def)

lemma lists_ok_status:
  assumes "lists_ok ids u"
  shows "listed ids (newEntities u) k \<longleftrightarrow> status ids u k = Some PNew"
    "listed ids (dirtyEntities u) k \<longleftrightarrow> status ids u k = Some PDirty"
    "listed ids (removedEntities u) k \<longleftrightarrow> status ids u k = Some PRemoved"
proof -
  have "\<not> (listed ids (newEntities u) k \<and> listed ids (dirtyEntities u) k)"
    "\<not> (listed ids (newEntities u) k \<and> listed ids (removedEntities u) k)"
    "\<not> (listed ids (dirtyEntities u) k \<and> listed ids (removedEntities u) k)"
    using assms unfolding lists_ok_def by blast+
  then show "listed ids (newEntities u) k \<longleftrightarrow> status ids u k = Some PNew"
    "listed ids (dirtyEntities u) k \<longleftrightarrow> status ids u k = Some PDirty"
    "listed ids (removedEntities u) k \<longleftrightarrow> status ids u k = Some PRemoved"
    by (auto simp: status_def)
qed

lemma distinct_append_entity:
  "distinct (map ids (entities_at m t)) \<Longrightarrow> \<not> listed ids m (key_of ids e) \<Longrightarrow>
   distinct (map ids (entities_at (append_entity e m) t))"
  by (auto simp: listed_def key_of_def)

lemma uow_okI:
  assumes "lists_ok ids u" "\<forall>op \<in> set (operations u). single op" "\<And>k. kinds_at ids (operations u) k = kind_of (status ids u k)"
  shows "uow_ok ids u"
  using assms by (simp add: uow_ok_def)

lemma create_ok:
  assumes ok: "uow_ok (GetID h) u" and open_u: "\<not> isCommitted u" "\<not> isRolledBack u" and k: "k = key_of (GetID h) e"
    and c: "Create_entity h (Some e) u = (res, u')"
  shows "uow_ok (GetID h) u' \<and>
    (res, status (GetID h) u' k) = spec_create (checkMemoryLimit u) (status (GetID h) u k) \<and>
    (\<forall>k'. k' \<noteq> k \<longrightarrow> status (GetID h) u' k' = status (GetID h) u k')"
proof -
  let ?ids = "GetID h"
  have lok: "lists_ok ?ids u" and sing: "\<forall>op \<in> set (operations u). single op"
    and kinds: "\<And>k. kinds_at ?ids (operations u) k = kind_of (status ?ids u k)"
    using ok by (auto simp: uow_ok_def)
  note ls = lists_ok_status [OF lok]
  show ?thesis
  proof (cases "status ?ids u k = None \<and> checkMemoryLimit u = Inr ()")
    case False
    then show ?thesis
      using c ok open_u
      by (auto simp: Create_entity_def containsEntity_listed ls k [symmetric] spec_create_def split: if_splits sum.splits option.splits pending.splits)
  next
    case True
    then have u': "u' = addOperation (InsertOperation e) (u\<lparr>newEntities := append_entity e (newEntities u)\<rparr>)" and res: "res = Inr ()"
      using c open_u by (auto simp: Create_entity_def containsEntity_listed ls k [symmetric])
    have st: "status ?ids u' k' = (if k' = k then Some PNew else status ?ids u k')" for k'
      using ls by (simp add: u' status_def addOperation_def k)
    have "lists_ok ?ids u'"
      using lok True ls [of k] unfolding lists_ok_def u' addOperation_def
      by (auto simp: k intro!: distinct_append_entity simp del: entities_at_append)
    then have "uow_ok ?ids u'"
      using sing kinds True by (intro uow_okI) (auto simp: st, auto simp: u' addOperation_def k kind_of_def)
    then show ?thesis using True by (simp add: st res spec_create_def)
  qed
qed

definition counts_as_changed :: "('v, 'g) reflection \<Rightarrow> 'v eheap \<Rightarrow> eref \<Rightarrow> 'g UnitOfWork \<Rightarrow> bool" where
  "counts_as_changed rf h e u \<longleftrightarrow> EnableDirtyCheck (uow_cfg u) \<longrightarrow> IsDirty rf (snapshotManager u) h e"

lemma update_ok:
  assumes ok: "uow_ok (GetID h) u" and open_u: "\<not> isCommitted u" "\<not> isRolledBack u" and k: "k = key_of (GetID h) e"
    and c: "Update_entity rf h (Some e) u = (res, u')"
  shows "uow_ok (GetID h) u' \<and>
    (res, status (GetID h) u' k) = spec_update (counts_as_changed rf h e u) (status (GetID h) u k) \<and>
    (\<forall>k'. k' \<noteq> k \<longrightarrow> status (GetID h) u' k' = status (GetID h) u k')"
proof -
  let ?ids = "GetID h"
  have lok: "lists_ok ?ids u" and sing: "\<forall>op \<in> set (operations u). single op"
    and kinds: "\<And>k. kinds_at ?ids (operations u) k = kind_of (status ?ids u k)"
    using ok by (auto simp: uow_ok_def)
  note ls = lists_ok_status [OF lok]
  show ?thesis
  proof (cases "status ?ids u k = None \<and> counts_as_changed rf h e u")
    case False
    then show ?thesis
      using c ok open_u
      by (auto simp: Update_entity_def containsEntity_listed ls k [symmetric] spec_update_def counts_as_changed_def Let_def
          split: if_splits option.splits pending.splits)
  next
    case True
    then obtain ch where u': "u' = addOperation (UpdateOperation e ch) (u\<lparr>dirtyEntities := append_entity e (dirtyEntities u)\<rparr>)"
      and res: "res = Inr ()"
      using c open_u by (auto simp: Update_entity_def containsEntity_listed ls k [symmetric] counts_as_changed_def Let_def)
    have st: "status ?ids u' k' = (if k' = k then Some PDirty else status ?ids u k')" for k'
      using ls [of k] True by (auto simp: u' status_def addOperation_def k)
    have "lists_ok ?ids u'"
      using lok True ls [of k] unfolding lists_ok_def u' addOperation_def
      by (auto simp: k intro!: distinct_append_entity simp del: entities_at_append)
    then have "uow_ok ?ids u'"
      using sing kinds True by (intro uow_okI) (auto simp: st, auto simp: u' addOperation_def k kind_of_def)
    then show ?thesis using True by (simp add: st res spec_update_def)
  qed
qed

lemma delete_ok:
  assumes ok: "uow_ok (GetID h) u" and open_u: "\<not> isCommitted u" "\<not> isRolledBack u" and k: "k = key_of (GetID h) e"
    and c: "Delete_entity h (Some e) u = (res, u')"
  shows "uow_ok (GetID h) u' \<and>
    (res, status (GetID h) u' k) = spec_delete (status (GetID h) u k) \<and>
    (\<forall>k'. k' \<noteq> k \<longrightarrow> status (GetID h) u' k' = status (GetID h) u k')"
proof -
  let ?ids = "GetID h"
  have lok: "lists_ok ?ids u" and sing: "\<forall>op \<in> set (operations u). single op"
    and kinds: "\<And>k. kinds_at ?ids (operations u) k = kind_of (status ?ids u k)"
    using ok by (auto simp: uow_ok_def)
  note ls = lists_ok_status [OF lok]
  have dist: "distinct (map ?ids (entities_at (newEntities u) t))" "distinct (map ?ids (entities_at (dirtyEntities u) t))" for t
    using lok by (simp_all add: lists_ok_def)
  note rf = removeFrom_found [of h e, folded k] removeFrom_listed [OF dist(1) [of "er_type e"], folded k]
    removeFrom_listed [OF dist(2) [of "er_type e"], folded k]
    removeFrom_distinct [OF dist(1) [of "er_type e"] dist(1)] removeFrom_distinct [OF dist(2) [of "er_type e"] dist(2)]
  note ops = removeOperation_filter [OF sing, of h e, folded k]
  show ?thesis
  proof (cases "status ?ids u k = Some PNew")
    case True
    then have u': "u' = u\<lparr>newEntities := snd (removeFromEntityList h e (newEntities u)),
        operations := removeOperationByEntity h e (operations u)\<rparr>" and res: "res = Inr ()"
      using c open_u rf(1) [of "newEntities u"] ls(1) [of k] by (auto simp: Delete_entity_def split: prod.splits)
    have st: "status ?ids u' k' = (if k' = k then None else status ?ids u k')" for k'
      using ls [of k] True by (auto simp: u' status_def rf)
    have "lists_ok ?ids u'" using lok unfolding lists_ok_def u' by (auto simp: rf)
    then have "uow_ok ?ids u'"
      using sing kinds by (intro uow_okI) (auto simp: st, auto simp: u' ops kinds_at_removed kind_of_def)
    then show ?thesis using True by (simp add: st res spec_delete_def)
  next
    case False
    then have u': "u' = addOperation (DeleteOperation e) (u\<lparr>dirtyEntities := snd (removeFromEntityList h e (dirtyEntities u)),
        operations := removeOperationByEntity h e (operations u), removedEntities := append_entity e (removedEntities u)\<rparr>)"
      and res: "res = Inr ()"
      using c open_u rf(1) [of "newEntities u"] ls(1) [of k] by (auto simp: Delete_entity_def split: prod.splits)
    have st: "status ?ids u' k' = (if k' = k then Some PRemoved else status ?ids u k')" for k'
      using ls [of k] False by (auto simp: u' status_def addOperation_def rf k [symmetric])
    have "lists_ok ?ids u'"
      using lok False ls [of k] unfolding lists_ok_def u' addOperation_def by (auto simp: rf k [symmetric] simp del: entities_at_append)
    then have "uow_ok ?ids u'"
      using sing kinds by (intro uow_okI) (auto simp: st, auto simp: u' ops addOperation_def kinds_at_removed k [symmetric] kind_of_def)
    then show ?thesis using False by (simp add: st res spec_delete_def)
  qed
qed

inductive uow_reach :: "('v, 'g) reflection \<Rightarrow> (eref \<Rightarrow> nat) \<Rightarrow> 'g UnitOfWork \<Rightarrow> bool" for rf ids where
  new: "uow_reach rf ids (NewUnitOfWork cfg)"
| create: "uow_reach rf ids u \<Longrightarrow> GetID (h :: 'v eheap) = ids \<Longrightarrow> uow_reach rf ids (snd (Create_entity h x u))"
| update: "uow_reach rf ids u \<Longrightarrow> GetID (h :: 'v eheap) = ids \<Longrightarrow> uow_reach rf ids (snd (Update_entity rf h x u))"
| delete: "uow_reach rf ids u \<Longrightarrow> GetID (h :: 'v eheap) = ids \<Longrightarrow> uow_reach rf ids (snd (Delete_entity h x u))"
| snapshot: "uow_reach rf ids u \<Longrightarrow> uow_reach rf ids (TakeSnapshot_uow rf (h :: 'v eheap) e u)"
| depend: "uow_reach rf ids u \<Longrightarrow> uow_reach rf ids (u\<lparr>dependencyManager := RegisterDependency a b (dependencyManager u)\<rparr>)"
| commit: "uow_reach rf ids u \<Longrightarrow> Commit (db :: 'v dbenv) ord ord' u w = Some (res, u', w') \<Longrightarrow> uow_reach rf ids u'"
| rollback: "uow_reach rf ids u \<Longrightarrow> uow_reach rf ids (snd (Rollback u))"

lemma finished_unchanged:
  "isCommitted u \<or> isRolledBack u \<or> x = None \<Longrightarrow>
   snd (Create_entity h x u) = u \<and> snd (Update_entity rf h x u) = u \<and> snd (Delete_entity h x u) = u"
  by (auto simp: Create_entity_def Update_entity_def Delete_entity_def)

lemma uow_ok_same:
  "newEntities u' = newEntities u \<Longrightarrow> dirtyEntities u' = dirtyEntities u \<Longrightarrow> removedEntities u' = removedEntities u \<Longrightarrow>
   operations u' = operations u \<Longrightarrow> uow_ok ids u' = uow_ok ids u"
  by (simp add: uow_ok_def lists_ok_def status_def)

lemma uow_ok_empty:
  "newEntities u = [] \<Longrightarrow> dirtyEntities u = [] \<Longrightarrow> removedEntities u = [] \<Longrightarrow> operations u = [] \<Longrightarrow> uow_ok ids u"
  by (simp add: uow_ok_def lists_ok_def status_def listed_def entities_at_def kinds_at_def kind_of_def)

lemma reach_ok: "uow_reach rf ids u \<Longrightarrow> uow_ok ids u"
proof (induction rule: uow_reach.induct)
  case (create u h x)
  show ?case
  proof (cases "isCommitted u \<or> isRolledBack u \<or> x = None")
    case False
    then obtain e where x: "x = Some e" by auto
    obtain res u' where c: "Create_entity h (Some e) u = (res, u')" by fastforce
    show ?thesis using create_ok [OF _ _ _ refl c] create False by (simp add: x c)
  qed (use create finished_unchanged in metis)
next
  case (update u h x)
  show ?case
  proof (cases "isCommitted u \<or> isRolledBack u \<or> x = None")
    case False
    then obtain e where x: "x = Some e" by auto
    obtain res u' where c: "Update_entity rf h (Some e) u = (res, u')" by fastforce
    show ?thesis using update_ok [OF _ _ _ refl c] update False by (simp add: x c)
  qed (use update finished_unchanged in metis)
next
  case (delete u h x)
  show ?case
  proof (cases "isCommitted u \<or> isRolledBack u \<or> x = None")
    case False
    then obtain e where x: "x = Some e" by auto
    obtain res u' where c: "Delete_entity h (Some e) u = (res, u')" by fastforce
    show ?thesis using delete_ok [OF _ _ _ refl c] delete False by (simp add: x c)
  qed (use delete finished_unchanged in metis)
next
  case (commit u db ord ord' w res u' w')
  then show ?case
    by (auto simp: Commit_def clear_uow_def uow_ok_empty split: if_splits option.splits sum.splits prod.splits)
next
  case (rollback u)
  then show ?case by (auto simp: Rollback_def clear_uow_def uow_ok_empty)
next
  case (snapshot u h e)
  then show ?case using uow_ok_same [of "TakeSnapshot_uow rf h e u" u ids] by (simp add: TakeSnapshot_uow_def)
next
  case (depend u a b)
  then show ?case using uow_ok_same [of "u\<lparr>dependencyManager := RegisterDependency a b (dependencyManager u)\<rparr>" u ids] by simp
qed (simp add: NewUnitOfWork_def uow_ok_empty)

lemma reach_deps: "uow_reach rf ids u \<Longrightarrow> dm_reach (dependencyManager u)"
proof (induction rule: uow_reach.induct)
  case (commit u db ord ord' w res u' w')
  then show ?case by (auto simp: Commit_def clear_uow_def split: if_splits option.splits sum.splits prod.splits)
qed (auto simp: NewUnitOfWork_def DefaultDependencyManager_def Create_entity_def Update_entity_def Delete_entity_def addOperation_def
    TakeSnapshot_uow_def Rollback_def clear_uow_def Let_def intro: dm_reach.intros split: option.splits sum.splits prod.splits)

definition refines :: "(eref \<Rightarrow> nat) \<Rightarrow> ekey \<Rightarrow> 'g UnitOfWork \<Rightarrow> unit result \<times> 'g UnitOfWork \<Rightarrow> unit result \<times> pending option \<Rightarrow> bool" where
  "refines ids k u out spec \<longleftrightarrow>
     uow_ok ids (snd out) \<and> (fst out, status ids (snd out) k) = spec \<and>
     (\<forall>k'. k' \<noteq> k \<longrightarrow> status ids (snd out) k' = status ids u k')"

text \<open>
  C14. \<open>Create\<close>, \<open>Update\<close> and \<open>Delete\<close> implement the abstract unit of work: a map from the identity
  of an entity to what is pending for it.  Each returns the error the map calls for, changes the
  state of that one identity only, and leaves in the queue exactly one operation for every pending
  identity, of the kind its state calls for.
\<close>

theorem uow_refines_status:
  assumes "uow_reach rf (GetID h) u" "\<not> isCommitted u" "\<not> isRolledBack u"
  shows "refines (GetID h) (key_of (GetID h) e) u (Create_entity h (Some e) u)
           (spec_create (checkMemoryLimit u) (status (GetID h) u (key_of (GetID h) e))) \<and>
         refines (GetID h) (key_of (GetID h) e) u (Update_entity rf h (Some e) u)
           (spec_update (counts_as_changed rf h e u) (status (GetID h) u (key_of (GetID h) e))) \<and>
         refines (GetID h) (key_of (GetID h) e) u (Delete_entity h (Some e) u)
           (spec_delete (status (GetID h) u (key_of (GetID h) e)))"
  using create_ok [OF reach_ok [OF assms(1)] assms(2,3) refl, of e] update_ok [OF reach_ok [OF assms(1)] assms(2,3) refl, of rf e]
    delete_ok [OF reach_ok [OF assms(1)] assms(2,3) refl, of e]
  by (cases "Create_entity h (Some e) u"; cases "Update_entity rf h (Some e) u"; cases "Delete_entity h (Some e) u")
    (simp add: refines_def)

definition demo_heap :: "nat \<Rightarrow> unit eheap" where
  "demo_heap i = (\<lambda>e. \<lparr>e_ID = (if er_addr e = 10 then i else er_addr e), e_CreatedAt = 0, e_UpdatedAt = 0, e_DeletedAt = None,
     e_Revision = 1, e_data = ()\<rparr>)"

definition demo_reflection :: "(unit, nat) reflection" where
  "demo_reflection = \<lparr>x_fields = (\<lambda>_. []), x_DeepCopy = Inr, x_TypeOf = (\<lambda>_. []), x_DeepEqual = (=)\<rparr>"

abbreviation "demo_post \<equiv> ERef (RType 2 ''Post'') 10"
abbreviation "demo_user \<equiv> ERef (RType 1 ''User'') 11"

definition demo_uow :: "nat UnitOfWork" where
  "demo_uow = snd (Create_entity (demo_heap 5) (Some demo_post) (NewUnitOfWork DefaultConfig))"

lemma demo_uow_reach: "uow_reach demo_reflection (GetID (demo_heap 5)) demo_uow"
  unfolding demo_uow_def by (intro uow_reach.intros) simp

theorem uow_refines_status_witness:
  "refines (GetID (demo_heap 5)) (RType 2 ''Post'', 5) demo_uow (Delete_entity (demo_heap 5) (Some demo_post) demo_uow) (Inr (), None)"
proof -
  have "\<not> isCommitted demo_uow" "\<not> isRolledBack demo_uow" "status (GetID (demo_heap 5)) demo_uow (RType 2 ''Post'', 5) = Some PNew"
    by (simp_all add: demo_uow_def demo_heap_def Create_entity_def NewUnitOfWork_def DefaultConfig_def containsEntity_def checkMemoryLimit_def
        addOperation_def entities_at_def status_def listed_def append_entity_def GetID_def)
  then show ?thesis
    using uow_refines_status [OF demo_uow_reach, of demo_post]
    by (simp add: key_of_def spec_delete_def) (simp add: GetID_def demo_heap_def)
qed

end
