(* ===== verification/Uow_Commit.thy ===== *)
theory Uow_Commit
  imports Uow_Correct "HOL-Library.Sublist"
begin

text \<open>
  The plan a commit makes of the queued operations, and its execution
  (\<open>src/unitofwork/unitofwork.go\<close>, from \<open>optimizeOperations\<close> to \<open>Commit\<close>): merging keeps every
  entity and leaves one operation per kind and type, the search for insertions followed by a
  deletion of the same entity never finds one, and sorting puts the insertions in dependency order
  before the updates and the deletions last.
\<close>

section \<open>Cancelling\<close>

lemma cancel_partner_none: "cancel_partner h ops i js c = c"
proof (induction js)
  case (Cons j js)
  have "\<not> (GetOperationType (ops ! i) = OperationTypeInsert \<and> GetOperationType (ops ! j) = OperationTypeDelete \<and>
      SameIdentity h (ops ! i) (ops ! j))" by (cases "ops ! i") auto
  then show ?case using Cons by auto
qed simp

lemma removeInvalid_id: "removeInvalidOperations h ops = ops"
proof -
  have "cancel_pairs h ops is {} = {}" for "is" by (induction "is") (simp_all add: cancel_partner_none)
  then show ?thesis by (simp add: removeInvalidOperations_def Let_def map_nth)
qed

section \<open>Merging\<close>

datatype opclass = Inserts | Updates | Deletes

definition class_of :: "'g operation \<Rightarrow> opclass" where
  "class_of op = (if is_insert op then Inserts else if is_update op then Updates else Deletes)"

definition opkey :: "'g operation \<Rightarrow> opclass \<times> rtype option" where
  "opkey op = (class_of op, GetEntityType op)"

lemmas op_kind_defs = class_of_def is_insert_def is_update_def is_delete_def

lemma CanMerge_key: "single op \<Longrightarrow> GetEntities cur \<noteq> [] \<Longrightarrow> CanMerge cur op \<longleftrightarrow> opkey cur = opkey op"
  by (cases cur; cases op) (auto simp: opkey_def op_kind_defs GetEntityType_def GetEntity_def single_def split: list.splits)

lemma Merge_keeps:
  assumes "GetEntities cur \<noteq> []" "CanMerge cur op"
  shows "opkey (Merge cur op) = opkey cur" "GetEntities (Merge cur op) = GetEntities cur @ GetEntities op"
  using assms by (cases cur; auto simp: opkey_def op_kind_defs GetEntityType_def GetEntity_def split: list.splits)+

lemma single_entities: "single op \<Longrightarrow> GetEntities op = [op_entity op]"
  by (cases op) (auto simp: single_def op_entity_def)

definition merge_all :: "'g operation \<Rightarrow> 'g operation list \<Rightarrow> 'g operation" where
  "merge_all cur ops = foldl Merge cur ops"

lemma merge_all_keeps:
  "(\<forall>op \<in> set ops. single op \<and> opkey op = opkey cur) \<Longrightarrow> GetEntities cur \<noteq> [] \<Longrightarrow>
   opkey (merge_all cur ops) = opkey cur \<and> GetEntities (merge_all cur ops) = GetEntities cur @ concat (map GetEntities ops)"
proof (induction ops arbitrary: cur)
  case (Cons op ops)
  have m: "CanMerge cur op" using Cons.prems CanMerge_key [of op cur] by simp
  show ?case using Cons Merge_keeps [OF Cons.prems(2) m] by (simp add: merge_all_def)
qed (simp add: merge_all_def)

definition at_indices :: "'a list \<Rightarrow> nat list \<Rightarrow> nat set \<Rightarrow> 'a list" where
  "at_indices ops js P = map ((!) ops) (filter (\<lambda>j. j \<notin> P) js)"

lemma merge_into_result:
  "(\<forall>op \<in> set ops. single op) \<Longrightarrow> set js \<subseteq> {..<length ops} \<Longrightarrow> distinct js \<Longrightarrow> GetEntities cur \<noteq> [] \<Longrightarrow>
   merge_into ops js cur P =
     (merge_all cur (filter (\<lambda>op. opkey op = opkey cur) (at_indices ops js P)),
      P \<union> {j \<in> set js. opkey (ops ! j) = opkey cur})"
proof (induction js arbitrary: cur P)
  case Nil
  then show ?case by (simp add: merge_all_def at_indices_def)
next
  case (Cons j js)
  have j: "single (ops ! j)" using Cons.prems by simp
  note IH = Cons.IH [OF Cons.prems(1)]
  have same: "at_indices ops js (insert j P) = at_indices ops js P"
    using Cons.prems(3) unfolding at_indices_def by (intro arg_cong [where f = "map ((!) ops)"] filter_cong) auto
  show ?case
  proof (cases "j \<in> P \<or> opkey (ops ! j) \<noteq> opkey cur")
    case True
    then have "merge_into ops (j # js) cur P = merge_into ops js cur P"
      using CanMerge_key [OF j, of cur] Cons.prems(4) by auto
    then show ?thesis using IH [of cur P] Cons.prems True by (auto simp: at_indices_def)
  next
    case False
    then have m: "CanMerge cur (ops ! j)" using CanMerge_key [OF j, of cur] Cons.prems(4) by simp
    then show ?thesis
      using IH [of "Merge cur (ops ! j)" "insert j P"] Cons.prems False Merge_keeps [OF Cons.prems(4) m] same
      by (auto simp: at_indices_def merge_all_def)
  qed
qed

fun merge_ref :: "'g operation list \<Rightarrow> 'g operation list" where
  "merge_ref [] = []"
| "merge_ref (op # ops) =
     merge_all op (filter (\<lambda>o'. opkey o' = opkey op) ops) # merge_ref (filter (\<lambda>o'. opkey o' \<noteq> opkey op) ops)"

lemma merge_from_ref:
  "(\<forall>op \<in> set ops. single op) \<Longrightarrow> set is \<subseteq> {..<length ops} \<Longrightarrow> distinct is \<Longrightarrow>
   merge_from ops is P = merge_ref (at_indices ops is P)"
proof (induction "is" arbitrary: P)
  case (Cons i js)
  show ?case
  proof (cases "i \<in> P")
    case False
    have ne: "GetEntities (ops ! i) \<noteq> []" using Cons.prems by (simp add: single_entities)
    have "at_indices ops js (insert i P \<union> {j \<in> set js. opkey (ops ! j) = opkey (ops ! i)}) =
        filter (\<lambda>o'. opkey o' \<noteq> opkey (ops ! i)) (at_indices ops js P)"
      using Cons.prems(3) unfolding at_indices_def filter_map filter_filter o_def
      by (intro arg_cong [where f = "map ((!) ops)"] filter_cong) auto
    moreover have "at_indices ops js (insert i P) = at_indices ops js P"
      using Cons.prems(3) unfolding at_indices_def by (intro arg_cong [where f = "map ((!) ops)"] filter_cong) auto
    ultimately show ?thesis
      using Cons merge_into_result [OF Cons.prems(1) _ _ ne, of js "insert i P"] False
      by (simp add: at_indices_def)
  qed (use Cons in \<open>simp add: at_indices_def\<close>)
qed (simp add: at_indices_def)

lemma mergeOperations_ref:
  assumes "\<forall>op \<in> set ops. single op"
  shows "mergeOperations ops = merge_ref ops"
proof (cases "length ops \<le> 1")
  case True
  then show ?thesis by (cases ops) (auto simp: mergeOperations_def merge_all_def)
next
  case False
  have "at_indices ops [0..<length ops] {} = ops" by (simp add: at_indices_def map_nth)
  then show ?thesis using False merge_from_ref [OF assms, of "[0..<length ops]" "{}"]
    by (auto simp: mergeOperations_def atLeast0LessThan)
qed

abbreviation entities_at_key :: "'g operation list \<Rightarrow> opclass \<times> rtype option \<Rightarrow> eref list" where
  "entities_at_key ops k \<equiv> concat (map GetEntities (filter (\<lambda>op. opkey op = k) ops))"

lemma merge_ref_keys: "(\<forall>op \<in> set ops. single op) \<Longrightarrow> opkey ` set (merge_ref ops) = opkey ` set ops"
proof (induction ops rule: merge_ref.induct)
  case (2 op ops)
  then show ?case using merge_all_keeps [of "filter (\<lambda>o'. opkey o' = opkey op) ops" op] by (auto simp: single_entities)
qed simp

lemma merge_ref_distinct: "(\<forall>op \<in> set ops. single op) \<Longrightarrow> distinct (map opkey (merge_ref ops))"
proof (induction ops rule: merge_ref.induct)
  case (2 op ops)
  have "opkey ` set (merge_ref (filter (\<lambda>o'. opkey o' \<noteq> opkey op) ops)) = opkey ` set (filter (\<lambda>o'. opkey o' \<noteq> opkey op) ops)"
    using 2 by (intro merge_ref_keys) auto
  then show ?case
    using 2 merge_all_keeps [of "filter (\<lambda>o'. opkey o' = opkey op) ops" op] by (auto simp: single_entities)
qed simp

lemma merge_ref_entities: "(\<forall>op \<in> set ops. single op) \<Longrightarrow> entities_at_key (merge_ref ops) k = entities_at_key ops k"
proof (induction ops rule: merge_ref.induct)
  case (2 op ops)
  let ?rest = "filter (\<lambda>o'. opkey o' \<noteq> opkey op) ops"
  have m: "opkey (merge_all op (filter (\<lambda>o'. opkey o' = opkey op) ops)) = opkey op"
    "GetEntities (merge_all op (filter (\<lambda>o'. opkey o' = opkey op) ops)) = GetEntities op @ entities_at_key ops (opkey op)"
    using 2 merge_all_keeps [of "filter (\<lambda>o'. opkey o' = opkey op) ops" op] by (auto simp: single_entities)
  have IH: "entities_at_key (merge_ref ?rest) k = entities_at_key ?rest k" using 2 by auto
  show ?case
  proof (cases "k = opkey op")
    case True
    then have "entities_at_key ?rest k = []" by (auto simp: filter_empty_conv)
    then show ?thesis using m IH True by simp
  next
    case False
    then have "filter (\<lambda>o'. opkey o' = k) ?rest = filter (\<lambda>o'. opkey o' = k) ops" by (auto intro: filter_cong)
    then show ?thesis using m IH False by auto
  qed
qed simp

text \<open>
  C37. Merging leaves at most one operation for every kind and type of entity, and this operation
  holds exactly the entities that were queued for the kind and the type, in the order they were
  queued.  No insertion is ever cancelled by a later deletion.
\<close>

theorem optimize_groups_by_kind_and_type:
  assumes "uow_reach rf (GetID h) u" "EnableOperationMerge (uow_cfg u)"
  shows "distinct (map opkey (optimizeOperations h u)) \<and>
    (\<forall>k. entities_at_key (optimizeOperations h u) k = entities_at_key (operations u) k)"
proof -
  have "\<forall>op \<in> set (operations u). single op" using reach_ok [OF assms(1)] by (simp add: uow_ok_def)
  moreover from this have "optimizeOperations h u = merge_ref (operations u)"
    using assms(2) by (simp add: optimizeOperations_def removeInvalid_id mergeOperations_ref)
  ultimately show ?thesis using merge_ref_distinct merge_ref_entities by metis
qed

lemmas demo_uow_simps = demo_uow_def demo_heap_def Create_entity_def Delete_entity_def NewUnitOfWork_def DefaultConfig_def
  containsEntity_def checkMemoryLimit_def addOperation_def entities_at_def append_entity_def removeFromEntityList_def
  removeOperationByEntity_def GetID_def

theorem optimize_groups_by_kind_and_type_witness:
  "distinct (map opkey (optimizeOperations (demo_heap 5) demo_uow)) \<and>
   entities_at_key (optimizeOperations (demo_heap 5) demo_uow) (Inserts, Some (RType 2 ''Post'')) = [demo_post]"
proof -
  have m: "EnableOperationMerge (uow_cfg demo_uow)" and ops: "operations demo_uow = [InsertOperation demo_post]"
    by (simp_all add: demo_uow_simps)
  have "entities_at_key (operations demo_uow) (Inserts, Some (RType 2 ''Post'')) = [demo_post]"
    by (simp add: ops opkey_def op_kind_defs GetEntityType_def GetEntity_def)
  then show ?thesis using optimize_groups_by_kind_and_type [OF demo_uow_reach m] by metis
qed

section \<open>Sorting\<close>

lemma index_ops_result:
  "(\<forall>op \<in> set ops. GetEntities op \<noteq> []) \<Longrightarrow>
   index_ops h ops es m = (es @ map op_entity ops, m ++ map_of (rev (map (\<lambda>op. (op_key h (op_entity op), op)) ops)))"
proof (induction ops arbitrary: es m)
  case (Cons op ops)
  have "GetEntity op = Some (op_entity op)" using Cons.prems by (auto simp: GetEntity_def op_entity_def split: list.splits)
  then show ?case using Cons by (simp add: map_add_upd_left map_add_assoc)
qed simp

lemma index_ops_lookup:
  assumes "distinct (map (\<lambda>op. op_key h (op_entity op)) ops)" "op \<in> set ops"
  shows "map_of (rev (map (\<lambda>op. (op_key h (op_entity op), op)) ops)) (op_key h (op_entity op)) = Some op"
  using assms by (intro map_of_is_SomeI) (auto simp: rev_map [symmetric] o_def distinct_map)

lemma map_filter_image:
  assumes f: "\<And>x. x \<in> set xs \<Longrightarrow> f (g x) = Some x" and m: "mset ys = mset (map g xs)"
  shows "mset (List.map_filter f ys) = mset xs" "map g (List.map_filter f ys) = ys"
proof -
  have mem: "\<exists>x \<in> set xs. y = g x" if "y \<in> set ys" for y
    using that arg_cong [OF m, of set_mset] by auto
  have "filter (\<lambda>y. f y \<noteq> None) ys = ys" using mem f by (intro filter_True) fastforce
  then have "List.map_filter f ys = map (the \<circ> f) ys" by (simp add: List.map_filter_def)
  moreover have "mset (map (the \<circ> f) ys) = image_mset (the \<circ> f) (mset (map g xs))" using m by simp
  moreover have "image_mset (the \<circ> f) (mset (map g xs)) = mset xs"
  proof -
    have "map (the \<circ> f) (map g xs) = xs" unfolding map_map by (rule map_idI) (simp add: f)
    then show ?thesis by (metis mset_map)
  qed
  moreover have "map g (map (the \<circ> f) ys) = ys"
    unfolding map_map by (rule map_idI) (use mem f in fastforce)
  ultimately show "mset (List.map_filter f ys) = mset xs" "map g (List.map_filter f ys) = ys" by simp_all
qed

text \<open>
  What the plan relies on in the dependency manager: an order that is returned lists the given
  entities, each as often as it was given.  Both orders promise it; the operations found again
  through their keys are then a permutation of the operations to sort.
\<close>

locale entity_order =
  fixes order_of :: "orders \<Rightarrow> (eref \<Rightarrow> nat) \<Rightarrow> DependencyManager \<Rightarrow> eref list \<Rightarrow> eref list result"
  assumes order_mset: "dm_ok dm \<Longrightarrow> order_of ord ids dm es = Inr res \<Longrightarrow> mset res = mset es"
begin

lemma reordered:
  assumes "dm_ok dm" "distinct (map (\<lambda>op. op_key h (op_entity op)) ops)" "order_of ord ids dm (map op_entity ops) = Inr es"
    and "res = List.map_filter (\<lambda>e. map_of (rev (map (\<lambda>op. (op_key h (op_entity op), op)) ops)) (op_key h e)) es"
  shows "mset res = mset ops" "map op_entity res = es"
  unfolding assms(4)
  by (rule map_filter_image [where g = op_entity, OF index_ops_lookup [OF assms(2)] order_mset [OF assms(1,3)]], assumption)+

end

interpretation insertions: entity_order GetInsertionOrder
  by unfold_locales (rule insertion_order_mset)

interpretation deletions: entity_order GetDeletionOrder
  by unfold_locales (rule deletion_order_mset)

lemma sort_inserts:
  assumes ok: "dm_ok dm" and ne: "\<forall>op \<in> set ops. GetEntities op \<noteq> []"
    and keys: "distinct (map (\<lambda>op. op_key h (op_entity op)) ops)"
    and s: "sortOperationsByEntityDependency ord h dm ops False = Inr res"
  shows "mset res = mset ops \<and> sorted_wrt (\<lambda>x y. \<not> HasDependency dm (er_type (op_entity x)) (er_type (op_entity y))) res"
proof (cases "length ops \<le> 1")
  case True
  then show ?thesis using s by (cases ops) (auto simp: sortOperationsByEntityDependency_def)
next
  case False
  obtain es where es: "GetInsertionOrder ord (GetID h) dm (map op_entity ops) = Inr es"
    and res: "res = List.map_filter (\<lambda>e. map_of (rev (map (\<lambda>op. (op_key h (op_entity op), op)) ops)) (op_key h e)) es"
    using s False by (auto simp: sortOperationsByEntityDependency_def index_ops_result [OF ne] split: sum.splits)
  note re = insertions.reordered [OF ok keys es res]
  have "sorted_wrt (\<lambda>x y. \<not> HasDependency dm (er_type x) (er_type y)) (map op_entity res)"
    using insertion_order_sorted [OF ok es] re(2) by simp
  then show ?thesis using re(1) by (simp add: sorted_wrt_map)
qed

lemma sort_deletes:
  assumes ok: "dm_ok dm" and ne: "\<forall>op \<in> set ops. GetEntities op \<noteq> []"
    and keys: "distinct (map (\<lambda>op. op_key h (op_entity op)) ops)"
    and s: "sortOperationsByEntityDependency ord h dm ops True = Inr res"
  shows "mset res = mset ops"
proof (cases "length ops \<le> 1")
  case True
  then show ?thesis using s by (auto simp: sortOperationsByEntityDependency_def)
next
  case False
  obtain es where es: "GetDeletionOrder ord (GetID h) dm (map op_entity ops) = Inr es"
    and res: "res = List.map_filter (\<lambda>e. map_of (rev (map (\<lambda>op. (op_key h (op_entity op), op)) ops)) (op_key h e)) es"
    using s False by (auto simp: sortOperationsByEntityDependency_def index_ops_result [OF ne] split: sum.splits)
  show ?thesis by (rule deletions.reordered(1) [OF ok keys es res])
qed

definition op_type :: "'g operation \<Rightarrow> rtype" where "op_type op = er_type (op_entity op)"

lemma op_keys_distinct:
  assumes "distinct (map opkey ops)" "\<forall>op \<in> set ops. GetEntities op \<noteq> [] \<and> class_of op = c" "inj_on rt_String (op_type ` set ops)"
  shows "distinct (map (\<lambda>op. op_key h (op_entity op)) ops)"
proof -
  have "opkey op = (c, Some (op_type op))" if "op \<in> set ops" for op
    using that assms(2) by (cases "GetEntities op") (auto simp: opkey_def GetEntityType_def GetEntity_def op_type_def op_entity_def)
  then have "inj_on op_type (set ops)" "distinct ops" using assms(1) by (auto simp: distinct_map inj_on_def)
  then show ?thesis using assms(3) by (auto simp: distinct_map inj_on_def op_key_def op_type_def)
qed

definition rank :: "'g operation \<Rightarrow> nat" where
  "rank op = (case class_of op of Inserts \<Rightarrow> 0 | Updates \<Rightarrow> 1 | Deletes \<Rightarrow> 2)"

definition precedes :: "DependencyManager \<Rightarrow> 'g operation \<Rightarrow> 'g operation \<Rightarrow> bool" where
  "precedes dm x y \<longleftrightarrow> rank x \<le> rank y \<and> (is_insert x \<and> is_insert y \<longrightarrow> \<not> HasDependency dm (op_type x) (op_type y))"

lemma class_cases: "is_insert op \<or> is_update op \<or> is_delete op" "is_insert op \<Longrightarrow> \<not> is_update op \<and> \<not> is_delete op"
  "is_update op \<Longrightarrow> \<not> is_delete op"
  by (cases op; simp add: op_kind_defs)+

lemma class_of_kind: "is_insert op \<Longrightarrow> class_of op = Inserts" "is_update op \<Longrightarrow> class_of op = Updates" "is_delete op \<Longrightarrow> class_of op = Deletes"
  using class_cases [of op] by (auto simp: class_of_def)

lemma kind_rank: "is_insert op \<longleftrightarrow> rank op = 0" "is_update op \<longleftrightarrow> rank op = 1" "is_delete op \<longleftrightarrow> rank op = 2"
  using class_cases [of op] class_of_kind [of op] by (auto simp: rank_def)

lemma mset_by_class: "mset (filter is_insert ops) + mset (filter is_update ops) + mset (filter is_delete ops) = mset ops"
proof (induction ops)
  case (Cons op ops)
  then show ?case using class_cases [of op] by auto
qed simp

definition keyed_apart :: "'v eheap \<Rightarrow> 'g operation list \<Rightarrow> bool" where
  "keyed_apart h ops \<longleftrightarrow> (\<forall>c. distinct (map (\<lambda>op. op_key h (op_entity op)) (filter (\<lambda>op. class_of op = c) ops)))"

lemma keyed_apart_filter:
  assumes "keyed_apart h ops" "\<And>op. P op \<Longrightarrow> class_of op = c"
  shows "distinct (map (\<lambda>op. op_key h (op_entity op)) (filter P ops))"
proof -
  have "filter P ops = filter P (filter (\<lambda>op. class_of op = c) ops)" using assms(2) by (auto intro: filter_cong)
  moreover have "distinct (map (\<lambda>op. op_key h (op_entity op)) (filter (\<lambda>op. class_of op = c) ops))" using assms(1) by (simp add: keyed_apart_def)
  ultimately show ?thesis using distinct_map_filter by metis
qed

lemma sort_plan:
  assumes ok: "dm_ok dm" and d: "keyed_apart h ops" and ne: "\<forall>op \<in> set ops. GetEntities op \<noteq> []"
    and s: "sortOperationsByDependency ord ord' h dm ops = Inr plan"
  shows "mset plan = mset ops \<and> sorted_wrt (precedes dm) plan"
proof (cases "length ops \<le> 1")
  case True
  then show ?thesis using s by (cases ops) (auto simp: sortOperationsByDependency_def)
next
  case False
  then obtain ins del where i: "sortOperationsByEntityDependency ord h dm (filter is_insert ops) False = Inr ins"
    and dl: "sortOperationsByEntityDependency ord' h dm (filter is_delete ops) True = Inr del"
    and plan: "plan = ins @ filter is_update ops @ del"
    using s by (auto simp: sortOperationsByDependency_def split: sum.splits)
  note keys = keyed_apart_filter [OF d]
  have ins: "mset ins = mset (filter is_insert ops)"
    "sorted_wrt (\<lambda>x y. \<not> HasDependency dm (op_type x) (op_type y)) ins"
    using sort_inserts [OF ok _ keys i] ne class_of_kind(1) by (auto simp: op_type_def)
  have del: "mset del = mset (filter is_delete ops)"
    using sort_deletes [OF ok _ keys dl] ne class_of_kind(3) by auto
  have mem: "set ins = {op \<in> set ops. is_insert op}" "set del = {op \<in> set ops. is_delete op}"
    using arg_cong [OF ins(1), of set_mset] arg_cong [OF del, of set_mset] by auto
  have "sorted_wrt (precedes dm) ins"
    using ins(2) mem(1) by (intro sorted_wrt_mono_rel [OF _ ins(2)]) (auto simp: precedes_def kind_rank)
  moreover have same: "sorted_wrt (precedes dm) xs" if "\<forall>op \<in> set xs. rank op = Suc n" for xs n
    using that by (induction xs) (auto simp: precedes_def kind_rank)
  ultimately have "sorted_wrt (precedes dm) plan"
    using mem same [of "filter is_update ops" 0] same [of del 1]
    by (auto simp: plan sorted_wrt_append precedes_def kind_rank)
  then show ?thesis using ins(1) del mset_by_class [of ops] by (simp add: plan ac_simps)
qed

section \<open>The plan of a commit\<close>

lemma merge_ref_nonempty: "(\<forall>op \<in> set ops. single op) \<Longrightarrow> op \<in> set (merge_ref ops) \<Longrightarrow> GetEntities op \<noteq> []"
proof (induction ops rule: merge_ref.induct)
  case (2 o1 ops)
  then show ?case using merge_all_keeps [of "filter (\<lambda>o'. opkey o' = opkey o1) ops" o1] by (auto simp: single_entities)
qed simp

lemma opkey_type: "GetEntities op \<noteq> [] \<Longrightarrow> snd (opkey op) = Some (op_type op)"
  by (cases "GetEntities op") (auto simp: opkey_def GetEntityType_def GetEntity_def op_type_def op_entity_def)

lemma merge_ref_types:
  assumes "\<forall>op \<in> set ops. single op"
  shows "op_type ` set (merge_ref ops) \<subseteq> op_type ` set ops"
proof
  fix t assume "t \<in> op_type ` set (merge_ref ops)"
  then obtain op where op: "op \<in> set (merge_ref ops)" "t = op_type op" by auto
  then obtain op' where "op' \<in> set ops" "opkey op' = opkey op" using merge_ref_keys [OF assms] by (metis imageE imageI)
  then show "t \<in> op_type ` set ops"
    using op opkey_type [of op] opkey_type [of op'] merge_ref_nonempty [OF assms op(1)] assms by (auto simp: single_entities)
qed

lemma merge_ref_mset:
  "(\<forall>op \<in> set ops. single op) \<Longrightarrow> mset (concat (map GetEntities (merge_ref ops))) = mset (concat (map GetEntities ops))"
proof (induction ops rule: merge_ref.induct)
  case (2 op ops)
  have split: "mset (concat (map GetEntities ops)) =
      mset (entities_at_key ops (opkey op)) + mset (concat (map GetEntities (filter (\<lambda>o'. opkey o' \<noteq> opkey op) ops)))"
    by (induction ops) auto
  show ?case
    using 2 merge_all_keeps [of "filter (\<lambda>o'. opkey o' = opkey op) ops" op] split by (auto simp: single_entities)
qed simp

definition named_apart :: "'g UnitOfWork \<Rightarrow> bool" where
  "named_apart u \<longleftrightarrow> inj_on rt_String (op_type ` set (operations u))"

lemma merged_keyed_apart:
  assumes ops: "\<forall>op \<in> set ops. single op" and inj: "inj_on rt_String (op_type ` set ops)"
  shows "keyed_apart h (merge_ref ops)"
  unfolding keyed_apart_def
proof
  fix c
  have "inj_on rt_String (op_type ` set (filter (\<lambda>op. class_of op = c) (merge_ref ops)))"
    using merge_ref_types [OF ops] by (intro inj_on_subset [OF inj]) auto
  then show "distinct (map (\<lambda>op. op_key h (op_entity op)) (filter (\<lambda>op. class_of op = c) (merge_ref ops)))"
    using merge_ref_distinct [OF ops] merge_ref_nonempty [OF ops] by (intro op_keys_distinct [where c = c]) (auto simp: distinct_map_filter)
qed

lemma distinct_by_count: "(\<And>k. length (filter (\<lambda>x. f x = k) xs) \<le> 1) \<Longrightarrow> distinct (map f xs)"
proof (induction xs)
  case (Cons x xs)
  have "length (filter (\<lambda>y. f y = k) xs) \<le> 1" for k using Cons.prems [of k] by (simp split: if_splits)
  moreover have "filter (\<lambda>y. f y = f x) xs = []" using Cons.prems [of "f x"] by simp
  ultimately show ?case using Cons.IH by (auto simp: filter_empty_conv)
qed simp

lemma queued_once:
  assumes "uow_ok ids u"
  shows "distinct (map (\<lambda>op. key_of ids (op_entity op)) (operations u))"
proof (rule distinct_by_count)
  fix k
  have "kinds_at ids (operations u) k = kind_of (status ids u k)" using assms unfolding uow_ok_def by blast
  then have "length (kinds_at ids (operations u) k) \<le> 1" by (simp add: kind_of_def split: option.splits pending.splits)
  then show "length (filter (\<lambda>op. key_of ids (op_entity op) = k) (operations u)) \<le> 1" by (simp add: kinds_at_def)
qed

lemma queue_keyed_apart:
  assumes ok: "uow_ok (GetID h) u" and n: "named_apart u"
  shows "keyed_apart h (operations u)"
  unfolding keyed_apart_def
proof
  fix c
  have "inj_on (\<lambda>op. op_key h (op_entity op)) (set (operations u))" "distinct (operations u)"
    using queued_once [OF ok] n by (auto simp: named_apart_def distinct_map inj_on_def op_key_def op_type_def key_of_def)
  then show "distinct (map (\<lambda>op. op_key h (op_entity op)) (filter (\<lambda>op. class_of op = c) (operations u)))"
    by (auto simp: distinct_map intro: inj_on_subset)
qed

lemma optimize_ref:
  "uow_reach rf ids u \<Longrightarrow> EnableOperationMerge (uow_cfg u) \<Longrightarrow>
   optimizeOperations h u = merge_ref (operations u) \<and> (\<forall>op \<in> set (operations u). single op)"
  using reach_ok [of rf ids u] by (simp add: uow_ok_def optimizeOperations_def removeInvalid_id mergeOperations_ref)

lemma plan_ok:
  assumes r: "uow_reach rf (GetID h) u" and n: "named_apart u"
    and s: "sortOperationsByDependency ord ord' h (dependencyManager u) (optimizeOperations h u) = Inr plan"
  shows "mset plan = mset (optimizeOperations h u) \<and> sorted_wrt (precedes (dependencyManager u)) plan"
proof (rule sort_plan [OF dm_reach_ok [OF reach_deps [OF r]] _ _ s])
  have ok: "uow_ok (GetID h) u" and sing: "\<forall>op \<in> set (operations u). single op"
    using reach_ok [OF r] by (simp_all add: uow_ok_def)
  show "keyed_apart h (optimizeOperations h u)"
    using queue_keyed_apart [OF ok n] merged_keyed_apart [OF sing] n optimize_ref [OF r, of h]
    by (cases "EnableOperationMerge (uow_cfg u)") (auto simp: optimizeOperations_def named_apart_def)
  show "\<forall>op \<in> set (optimizeOperations h u). GetEntities op \<noteq> []"
    using merge_ref_nonempty [OF sing] sing optimize_ref [OF r, of h]
    by (cases "EnableOperationMerge (uow_cfg u)") (auto simp: optimizeOperations_def single_entities)
qed

text \<open>
  C16. The plan of a commit, with merging switched on or off, is a permutation of the operations to
  execute in which insertions come first, then updates, then deletions, and no insertion of a type comes
  before the insertion of a type it depends on.  This supposes that the identifiers have not changed
  since the entities were queued and that \<open>named_apart\<close> holds: no two types among the queued
  entities print the same name (\<open>reflect.Type.String\<close> leaves out the import path), because the
  operations are found again by the printed name and the identifier.  Types that print alike lose
  operations, see \<open>equal_type_names_collide\<close> below.
\<close>

theorem commit_plan_ordered:
  assumes "uow_reach rf (GetID h) u" "named_apart u"
    and "sortOperationsByDependency ord ord' h (dependencyManager u) (optimizeOperations h u) = Inr plan"
  shows "mset plan = mset (optimizeOperations h u) \<and>
    (\<forall>i j. i < j \<longrightarrow> j < length plan \<longrightarrow> rank (plan ! i) \<le> rank (plan ! j) \<and>
       (is_insert (plan ! j) \<longrightarrow> \<not> HasDependency (dependencyManager u) (op_type (plan ! i)) (op_type (plan ! j))))"
  using plan_ok [OF assms] unfolding sorted_wrt_iff_nth_less precedes_def kind_rank by (metis le_zero_eq)

section \<open>Executing the plan\<close>

fun call_entities :: "dbcall \<Rightarrow> eref list" where
  "call_entities (DbCreate e) = [e]"
| "call_entities (DbCreateInBatches es n) = es"
| "call_entities (DbUpdates e i r) = [e]"
| "call_entities (DbSave e) = [e]"
| "call_entities (DbDelete e) = [e]"
| "call_entities (DbDeleteAll es) = es"

definition writes :: "'v world \<Rightarrow> 'v world \<Rightarrow> eref list \<Rightarrow> bool" where
  "writes w w' es \<longleftrightarrow> (\<exists>cs. w_log w' = w_log w @ cs \<and> concat (map call_entities cs) = es)"

definition outcome :: "eref list \<Rightarrow> 'v world \<Rightarrow> unit result \<Rightarrow> 'v world \<Rightarrow> bool" where
  "outcome es w res w' \<longleftrightarrow> (\<exists>don. prefix don es \<and> writes w w' don \<and> (res = Inr () \<longrightarrow> don = es))"

lemma writes_trans: "writes w w1 a \<Longrightarrow> writes w1 w2 b \<Longrightarrow> writes w w2 (a @ b)"
  unfolding writes_def by force

lemma outcome_append: "outcome es w (Inr ()) w1 \<Longrightarrow> outcome es' w1 res w2 \<Longrightarrow> outcome (es @ es') w res w2"
  unfolding outcome_def by (metis append_eq_conv_conj prefix_append same_prefix_prefix writes_trans)

lemma outcome_error: "outcome es w (Inl err) w1 \<Longrightarrow> outcome (es @ es') w (Inl err') w1"
  unfolding outcome_def by (auto intro: prefix_order.trans [OF _ prefix_append [THEN iffD2]])

lemma db_call_log: "db_call db c w = (res, w') \<Longrightarrow> w_log w' = w_log w @ [c]"
  by (auto simp: db_call_def split: prod.splits)

lemma log_simps [simp]: "w_log (upd_heap f w) = w_log w" "w_log (stamp_new db e w) = w_log w" "w_log (stamp_updated db e w) = w_log w"
  by (simp_all add: upd_heap_def stamp_new_def stamp_updated_def)

lemma call_outcome:
  assumes "db_call db c w1 = (r, w')" "w_log w1 = w_log w" "call_entities c = es"
  shows "outcome es w res w'"
proof -
  have "writes w w' es" using db_call_log [OF assms(1)] assms(2,3) by (auto simp: writes_def intro!: exI [of _ "[c]"])
  then show ?thesis by (auto simp: outcome_def)
qed

lemma no_call_outcome: "w_log w' = w_log w \<Longrightarrow> res \<noteq> Inr () \<or> es = [] \<Longrightarrow> outcome es w res w'"
  by (auto simp: outcome_def writes_def)

lemma insert_outcome: "execute_insert db e w = (res, w') \<Longrightarrow> outcome [e] w res w'"
  by (auto simp: execute_insert_def intro: no_call_outcome call_outcome split: option.splits prod.splits sum.splits)

lemma update_outcome: "execute_update db e w = (res, w') \<Longrightarrow> outcome [e] w res w'"
  by (auto simp: execute_update_def Let_def intro: no_call_outcome call_outcome split: option.splits prod.splits sum.splits if_splits)

lemma delete_outcome: "execute_delete db e w = (res, w') \<Longrightarrow> outcome [e] w res w'"
  by (auto simp: execute_delete_def Let_def intro: call_outcome split: prod.splits sum.splits if_splits)

lemma each_outcome:
  assumes "\<And>e w res w'. f e w = (res, w') \<Longrightarrow> outcome [e] w res w'"
  shows "execute_each f es w = (res, w') \<Longrightarrow> outcome es w res w'"
proof (induction es arbitrary: w)
  case (Cons e es)
  obtain r w1 where f: "f e w = (r, w1)" by fastforce
  show ?case
    using Cons assms [OF f] f outcome_append [of "[e]" w w1 es res w'] outcome_error [of "[e]" w _ w1 es]
    by (cases r) auto
qed (simp add: no_call_outcome)

lemma prepare_log: "execute_each (prepare_insert db) es w = (res, w') \<Longrightarrow> w_log w' = w_log w"
proof (induction es arbitrary: w)
  case (Cons e es)
  then show ?case by (auto simp: prepare_insert_def split: prod.splits sum.splits option.splits)
qed simp

lemma Execute_outcome: "Execute db bs op w = Some (res, w') \<Longrightarrow> outcome (GetEntities op) w res w'"
proof (cases op)
  case (BulkInsertOperation es)
  assume "Execute db bs op w = Some (res, w')"
  then show ?thesis
    using BulkInsertOperation prepare_log [of db es w]
    by (auto simp: ConvertToTypedSlice_def intro: no_call_outcome call_outcome split: list.splits prod.splits sum.splits if_splits option.splits)
next
  case (BulkDeleteOperation es)
  assume "Execute db bs op w = Some (res, w')"
  then show ?thesis
    using BulkDeleteOperation each_outcome [of "execute_delete db" es w res w', OF delete_outcome]
    by (auto intro: no_call_outcome call_outcome split: list.splits prod.splits sum.splits if_splits simp del: execute_each.simps)
qed (auto intro: insert_outcome update_outcome delete_outcome each_outcome)

lemma execute_all_outcome: "execute_all db bs ops w = Some (res, w') \<Longrightarrow> outcome (concat (map GetEntities ops)) w res w'"
proof (induction ops arbitrary: w)
  case (Cons op ops)
  obtain r w1 where e: "Execute db bs op w = Some (r, w1)" using Cons.prems by (auto split: option.splits prod.splits)
  show ?case
    using Cons e outcome_append [of "GetEntities op" w w1 _ res w'] outcome_error [of "GetEntities op" w _ w1]
      Execute_outcome [OF e]
    by (cases r) auto
qed (simp add: no_call_outcome)

section \<open>Commit\<close>

lemma mset_concat_map: "mset (concat (map f xs)) = (\<Sum>x \<in># mset xs. mset (f x))"
  by (induction xs) simp_all

lemma concat_single: "(\<forall>op \<in> set ops. single op) \<Longrightarrow> concat (map GetEntities ops) = map op_entity ops"
  by (induction ops) (auto simp: single_entities)

lemma optimize_entities:
  assumes "uow_reach rf ids u"
  shows "mset (concat (map GetEntities (optimizeOperations h u))) = mset (map op_entity (operations u))"
proof -
  have "\<forall>op \<in> set (operations u). single op" using reach_ok [OF assms] by (simp add: uow_ok_def)
  then show ?thesis
    using optimize_ref [OF assms, of h] merge_ref_mset [of "operations u"] concat_single [of "operations u"]
    by (cases "EnableOperationMerge (uow_cfg u)") (auto simp: optimizeOperations_def)
qed

text \<open>
  C15. A successful commit, with merging switched on or off, has written every queued entity exactly once:
  the entities written are those of a plan that is a permutation of
  the operations to execute.  It has marked the unit of work as committed and has emptied it: the
  queue and the lists of new, dirty and removed entities are empty.  As for the plan, this supposes
  that identifiers have not changed since the entities were queued and that no two types among
  the queued entities print the same name (\<open>named_apart\<close>); for types that print alike it is
  false, see \<open>equal_type_names_collide\<close> below.
\<close>

theorem commit_writes_each_entity_once:
  assumes r: "uow_reach rf (GetID (w_heap w)) u" and n: "named_apart u"
    and c: "Commit db ord ord' u w = Some (Inr (), u', w')"
  shows "isCommitted u' \<and> operations u' = [] \<and> newEntities u' = [] \<and> dirtyEntities u' = [] \<and> removedEntities u' = [] \<and>
    (\<exists>plan. mset plan = mset (optimizeOperations (w_heap w) u) \<and> writes w w' (concat (map GetEntities plan)) \<and>
       mset (concat (map GetEntities plan)) = mset (map op_entity (operations u)))"
proof -
  obtain plan where s: "sortOperationsByDependency ord ord' (w_heap w) (dependencyManager u) (optimizeOperations (w_heap w) u) = Inr plan"
    and x: "execute_all db (BatchSize (uow_cfg u)) plan w = Some (Inr (), w')"
    and u': "u' = clear_uow (u\<lparr>isCommitted := True\<rparr>)"
    using c by (auto simp: Commit_def executeOperations_def split: if_splits option.splits prod.splits sum.splits)
  have p: "mset plan = mset (optimizeOperations (w_heap w) u)" using plan_ok [OF r n s] by simp
  have "mset (concat (map GetEntities plan)) = mset (concat (map GetEntities (optimizeOperations (w_heap w) u)))"
    using p by (simp only: mset_concat_map)
  also have "\<dots> = mset (map op_entity (operations u))" by (rule optimize_entities [OF r])
  finally show ?thesis
    using execute_all_outcome [OF x] p by (auto simp: outcome_def u' clear_uow_def)
qed

text \<open>
  C38. A commit is not a transaction: when an operation fails, whatever was written before it stays
  written, and the unit of work is left open with its whole queue, so that committing again writes
  those entities a second time.
\<close>

theorem failed_commit_keeps_queue:
  assumes "\<not> isCommitted u" "\<not> isRolledBack u"
    and s: "sortOperationsByDependency ord ord' (w_heap w) (dependencyManager u) (optimizeOperations (w_heap w) u) = Inr plan"
    and x: "execute_all db (BatchSize (uow_cfg u)) done_ops w = Some (Inr (), w1)" "plan = done_ops @ op # rest"
    and f: "Execute db (BatchSize (uow_cfg u)) op w1 = Some (Inl err, w2)"
  shows "Commit db ord ord' u w = Some (Inl (''unit of work commit failed: operation failed: '' @ err), u, w2) \<and>
    (\<exists>es. writes w w2 (concat (map GetEntities done_ops) @ es))"
proof -
  have run: "execute_all db bs (ops @ op # rest) w0 = Some (Inl (''operation failed: '' @ err), w2)"
    if "execute_all db bs ops w0 = Some (Inr (), w1)" "Execute db bs op w1 = Some (Inl err, w2)" for bs ops w0
    using that by (induction ops arbitrary: w0) (auto split: option.splits prod.splits sum.splits)
  have "writes w w1 (concat (map GetEntities done_ops))" using execute_all_outcome [OF x(1)] by (auto simp: outcome_def)
  moreover obtain es' where "writes w1 w2 es'" using Execute_outcome [OF f] by (auto simp: outcome_def)
  ultimately have "\<exists>es. writes w w2 (concat (map GetEntities done_ops) @ es)" using writes_trans by blast
  then show ?thesis
    using assms(1,2) s run [OF x(1) f] x(2) by (simp add: Commit_def executeOperations_def)
qed

lemma removed_operation:
  assumes "uow_ok ids u" "status ids u k = Some PRemoved"
  obtains op where "op \<in> set (operations u)" "is_delete op" "op_type op = fst k" "single op"
proof -
  have "kinds_at ids (operations u) k = kind_of (status ids u k)" using assms(1) unfolding uow_ok_def by blast
  then have "kinds_at ids (operations u) k = [OperationTypeDelete]" using assms(2) by (simp add: kind_of_def)
  then have "OperationTypeDelete \<in> set (kinds_at ids (operations u) k)" by simp
  then obtain op where op: "op \<in> set (operations u)" "key_of ids (op_entity op) = k" "GetOperationType op = OperationTypeDelete"
    by (fastforce simp: kinds_at_def)
  then show ?thesis using that [OF op(1)] assms by (auto simp: is_delete_def op_type_def key_of_def uow_ok_def)
qed

text \<open>
  C39. A unit of work that deletes entities of two types, one of which depends on the other, cannot be
  committed: every attempt fails with the error about a circular dependency before anything is
  written.
\<close>

theorem commit_fails_on_dependent_deletes:
  assumes r: "uow_reach rf ids u" "EnableOperationMerge (uow_cfg u)" and open_u: "\<not> isCommitted u" "\<not> isRolledBack u"
    and rm: "status ids u (t1, i1) = Some PRemoved" "status ids u (t2, i2) = Some PRemoved"
    and dep: "HasDependency (dependencyManager u) t1 t2"
  shows "\<exists>err. Commit db ord ord' u w = Some (Inl err, u, w)"
proof -
  let ?opt = "optimizeOperations (w_heap w) u" and ?dm = "dependencyManager u"
  have ok: "dm_ok ?dm" by (rule dm_reach_ok [OF reach_deps [OF r(1)]])
  note o = optimize_ref [OF r, of "w_heap w"]
  have mem: "\<exists>op \<in> set (filter is_delete ?opt). GetEntities op \<noteq> [] \<and> op_type op = t" if st: "status ids u (t, i) = Some PRemoved" for t i
  proof -
    obtain op where op: "op \<in> set (operations u)" "is_delete op" "op_type op = t" "single op"
      using removed_operation [OF reach_ok [OF r(1)] st] by auto
    then obtain op' where op': "op' \<in> set ?opt" "opkey op' = opkey op" using o merge_ref_keys by (metis (no_types, lifting) imageE imageI)
    have ne: "GetEntities op' \<noteq> []" using o op'(1) merge_ref_nonempty by metis
    have "op_type op' = t" using opkey_type [OF ne] opkey_type [of op] op op'(2) by (simp add: single_entities)
    moreover have "class_of op' = Deletes" using op'(2) op(2) by (simp add: opkey_def class_of_kind)
    then have "is_delete op'" using class_cases(1) [of op'] class_of_kind [of op'] by auto
    ultimately show ?thesis using op'(1) ne by auto
  qed
  obtain a b where a: "a \<in> set (filter is_delete ?opt)" "op_type a = t1" and b: "b \<in> set (filter is_delete ?opt)" "op_type b = t2"
    using mem [OF rm(1)] mem [OF rm(2)] by blast
  have "t1 \<noteq> t2" using dep ok by (auto simp: dm_ok_def HasDependency_def)
  then have "a \<noteq> b" using a b by auto
  then have len: "\<not> length (filter is_delete ?opt) \<le> 1" "\<not> length ?opt \<le> 1"
    using a(1) b(1) by (cases "filter is_delete ?opt"; cases ?opt; auto split: if_splits)+
  have "\<forall>op \<in> set (filter is_delete ?opt). GetEntities op \<noteq> []" using o merge_ref_nonempty by (metis filter_is_subset subsetD)
  then have "sortOperationsByEntityDependency ord' (w_heap w) ?dm (filter is_delete ?opt) True =
      Inl ''circular dependency detected in entity relationships''"
    using len(1) a b dep deletion_order_iff [OF ok, of ord' "GetID (w_heap w)" "map op_entity (filter is_delete ?opt)"]
    by (auto simp: sortOperationsByEntityDependency_def index_ops_result op_type_def)
  then show ?thesis
    using open_u len(2) by (auto simp: Commit_def executeOperations_def sortOperationsByDependency_def split: sum.splits)
qed

text \<open>
  C40. Entities are told apart by type and identifier, and a new entity has the identifier 0: a second
  new entity of the same type is accepted without an error and never written.
\<close>

theorem second_new_entity_dropped:
  assumes "Create_entity h (Some e) u = (Inr (), u')" "er_type e' = er_type e" "GetID h e' = GetID h e"
  shows "Create_entity h (Some e') u' = (Inr (), u')"
proof -
  have same: "containsEntity h m e' = containsEntity h m e" for m using assms(2,3) by (simp add: containsEntity_def)
  show ?thesis
    using assms(1) by (auto simp: Create_entity_def same addOperation_def split: if_splits sum.splits)
      (auto simp: containsEntity_def)
qed

section \<open>Examples\<close>

text \<open>
  The examples use a unit of work that creates a post and the user it depends on, a database that
  refuses one given call, and a unit of work that deletes both.
\<close>

definition demo_pair :: "nat UnitOfWork" where
  "demo_pair = (snd (Create_entity (demo_heap 5) (Some demo_user) demo_uow))\<lparr>dependencyManager := demo_deps\<rparr>"

definition demo_deleted :: "nat UnitOfWork" where
  "demo_deleted = (let u = snd (Delete_entity (demo_heap 5) (Some demo_user)
       (snd (Delete_entity (demo_heap 5) (Some demo_post) (NewUnitOfWork DefaultConfig))))
     in u\<lparr>dependencyManager := RegisterDependency (RType 2 ''Post'') (RType 1 ''User'') (dependencyManager u)\<rparr>)"

definition demo_db :: "dbcall option \<Rightarrow> unit dbenv" where
  "demo_db bad = \<lparr>x_Validatable = (\<lambda>_. False), x_HasTimestamps = (\<lambda>_. False), x_HasRevision = (\<lambda>_. False), x_SoftDelete = (\<lambda>_. False),
     x_Validate = (\<lambda>_. None), x_Now = (\<lambda>_. 0), x_call = (\<lambda>n c h. (if Some c = bad then Inl ''refused'' else Inr 1, h))\<rparr>"

definition demo_world :: "unit world" where
  "demo_world = \<lparr>w_heap = demo_heap 5, w_log = [], w_clock = 0\<rparr>"

lemma demo_pair_state:
  "operations demo_pair = [InsertOperation demo_post, InsertOperation demo_user]" "dependencyManager demo_pair = demo_deps"
  "uow_cfg demo_pair = DefaultConfig" "\<not> isCommitted demo_pair" "\<not> isRolledBack demo_pair"
  by (simp_all add: demo_pair_def demo_uow_simps)

lemma demo_pair_reach: "uow_reach demo_reflection (GetID (demo_heap 5)) demo_pair"
proof -
  let ?u = "snd (Create_entity (demo_heap 5) (Some demo_user) demo_uow)"
  have "uow_reach demo_reflection (GetID (demo_heap 5)) ?u" by (rule uow_reach.create [OF demo_uow_reach refl])
  from uow_reach.depend [OF this, of "RType 2 ''Post''" "RType 1 ''User''"] show ?thesis
    by (simp add: demo_pair_def demo_deps_def demo_uow_simps DefaultDependencyManager_def)
qed

lemma demo_pair_apart: "named_apart demo_pair"
  by (simp add: named_apart_def demo_pair_state op_type_def)

lemma demo_pair_plan:
  "sortOperationsByDependency demo_orders demo_orders (demo_heap 5) (dependencyManager demo_pair) (optimizeOperations (demo_heap 5) demo_pair) =
     Inr [InsertOperation demo_user, InsertOperation demo_post]"
  by code_simp

theorem commit_plan_ordered_witness:
  "rank (InsertOperation demo_user :: nat operation) \<le> rank (InsertOperation demo_post :: nat operation) \<and>
   \<not> HasDependency demo_deps (RType 1 ''User'') (RType 2 ''Post'')"
  using spec [OF spec [OF conjunct2 [OF commit_plan_ordered [OF demo_pair_reach demo_pair_apart demo_pair_plan]], of 0], of 1]
  by (simp add: op_type_def demo_pair_state is_insert_def)

lemma demo_pair_commit:
  "map_option (\<lambda>(r, u, w). (r, w_log w)) (Commit (demo_db None) demo_orders demo_orders demo_pair demo_world) =
     Some (Inr (), [DbCreate demo_user, DbCreate demo_post])"
  by code_simp

theorem commit_writes_each_entity_once_witness:
  "\<exists>u' w' es. Commit (demo_db None) demo_orders demo_orders demo_pair demo_world = Some (Inr (), u', w') \<and>
     isCommitted u' \<and> newEntities u' = [] \<and> writes demo_world w' es \<and> mset es = mset [demo_post, demo_user]"
proof -
  obtain u' w' where c: "Commit (demo_db None) demo_orders demo_orders demo_pair demo_world = Some (Inr (), u', w')"
    using demo_pair_commit by auto
  have "uow_reach demo_reflection (GetID (w_heap demo_world)) demo_pair" using demo_pair_reach by (simp add: demo_world_def)
  from commit_writes_each_entity_once [OF this demo_pair_apart c] show ?thesis
    using c by (auto simp: demo_pair_state)
qed

text \<open>
  Two types of different packages with the same package and type name print alike.  A new entity of
  each has the identifier 0, so both operations get one key: the commit succeeds, writes the second
  entity twice and never writes the first.
\<close>

definition demo_alike :: "nat UnitOfWork" where
  "demo_alike = snd (Create_entity (demo_heap 0) (Some (ERef (RType 4 ''model.Item'') 0))
     (snd (Create_entity (demo_heap 0) (Some (ERef (RType 3 ''model.Item'') 10)) (NewUnitOfWork DefaultConfig))))"

lemma equal_type_names_collide:
  "uow_reach demo_reflection (GetID (demo_heap 0)) demo_alike \<and>
   map op_entity (operations demo_alike) = [ERef (RType 3 ''model.Item'') 10, ERef (RType 4 ''model.Item'') 0] \<and>
   map_option (\<lambda>(r, u, w). (r, w_log w)) (Commit (demo_db None) demo_orders demo_orders demo_alike (demo_world\<lparr>w_heap := demo_heap 0\<rparr>)) =
     Some (Inr (), [DbCreate (ERef (RType 4 ''model.Item'') 0), DbCreate (ERef (RType 4 ''model.Item'') 0)])"
proof (intro conjI)
  show "uow_reach demo_reflection (GetID (demo_heap 0)) demo_alike"
    unfolding demo_alike_def by (intro uow_reach.intros refl)
qed code_simp+

theorem failed_commit_keeps_queue_witness:
  "\<exists>w'. Commit (demo_db (Some (DbCreate demo_post))) demo_orders demo_orders demo_pair demo_world =
       Some (Inl ''unit of work commit failed: operation failed: failed to insert entity: refused'', demo_pair, w') \<and>
     (\<exists>es. writes demo_world w' (demo_user # es))"
proof -
  let ?db = "demo_db (Some (DbCreate demo_post))"
  have plan: "sortOperationsByDependency demo_orders demo_orders (w_heap demo_world) (dependencyManager demo_pair)
      (optimizeOperations (w_heap demo_world) demo_pair) = Inr [InsertOperation demo_user, InsertOperation demo_post]"
    using demo_pair_plan by (simp add: demo_world_def)
  obtain w1 where 1: "execute_all ?db (BatchSize (uow_cfg demo_pair)) [InsertOperation demo_user :: nat operation] demo_world = Some (Inr (), w1)"
    by (simp add: execute_insert_def validate_def demo_db_def db_call_def)
  obtain w2 where 2: "Execute ?db (BatchSize (uow_cfg demo_pair)) (InsertOperation demo_post :: nat operation) w1 =
      Some (Inl ''failed to insert entity: refused'', w2)"
    by (simp add: execute_insert_def validate_def demo_db_def db_call_def)
  show ?thesis
    using failed_commit_keeps_queue [OF demo_pair_state(4,5) plan 1 _ 2, of "[]"] by auto
qed

lemma demo_deleted_reach: "uow_reach demo_reflection (GetID (demo_heap 5)) demo_deleted"
  unfolding demo_deleted_def Let_def by (intro uow_reach.intros refl)

theorem commit_fails_on_dependent_deletes_witness:
  "\<exists>err. Commit (demo_db None) demo_orders demo_orders demo_deleted demo_world = Some (Inl err, demo_deleted, demo_world)"
proof (rule commit_fails_on_dependent_deletes [OF demo_deleted_reach])
  show "status (GetID (demo_heap 5)) demo_deleted (RType 2 ''Post'', 5) = Some PRemoved"
    "status (GetID (demo_heap 5)) demo_deleted (RType 1 ''User'', 11) = Some PRemoved"
    by (simp_all add: demo_deleted_def demo_uow_simps status_def listed_def Let_def)
qed (simp_all add: demo_deleted_def demo_uow_simps Let_def HasDependency_Register)

theorem second_new_entity_dropped_witness:
  "\<exists>u'. Create_entity (\<lambda>_. demo_heap 0 demo_post) (Some demo_post) (NewUnitOfWork DefaultConfig :: nat UnitOfWork) = (Inr (), u') \<and>
     Create_entity (\<lambda>_. demo_heap 0 demo_post) (Some (ERef (RType 2 ''Post'') 12)) u' = (Inr (), u')"
proof -
  let ?h = "\<lambda>_ :: eref. demo_heap 0 demo_post"
  obtain u' where c: "Create_entity ?h (Some demo_post) (NewUnitOfWork DefaultConfig :: nat UnitOfWork) = (Inr (), u')"
    by (simp add: demo_uow_simps)
  show ?thesis using second_new_entity_dropped [OF c, of "ERef (RType 2 ''Post'') 12"] c by (simp add: GetID_def)
qed

end
