(* ===== verification/Spec2Isabelle.thy ===== *)
theory Spec2Isabelle
  imports Keyring Security Protocol_Check Lifecycle Uow_Commit
begin

text \<open>
  Verification development for the Go library \<open>toolkit\<close>.  Two of its parts carry logic of their
  own and are modelled: the gossip membership protocol (\<open>src/memberlist\<close>, a SWIM failure detector
  with suspicion, encryption, push/pull synchronisation and weights) and the unit of work for GORM
  (\<open>src/unitofwork\<close>).  The two do not call each other.

  \<^bold>\<open>Conventions.\<close>  A Go function that changes its receiver is a function that returns the new state;
  a mutex makes a method one step.  \<open>None\<close> is a panic (or, for the recursive dispatch of messages,
  fuel that ran out), \<open>Inl err\<close> an error that is returned, \<open>Inr v\<close> a value.  Machine integers whose
  width matters are words (\<open>u8\<close>, \<open>u16\<close>, \<open>u32\<close>), and \<open>ScaleTimeout\<close> wraps its product at 64 bits
  (\<open>int64\<close>); Go's \<open>int\<close>, the other durations and points of time are \<open>int\<close>, which supposes that they
  stay within 64 bits, and floating-point products are taken over the reals.  Node
  pointers and entity pointers are references into an explicit heap, since the code shares the objects behind them.  Random numbers, the iteration order of maps and what arrives on a
  channel before a timeout are arguments, so the theorems hold for all of them.  Code outside the
  repository is a parameter: AES-GCM (record \<open>aead\<close>, law \<open>aead_laws\<close>), msgpack and LZW (\<open>codec\<close>,
  \<open>codec_laws\<close>), the B-tree of the broadcast queue (\<open>btree\<close>, \<open>btree_laws\<close>), the floating-point
  logarithms (locale \<open>float_log\<close>), DNS, transport, delegates, reflection and GORM.  Every law has an
  instance that satisfies it, used by the witnesses.  Logging and metrics are left out.

  \<^bold>\<open>Membership: the small components.\<close>
  \<^item> \<open>Awareness\<close> (\<open>awareness.go\<close>): the health score; it stays in its range and scales timeouts within
    fixed bounds as long as the product is a 64-bit duration.
  \<^item> \<open>Keyring\<close> (\<open>keyring.go\<close>): the ring of keys, with the in-place shift of \<open>RemoveKey\<close>; the ring
    refines an abstract key set with a primary key (locale \<open>key_source\<close>).
  \<^item> \<open>Security\<close> (\<open>security.go\<close>): padding, encryption and the search over the installed keys; what is
    encrypted under an installed key is recovered.
  \<^item> \<open>Wire\<close>, \<open>Timing\<close> (\<open>util.go\<close>): framing of compound messages with their 8- and 16-bit counters, and
    the limits that depend on the cluster size.
  \<^item> \<open>Suspicion\<close> (\<open>suspicion.go\<close>): the timer that confirmations accelerate; run against any
    sequence of confirmations (\<open>fire_time\<close>) it fires, and within its bounds.
  \<^item> \<open>Gossip_Queue\<close> (\<open>queue.go\<close>, \<open>broadcast.go\<close>): the transmit-limited queue; its order and its name
    index are invariants, a packet is filled by the least transmitted messages that fit, and what
    was sent is queued again until its limit (locale \<open>broadcast_source\<close>).
  \<^item> \<open>Addresses\<close> (\<open>util.go\<close>, \<open>memberlist.go\<close>, \<open>config.go\<close>): host and port texts and the allow list.
  \<^item> \<open>Messages\<close> (\<open>net.go\<close>, \<open>state.go\<close>): the message and node records and their encoding.

  \<^bold>\<open>Membership: the node.\<close>  The state grows by layers: \<open>memberlist\<close> (table, timers, queue), \<open>netstate\<close>
  (keys, hand-off queues, ack handlers, packets sent), \<open>strmstate\<close> (streams) and \<open>life\<close> (tasks).
  \<^item> \<open>Member_State\<close> (\<open>state.go\<close>): \<open>aliveNode\<close>, \<open>suspectNode\<close>, \<open>deadNode\<close>, \<open>weightNode\<close>, \<open>refute\<close>,
    \<open>mergeState\<close> and the timeout of a suspicion as three asynchronous steps.  \<open>Node_Lists\<close> (\<open>util.go\<close>):
    reaping, shuffling and random choice.  \<open>Member_Invariant\<close> and \<open>Membership\<close>: list, map and size
    estimate agree in every reachable state, every suspected node is watched by a timer, suspicions
    that are not refuted end in death, a refuted one kills nobody wherever its timer was, accusations of the local node are refuted, incarnations of
    other nodes never go back.
  \<^item> \<open>Protocol_Check\<close> (\<open>state.go\<close>): the version check of a merge accepts exactly the compatible peers.
  \<^item> \<open>Packet\<close> (\<open>net.go\<close>): sending with piggybacked broadcasts, compression, checksum and encryption;
    receiving, dispatch and the two hand-off queues.  \<open>Packet_Correct\<close>: a packet is delivered as it
    was sent, its size is bounded, alive messages are handled first, and no packet breaks the table.
    \<open>handleCommand\<close> recurses into compound and compressed messages; its fuel bounds the nesting depth,
    and fuel above the depth to which the messages of the packet nest (\<open>nests_below\<close>) is enough.
  \<^item> \<open>Stream_Conn\<close> (\<open>net.go\<close>): connections, push/pull, user messages and pings over TCP.
    \<open>Stream_Correct\<close>: the table arrives as it was pushed, no byte sequence from a peer breaks the
    table when the handler returns, and the inputs on which it panics.
  \<^item> \<open>Probe\<close> (\<open>state.go\<close>): the periodic work: probe with indirect probes and TCP fallback, gossip,
    weight, push/pull.  \<open>Probe_Correct\<close>: round robin over whole passes, suspicion of
    silent nodes with the exact health score, bounds on gossip.
  \<^item> \<open>Lifecycle\<close> (\<open>memberlist.go\<close>, \<open>state.go\<close>): creation, join, leave, shutdown and the scheduling of
    tasks; leaving is final under every later step of the protocol, and \<open>Shutdown\<close> ends the tasks except in
    one configuration.

  \<^bold>\<open>Unit of work.\<close>
  \<^item> \<open>Uow_Dependency\<close> (\<open>dependency.go\<close>): the graph of entity types and Kahn's algorithm, proved against
    acyclicity of the dependencies; its termination measure is the length of the queue plus the
    number of positive in-degrees.  The order of deletions mixes two directions and exists only
    without dependencies.
  \<^item> \<open>Uow_Snapshot\<close> (\<open>entity.go\<close>, \<open>snapshot.go\<close>): entities in a heap and the dirty check.
  \<^item> \<open>Uow_Operation\<close> (\<open>operation.go\<close>): the six operations with their execution against a database that
    records its calls.
  \<^item> \<open>Unit_Of_Work\<close> (\<open>unitofwork.go\<close>, \<open>manager.go\<close>): registration, planning, commit and rollback.
    \<open>Uow_Correct\<close>: the lists and the queue refine a map from identities to pending states.
    \<open>Uow_Commit\<close>: the plan of a commit and its execution, resting on the dependency manager through
    the locale \<open>entity_order\<close>.  Operations are found again by the printed name of the type, so the plan
    and the commit are right for types whose names differ (\<open>named_apart\<close>); the lemma
    \<open>equal_type_names_collide\<close> shows what happens otherwise.

  \<^bold>\<open>Not modelled.\<close>  Sockets, the DNS client and the loops that copy from channels (the transport of
  \<open>net_transport.go\<close>; each packet or connection is one step); the interfaces users implement; the
  GORM plugin (\<open>plugin.go\<close>), which installs callbacks; the flag \<open>isExecuting\<close>, which only the plugin
  reads, and the moment in which \<open>Commit\<close> has released its lock; memory exhaustion by announced sizes; messages
  that arrive while the packet handler drains its queues.  The other packages of the repository (\<open>form\<close>,
  \<open>pagination\<close>, \<open>caches\<close>, \<open>gocache\<close>, \<open>cast\<close>, \<open>sqlext\<close> and the small helpers) are independent of
  these two and are not modelled yet.
\<close>

end
